(* ===== verification/Vyn_Prelude.thy ===== *)
theory Vyn_Prelude
  imports Main "HOL-Library.Word" "HOL-Library.AList" "HOL-Library.Sublist"
begin

text \<open>
  Shared vocabulary of the development: machine types, the SDK's exception hierarchy as a
  datatype (\<^verbatim>\<open>include/vynkor/error.hpp\<close>), byte strings and their conversions,
  \<^verbatim>\<open>std::to_string\<close>, big-endian fields, the outcome of an operation that performs
  system calls, and association tables for \<^verbatim>\<open>std::map\<close>/\<^verbatim>\<open>std::unordered_map\<close>.

  Two interfaces are stated as locales and interpreted here on the definitions the model uses:
  \<open>fixed_codec\<close> (a fixed-width field encoder with its decoder; clients: the frame header, the
  fragment header, the WebSocket length fields) and \<open>table_store\<close> (a keyed table; clients: the
  reassembly table, the fragment set of a stream, the pending table of the confirmation gate).
\<close>

unbundle bit_operations_syntax

named_theorems wire_defs \<open>constants of the wire format\<close>
named_theorems bytes_simps \<open>rewriting of byte-string fields\<close>

section \<open>Machine types\<close>

type_synonym byte = "8 word"
type_synonym u16 = "16 word"
type_synonym u32 = "32 word"
type_synonym u64 = "64 word"
type_synonym bytes = "8 word list"

text \<open>\<^verbatim>\<open>static_cast<int>\<close> of a 64-bit signed count: the value modulo \<open>2^32\<close>, read signed.\<close>

definition cast_int :: "int \<Rightarrow> int" where
  "cast_int x = sint (word_of_int x :: 32 word)"

section \<open>The exception hierarchy\<close>

text \<open>
  One constructor per class of \<^verbatim>\<open>error.hpp\<close>, then the standard-library and user
  exceptions that can pass through the SDK. \<open>NonStdException\<close> is a thrown value that does not
  derive from \<^verbatim>\<open>std::exception\<close> and has no \<^verbatim>\<open>what()\<close>.
\<close>

datatype vyn_error =
    VynkorIoError string
  | VynkorProtoError string
  | VynkorFrameMagicMismatch
  | VynkorFrameCrcMismatch
  | VynkorFrameReadTimeout
  | VynkorPayloadTooLarge nat
  | VynkorTimeout
  | VynkorPermissionDenied string
  | VynkorInternal string
  | StdInvalidArgument string
  | StdOutOfRange string
  | StdRuntimeError string
  | UserException string
  | NonStdException

type_synonym 'a result = "vyn_error + 'a"

definition bind_result :: "'a result \<Rightarrow> ('a \<Rightarrow> 'b result) \<Rightarrow> 'b result" where
  "bind_result r f = (case r of Inl e \<Rightarrow> Inl e | Inr a \<Rightarrow> f a)"

text \<open>
  The outcome of code that performs system calls over a scripted environment. \<open>Pending\<close> is the
  state of a program that waits for a system call whose result the script does not give (a
  blocking read on an idle connection, for instance).
\<close>

datatype 'a outcome = Ret 'a | Throw vyn_error | Pending

definition andthen :: "'a outcome \<times> 's \<Rightarrow> ('a \<Rightarrow> 's \<Rightarrow> 'b outcome \<times> 's) \<Rightarrow> 'b outcome \<times> 's" where
  "andthen r f = (case r of
      (Ret a, s) \<Rightarrow> f a s
    | (Throw e, s) \<Rightarrow> (Throw e, s)
    | (Pending, s) \<Rightarrow> (Pending, s))"

fun lift_result :: "'a result \<Rightarrow> 'a outcome" where
  "lift_result (Inl e) = Throw e"
| "lift_result (Inr a) = Ret a"

section \<open>Strings and byte strings\<close>

definition bytes_of :: "string \<Rightarrow> bytes" where
  "bytes_of s = map (\<lambda>c. word_of_nat (of_char c)) s"

definition string_of :: "bytes \<Rightarrow> string" where
  "string_of bs = map (\<lambda>b. char_of (unat b)) bs"

text \<open>\<^verbatim>\<open>std::to_string\<close> on unsigned values and on signed ones.\<close>

fun to_string :: "nat \<Rightarrow> string" where
  "to_string n = (if n < 10 then [char_of (48 + n)]
                  else to_string (n div 10) @ [char_of (48 + n mod 10)])"

declare to_string.simps [simp del]

definition to_string_int :: "int \<Rightarrow> string" where
  "to_string_int i = (if i < 0 then CHR ''-'' # to_string (nat (- i)) else to_string (nat i))"

text \<open>\<^verbatim>\<open>what()\<close> of each exception class.\<close>

fun what :: "vyn_error \<Rightarrow> string" where
  "what (VynkorIoError m) = ''io error: '' @ m"
| "what (VynkorProtoError m) = ''proto decode error: '' @ m"
| "what VynkorFrameMagicMismatch = ''frame magic mismatch''"
| "what VynkorFrameCrcMismatch = ''frame crc mismatch''"
| "what VynkorFrameReadTimeout = ''timed out reading frame body''"
| "what (VynkorPayloadTooLarge n) = ''payload too large: '' @ to_string n @ '' bytes''"
| "what VynkorTimeout = ''operation timed out''"
| "what (VynkorPermissionDenied m) = ''permission denied: '' @ m"
| "what (VynkorInternal m) = ''internal error: '' @ m"
| "what (StdRuntimeError m) = m"
| "what (StdInvalidArgument m) = m"
| "what (StdOutOfRange m) = m"
| "what (UserException m) = m"
| "what NonStdException = []"

text \<open>\<^verbatim>\<open>s.rfind(p, 0) == 0\<close>: the string starts with the prefix.\<close>

definition starts_with :: "string \<Rightarrow> string \<Rightarrow> bool" where
  "starts_with p s \<longleftrightarrow> take (length p) s = p"

section \<open>Big-endian fields\<close>

primrec be_bytes :: "nat \<Rightarrow> nat \<Rightarrow> bytes" where
  "be_bytes 0 v = []"
| "be_bytes (Suc n) v = be_bytes n (v div 256) @ [word_of_nat v]"

definition be_val :: "bytes \<Rightarrow> nat" where
  "be_val bs = foldl (\<lambda>a b. 256 * a + unat b) 0 bs"

text \<open>\<^verbatim>\<open>htons/htonl/htobe64\<close> followed by \<^verbatim>\<open>memcpy\<close>, and the way back.\<close>

definition be16 :: "u16 \<Rightarrow> bytes" where "be16 w = be_bytes 2 (unat w)"
definition be32 :: "u32 \<Rightarrow> bytes" where "be32 w = be_bytes 4 (unat w)"
definition be64 :: "u64 \<Rightarrow> bytes" where "be64 w = be_bytes 8 (unat w)"

definition un16 :: "bytes \<Rightarrow> u16" where "un16 bs = word_of_nat (be_val bs)"
definition un32 :: "bytes \<Rightarrow> u32" where "un32 bs = word_of_nat (be_val bs)"
definition un64 :: "bytes \<Rightarrow> u64" where "un64 bs = word_of_nat (be_val bs)"

text \<open>\<^verbatim>\<open>memcpy(&x, buf + off, n)\<close>.\<close>

definition field :: "bytes \<Rightarrow> nat \<Rightarrow> nat \<Rightarrow> bytes" where
  "field buf off n = take n (drop off buf)"

section \<open>Keyed tables\<close>

text \<open>
  \<^verbatim>\<open>std::map\<close> and \<^verbatim>\<open>std::unordered_map\<close> as association lists with distinct keys. The
  code never observes their iteration order.
\<close>

type_synonym ('k, 'v) table = "('k \<times> 'v) list"

definition tbl_find :: "('k, 'v) table \<Rightarrow> 'k \<Rightarrow> 'v option" where
  "tbl_find m k = map_of m k"

definition tbl_put :: "'k \<Rightarrow> 'v \<Rightarrow> ('k, 'v) table \<Rightarrow> ('k, 'v) table" where
  "tbl_put k v m = AList.update k v m"

definition tbl_erase :: "'k \<Rightarrow> ('k, 'v) table \<Rightarrow> ('k, 'v) table" where
  "tbl_erase k m = AList.delete k m"

text \<open>The erase-while-iterating loop: every entry that satisfies \<open>stale\<close> goes.\<close>

definition tbl_sweep :: "('v \<Rightarrow> bool) \<Rightarrow> ('k, 'v) table \<Rightarrow> ('k, 'v) table" where
  "tbl_sweep stale m = filter (\<lambda>(k, v). \<not> stale v) m"

definition tbl_size :: "('k, 'v) table \<Rightarrow> nat" where
  "tbl_size m = length m"

definition tbl_ok :: "('k, 'v) table \<Rightarrow> bool" where
  "tbl_ok m \<longleftrightarrow> distinct (map fst m)"

section \<open>Lemmas\<close>

subsection \<open>Results and outcomes\<close>

lemma bind_result_simps [simp]:
  "bind_result (Inl e) f = Inl e"
  "bind_result (Inr a) f = f a"
  by (simp_all add: bind_result_def)

lemma bind_result_Inr:
  "bind_result r f = Inr b \<longleftrightarrow> (\<exists>a. r = Inr a \<and> f a = Inr b)"
  by (cases r) simp_all

lemma andthen_simps [simp]:
  "andthen (Ret a, s) f = f a s"
  "andthen (Throw e, s) f = (Throw e, s)"
  "andthen (Pending, s) f = (Pending, s)"
  by (simp_all add: andthen_def)

lemma andthen_Ret:
  "andthen r f = (Ret b, t) \<longleftrightarrow> (\<exists>a s. r = (Ret a, s) \<and> f a s = (Ret b, t))"
  by (cases r; cases "fst r") (auto simp: andthen_def)

subsection \<open>Strings\<close>

lemma length_bytes_of [simp]: "length (bytes_of s) = length s"
  by (simp add: bytes_of_def)

lemma length_string_of [simp]: "length (string_of bs) = length bs"
  by (simp add: string_of_def)

lemma unat_word_of_char [simp]: "unat (word_of_nat (of_char c) :: byte) = of_char c"
  by (simp add: unat_of_nat)

lemma string_of_bytes_of [simp]: "string_of (bytes_of s) = s"
  by (simp add: string_of_def bytes_of_def comp_def)

lemma word_of_char_of [simp]: "(word_of_nat (of_char (char_of (unat b))) :: byte) = b"
proof -
  have "unat b < 256" using unsigned_less [of b, where ?'a = nat] by simp
  then show ?thesis by simp
qed

lemma bytes_of_string_of [simp]: "bytes_of (string_of bs) = bs"
  unfolding string_of_def bytes_of_def map_map by (rule map_idI) (simp add: comp_def del: of_char_of)

lemma bytes_of_inj: "bytes_of s = bytes_of t \<longleftrightarrow> s = t"
  by (metis string_of_bytes_of)

lemma bytes_of_append [simp]: "bytes_of (s @ t) = bytes_of s @ bytes_of t"
  by (simp add: bytes_of_def)

lemma starts_with_prefix: "starts_with p s \<longleftrightarrow> prefix p s"
  by (auto simp: starts_with_def prefix_def) (metis append_take_drop_id)

lemma starts_with_append [simp]: "starts_with p (p @ s)"
  by (simp add: starts_with_def)

lemma to_string_small: "n < 10 \<Longrightarrow> to_string n = [char_of (48 + n)]"
  by (simp add: to_string.simps)

lemma to_string_big: "\<not> n < 10 \<Longrightarrow> to_string n = to_string (n div 10) @ [char_of (48 + n mod 10)]"
  by (subst to_string.simps) simp

lemma to_string_nonempty [simp]: "to_string n \<noteq> []"
  by (subst to_string.simps) simp

lemma digit_char_eq: "a < 10 \<Longrightarrow> b < 10 \<Longrightarrow> (char_of (48 + a) = char_of (48 + b :: nat)) = (a = (b :: nat))"
  by (simp add: char_of_eq_iff take_bit_eq_mod)

lemma to_string_digits: "c \<in> set (to_string n) \<Longrightarrow> \<exists>d < 10. c = char_of (48 + d :: nat)"
proof (induction n rule: to_string.induct)
  case (1 n)
  show ?case
  proof (cases "n < 10")
    case True
    with 1 show ?thesis by (auto simp: to_string_small)
  next
    case False
    with "1.prems" have "c \<in> set (to_string (n div 10)) \<or> c = char_of (48 + n mod 10)"
      by (auto simp: to_string_big)
    with False "1.IH" show ?thesis
      by (auto intro: exI [of _ "n mod 10"])
  qed
qed

text \<open>A dash never occurs in a number, so dash-separated numbers can be told apart.\<close>

lemma dash_notin_to_string [simp]: "CHR ''-'' \<notin> set (to_string n)"
proof
  assume "CHR ''-'' \<in> set (to_string n)"
  then obtain d :: nat where "d < 10" and "CHR ''-'' = char_of (48 + d)"
    using to_string_digits by blast
  then have "(of_char CHR ''-'' :: nat) = of_char (char_of (48 + d) :: char)" by simp
  with \<open>d < 10\<close> show False by simp
qed

lemma last_dash:
  assumes "a @ CHR ''-'' # x = b @ CHR ''-'' # y" "CHR ''-'' \<notin> set x" "CHR ''-'' \<notin> set y"
  shows "x = y"
proof -
  have s: "takeWhile (\<lambda>c. c \<noteq> CHR ''-'') (rev (u @ CHR ''-'' # v)) = rev v" if "CHR ''-'' \<notin> set v" for u v :: string
    using that by (auto simp: takeWhile_append takeWhile_eq_all_conv)
  from s [OF assms(2), of a] s [OF assms(3), of b] assms(1) show ?thesis by simp
qed

lemma to_string_inj: "to_string m = to_string n \<Longrightarrow> m = n"
proof (induction m arbitrary: n rule: to_string.induct)
  case (1 m)
  have len: "length (to_string k) = 1 \<longleftrightarrow> k < 10" for k
    by (subst to_string.simps) simp
  show ?case
  proof (cases "m < 10")
    case True
    with "1.prems" len have "n < 10" by metis
    with True "1.prems" show ?thesis by (simp add: to_string_small digit_char_eq)
  next
    case False
    with "1.prems" len have n: "\<not> n < 10" by metis
    with False "1.prems" have "to_string (m div 10) = to_string (n div 10)"
      and "char_of (48 + m mod 10) = (char_of (48 + n mod 10) :: char)"
      by (simp_all add: to_string_big)
    with False "1.IH" have "m div 10 = n div 10" "m mod 10 = n mod 10"
      by (simp_all add: digit_char_eq)
    then show ?thesis by (metis div_mult_mod_eq)
  qed
qed

subsection \<open>Fixed-width codecs\<close>

text \<open>
  The contract of a fixed-width field: encoding gives \<open>width\<close> bytes, and encoding and decoding
  are inverse on byte strings of that width.
\<close>

locale fixed_codec =
  fixes enc :: "'a \<Rightarrow> bytes" and dec :: "bytes \<Rightarrow> 'a" and width :: nat
  assumes enc_length: "length (enc x) = width"
    and dec_enc: "dec (enc x) = x"
    and enc_dec: "length bs = width \<Longrightarrow> enc (dec bs) = bs"
begin

lemma enc_inj: "enc x = enc y \<longleftrightarrow> x = y"
  by (metis dec_enc)

text \<open>Reading the field back out of a longer buffer, at any offset.\<close>

lemma dec_field: "length pre = off \<Longrightarrow> dec (field (pre @ enc x @ post) off width) = x"
  by (simp add: field_def enc_length dec_enc)

text \<open>A buffer that holds enough bytes is the concatenation of its field and the rest.\<close>

lemma field_enc: "off + width \<le> length buf \<Longrightarrow> enc (dec (field buf off width)) = field buf off width"
  by (simp add: field_def enc_dec)

end

lemma length_be_bytes [simp]: "length (be_bytes n v) = n"
  by (induction n arbitrary: v) auto

lemma be_val_snoc [simp]: "be_val (bs @ [b]) = 256 * be_val bs + unat b"
  by (simp add: be_val_def)

lemma be_val_Nil [simp]: "be_val [] = 0"
  by (simp add: be_val_def)

lemma be_val_bytes: "be_val (be_bytes n v) = v mod 256 ^ n"
proof (induction n arbitrary: v)
  case 0
  show ?case by simp
next
  case (Suc n)
  have "v mod 256 ^ Suc n = 256 * (v div 256 mod 256 ^ n) + v mod 256"
    by (simp add: mod_mult2_eq)
  with Suc show ?case by (simp add: unat_of_nat)
qed

lemma unat_byte_less [simp]: "unat (b :: byte) < 256"
  using unsigned_less [of b, where ?'a = nat] by simp

lemma be_val_bound: "be_val bs < 256 ^ length bs"
proof (induction bs rule: rev_induct)
  case Nil
  show ?case by simp
next
  case (snoc b bs)
  then have "256 * Suc (be_val bs) \<le> 256 * 256 ^ length bs"
    by (intro mult_le_mono2) simp
  moreover have "256 * be_val bs + unat b < 256 * Suc (be_val bs)" by simp
  ultimately have "256 * be_val bs + unat b < 256 * 256 ^ length bs" by (rule less_le_trans [rotated])
  then show ?case by simp
qed

lemma be_bytes_val: "be_bytes (length bs) (be_val bs) = bs"
proof (induction bs rule: rev_induct)
  case Nil
  show ?case by simp
next
  case (snoc b bs)
  have "(256 * be_val bs + unat b) div 256 = be_val bs"
    using unat_byte_less [of b] by simp
  moreover have "unat (word_of_nat (256 * be_val bs + unat b) :: byte) = unat b"
    unfolding unat_of_nat using unat_byte_less [of b] by simp
  then have "(word_of_nat (256 * be_val bs + unat b) :: byte) = b"
    by (simp only: word_unat_eq_iff)
  ultimately show ?case using snoc by (simp del: of_nat_add)
qed

interpretation c16: fixed_codec be16 un16 2
proof unfold_locales
  fix x :: u16 and bs :: bytes
  show "length (be16 x) = 2" by (simp add: be16_def)
  show "un16 (be16 x) = x"
    using unsigned_less [of x, where ?'a = nat] by (simp add: be16_def un16_def be_val_bytes)
  show "be16 (un16 bs) = bs" if "length bs = 2"
    using that be_val_bound [of bs] be_bytes_val [of bs] by (simp add: be16_def un16_def unat_of_nat)
qed

interpretation c32: fixed_codec be32 un32 4
proof unfold_locales
  fix x :: u32 and bs :: bytes
  show "length (be32 x) = 4" by (simp add: be32_def)
  show "un32 (be32 x) = x"
    using unsigned_less [of x, where ?'a = nat] by (simp add: be32_def un32_def be_val_bytes)
  show "be32 (un32 bs) = bs" if "length bs = 4"
    using that be_val_bound [of bs] be_bytes_val [of bs] by (simp add: be32_def un32_def unat_of_nat)
qed

interpretation c64: fixed_codec be64 un64 8
proof unfold_locales
  fix x :: u64 and bs :: bytes
  show "length (be64 x) = 8" by (simp add: be64_def)
  show "un64 (be64 x) = x"
    using unsigned_less [of x, where ?'a = nat] by (simp add: be64_def un64_def be_val_bytes)
  show "be64 (un64 bs) = bs" if "length bs = 8"
    using that be_val_bound [of bs] be_bytes_val [of bs] by (simp add: be64_def un64_def unat_of_nat)
qed

lemmas be_lengths [simp] = c16.enc_length c32.enc_length c64.enc_length
lemmas be_inverse [simp] = c16.dec_enc c32.dec_enc c64.dec_enc

subsection \<open>Table contract\<close>

locale table_store =
  fixes find :: "'m \<Rightarrow> 'k \<Rightarrow> 'v option"
    and put :: "'k \<Rightarrow> 'v \<Rightarrow> 'm \<Rightarrow> 'm"
    and erase :: "'k \<Rightarrow> 'm \<Rightarrow> 'm"
    and sweep :: "('v \<Rightarrow> bool) \<Rightarrow> 'm \<Rightarrow> 'm"
    and size_of :: "'m \<Rightarrow> nat"
    and ok :: "'m \<Rightarrow> bool"
  assumes find_put: "find (put k v m) k' = (if k' = k then Some v else find m k')"
    and find_erase: "ok m \<Longrightarrow> find (erase k m) k' = (if k' = k then None else find m k')"
    and find_sweep: "ok m \<Longrightarrow> find (sweep stale m) k =
          (case find m k of None \<Rightarrow> None | Some v \<Rightarrow> if stale v then None else Some v)"
    and size_put: "ok m \<Longrightarrow> size_of (put k v m) = (if find m k = None then Suc (size_of m) else size_of m)"
    and size_erase: "ok m \<Longrightarrow> size_of (erase k m) = (if find m k = None then size_of m else size_of m - 1)"
    and size_sweep: "ok m \<Longrightarrow> size_of (sweep stale m) \<le> size_of m"
    and ok_put: "ok m \<Longrightarrow> ok (put k v m)"
    and ok_erase: "ok m \<Longrightarrow> ok (erase k m)"
    and ok_sweep: "ok m \<Longrightarrow> ok (sweep stale m)"
begin

lemma size_put_le: "ok m \<Longrightarrow> size_of (put k v m) \<le> Suc (size_of m)"
  by (simp add: size_put)

lemma size_erase_le: "ok m \<Longrightarrow> size_of (erase k m) \<le> size_of m"
  by (simp add: size_erase)

lemma find_sweep_Some: "ok m \<Longrightarrow> find (sweep stale m) k = Some v \<longleftrightarrow> find m k = Some v \<and> \<not> stale v"
  by (auto simp: find_sweep split: option.splits if_splits)

text \<open>A property of every entry survives each operation that keeps it.\<close>

lemma all_put: "(\<And>k v. find m k = Some v \<Longrightarrow> P k v) \<Longrightarrow> P k0 v0 \<Longrightarrow> find (put k0 v0 m) k = Some v \<Longrightarrow> P k v"
  by (auto simp: find_put split: if_splits)

lemma all_erase: "ok m \<Longrightarrow> (\<And>k v. find m k = Some v \<Longrightarrow> P k v) \<Longrightarrow> find (erase k0 m) k = Some v \<Longrightarrow> P k v"
  by (auto simp: find_erase split: if_splits)

lemma all_sweep: "ok m \<Longrightarrow> (\<And>k v. find m k = Some v \<Longrightarrow> P k v) \<Longrightarrow> find (sweep stale m) k = Some v \<Longrightarrow> P k v"
  by (auto simp: find_sweep_Some)

end

lemma map_of_filter_snd:
  "distinct (map fst m) \<Longrightarrow> map_of (filter (\<lambda>(k, v). \<not> stale v) m) k =
     (case map_of m k of None \<Rightarrow> None | Some v \<Rightarrow> if stale v then None else Some v)"
  by (induction m) (auto split: option.splits dest: map_of_SomeD simp: map_of_eq_None_iff image_iff)

lemma length_alist_update:
  "distinct (map fst m) \<Longrightarrow> length (AList.update k v m) = (if map_of m k = None then Suc (length m) else length m)"
  by (induction m) auto

lemma length_alist_delete:
  "distinct (map fst m) \<Longrightarrow> length (AList.delete k m) = (if map_of m k = None then length m else length m - 1)"
proof (induction m)
  case (Cons p m)
  have none: "map_of m k = None \<Longrightarrow> filter (\<lambda>(k', _). k \<noteq> k') m = m"
    by (auto simp: filter_id_conv map_of_eq_None_iff image_iff)
  have some: "map_of m k = Some v \<Longrightarrow> 0 < length m" for v
    by (cases m) auto
  obtain a b where p: "p = (a, b)" by (cases p)
  show ?case
  proof (cases "a = k")
    case True
    with Cons.prems p have "map_of m k = None" by (simp add: map_of_eq_None_iff)
    with True p none show ?thesis by (simp add: AList.delete_eq)
  next
    case False
    with Cons p some show ?thesis by (auto simp: AList.delete_eq split: if_splits)
  qed
qed (simp add: AList.delete_eq)

interpretation tbl: table_store tbl_find tbl_put tbl_erase tbl_sweep tbl_size tbl_ok
proof unfold_locales
  fix m :: "('k, 'v) table" and k k' :: 'k and v :: 'v and stale :: "'v \<Rightarrow> bool"
  show "tbl_find (tbl_put k v m) k' = (if k' = k then Some v else tbl_find m k')"
    by (simp add: tbl_find_def tbl_put_def AList.update_conv)
  assume ok: "tbl_ok m"
  then have d: "distinct (map fst m)" by (simp add: tbl_ok_def)
  show "tbl_find (tbl_erase k m) k' = (if k' = k then None else tbl_find m k')"
    by (simp add: tbl_find_def tbl_erase_def AList.delete_conv)
  show "tbl_find (tbl_sweep stale m) k =
      (case tbl_find m k of None \<Rightarrow> None | Some v \<Rightarrow> if stale v then None else Some v)"
    using d by (simp add: tbl_find_def tbl_sweep_def map_of_filter_snd)
  show "tbl_size (tbl_put k v m) = (if tbl_find m k = None then Suc (tbl_size m) else tbl_size m)"
    unfolding tbl_size_def tbl_put_def tbl_find_def using d by (rule length_alist_update)
  show "tbl_size (tbl_erase k m) = (if tbl_find m k = None then tbl_size m else tbl_size m - 1)"
    unfolding tbl_size_def tbl_erase_def tbl_find_def using d by (rule length_alist_delete)
  show "tbl_size (tbl_sweep stale m) \<le> tbl_size m"
    by (simp add: tbl_size_def tbl_sweep_def)
  show "tbl_ok (tbl_put k v m)" using d by (simp add: tbl_ok_def tbl_put_def AList.distinct_update)
  show "tbl_ok (tbl_erase k m)" using d by (simp add: tbl_ok_def tbl_erase_def AList.distinct_delete)
  show "tbl_ok (tbl_sweep stale m)" using d by (simp add: tbl_ok_def tbl_sweep_def distinct_map_filter)
qed

lemma tbl_empty [simp]: "tbl_find [] k = None" "tbl_size [] = 0" "tbl_ok []"
  by (simp_all add: tbl_find_def tbl_size_def tbl_ok_def)

end
