(* ===== verification/Vyn_Crc32.thy ===== *)
theory Vyn_Crc32
  imports Vyn_Prelude
begin

text \<open>
  The checksum of \<^verbatim>\<open>src/framing.cpp\<close>: the 256-entry table (\<open>build_crc32_table\<close>) and the
  table-driven \<open>vynkor_crc32\<close>. The reference is the bit-serial shift register of
  CRC-32/ISO-HDLC (\<open>crc_serial\<close>), which reads the message bit by bit, least significant bit
  first; the table-driven routine computes the same function. The register step is injective, so
  two messages of the same length that differ inside one byte never share a checksum.
\<close>

section \<open>The code\<close>

text \<open>One iteration of the inner loop of \<^verbatim>\<open>build_crc32_table\<close>.\<close>

definition crc_bit :: "u32 \<Rightarrow> u32" where
  "crc_bit c = (if c AND 1 \<noteq> 0 then 0xEDB88320 XOR drop_bit 1 c else drop_bit 1 c)"

definition build_crc32_table :: "u32 list" where
  "build_crc32_table = map (\<lambda>i. (crc_bit ^^ 8) (word_of_nat i)) [0..<256]"

definition crc_step :: "u32 \<Rightarrow> byte \<Rightarrow> u32" where
  "crc_step crc b = build_crc32_table ! unat ((crc XOR ucast b) AND 0xFF) XOR drop_bit 8 crc"

definition vynkor_crc32 :: "bytes \<Rightarrow> u32" where
  "vynkor_crc32 data = foldl crc_step 0xFFFFFFFF data XOR 0xFFFFFFFF"

section \<open>The reference: a bit-serial shift register\<close>

definition reg_shift :: "u32 \<Rightarrow> bool \<Rightarrow> u32" where
  "reg_shift r b = (let fb = (bit r 0 \<noteq> b) in
     (if fb then drop_bit 1 r XOR 0xEDB88320 else drop_bit 1 r))"

definition message_bits :: "bytes \<Rightarrow> bool list" where
  "message_bits data = concat (map (\<lambda>b. map (bit b) [0..<8]) data)"

definition crc_serial :: "bytes \<Rightarrow> u32" where
  "crc_serial data = NOT (foldl reg_shift (- 1) (message_bits data))"

section \<open>Linearity of the register step\<close>

lemma and_one_bit: "(c :: u32) AND 1 \<noteq> 0 \<longleftrightarrow> bit c 0"
  by (simp add: and_one_eq bit_0 mod_2_eq_odd)

lemma crc_bit_xor: "crc_bit (a XOR b) = crc_bit a XOR crc_bit b"
  unfolding crc_bit_def and_one_bit
  by (auto simp: bit_xor_iff drop_bit_xor intro!: bit_word_eqI)

lemma crc_bit_pow_xor: "(crc_bit ^^ n) (a XOR b) = (crc_bit ^^ n) a XOR (crc_bit ^^ n) b"
  by (induction n) (simp_all add: crc_bit_xor)

lemma crc_bit_even: "\<not> bit x 0 \<Longrightarrow> crc_bit x = drop_bit 1 x"
  by (simp only: crc_bit_def and_one_bit if_False)

lemma crc_bit_pow_high: "\<forall>i < n. \<not> bit x i \<Longrightarrow> (crc_bit ^^ n) x = drop_bit n x"
proof (induction n)
  case 0
  show ?case by simp
next
  case (Suc n)
  then have IH: "(crc_bit ^^ n) x = drop_bit n x" by simp
  from Suc.prems have "\<not> bit (drop_bit n x) 0" by (simp add: bit_drop_bit_eq)
  then show ?case by (simp add: IH crc_bit_even drop_bit_drop_bit ac_simps)
qed

lemma FF_mask: "(0xFF :: u32) = mask 8"
  by (simp add: mask_eq_exp_minus_1)

lemma split_low: "(x :: u32) = (x AND 0xFF) XOR (x AND NOT 0xFF)"
  unfolding FF_mask by (rule bit_word_eqI) (auto simp: bit_simps)

lemma table_nth: "unat i < 256 \<Longrightarrow> build_crc32_table ! unat i = (crc_bit ^^ 8) i"
  by (simp add: build_crc32_table_def)

lemma low_byte_bound: "unat ((x :: u32) AND 0xFF) < 256"
proof -
  have "x AND 0xFF \<le> 0xFF" by (rule word_and_le1)
  then show ?thesis by (simp add: word_le_nat_alt)
qed

text \<open>The table lookup does eight register steps at once.\<close>

lemma crc_step_shift: "crc_step crc b = (crc_bit ^^ 8) (crc XOR ucast b)"
proof -
  let ?x = "crc XOR ucast b"
  have "(crc_bit ^^ 8) ?x = (crc_bit ^^ 8) (?x AND 0xFF) XOR (crc_bit ^^ 8) (?x AND NOT 0xFF)"
    by (subst split_low [of ?x]) (rule crc_bit_pow_xor)
  also have "(crc_bit ^^ 8) (?x AND NOT 0xFF) = drop_bit 8 (?x AND NOT 0xFF)"
    unfolding FF_mask by (rule crc_bit_pow_high) (simp add: bit_simps)
  also have "drop_bit 8 (?x AND NOT 0xFF) = drop_bit 8 crc"
    unfolding FF_mask by (rule bit_word_eqI) (auto simp: bit_simps dest: bit_imp_le_length)
  finally show ?thesis by (simp add: crc_step_def table_nth low_byte_bound)
qed

section \<open>The table-driven routine computes the bit-serial checksum\<close>

lemma reg_shift_crc_bit: "reg_shift r b = crc_bit (r XOR of_bool b)"
  unfolding reg_shift_def crc_bit_def and_one_bit Let_def
  by (auto simp: bit_simps drop_bit_xor ac_simps)

lemma crc_bit_pow_push: "n < 32 \<Longrightarrow> (crc_bit ^^ n) (x XOR push_bit n (of_bool b)) = (crc_bit ^^ n) x XOR of_bool b"
proof -
  assume "n < 32"
  then have "(crc_bit ^^ n) (push_bit n (of_bool b)) = of_bool b"
    by (subst crc_bit_pow_high) (auto simp: bit_simps intro!: bit_word_eqI)
  then show ?thesis by (simp add: crc_bit_pow_xor)
qed

lemma feed_bits:
  "n \<le> 8 \<Longrightarrow> foldl reg_shift r (map (bit (b :: byte)) [0..<n]) = (crc_bit ^^ n) (r XOR take_bit n (ucast b))"
proof (induction n)
  case 0
  show ?case by simp
next
  case (Suc n)
  have "take_bit (Suc n) (ucast b :: u32) = take_bit n (ucast b) XOR push_bit n (of_bool (bit b n))"
    by (rule bit_word_eqI) (use Suc.prems in \<open>auto simp: bit_simps less_Suc_eq\<close>)
  then have "(crc_bit ^^ Suc n) (r XOR take_bit (Suc n) (ucast b)) =
      crc_bit ((crc_bit ^^ n) (r XOR take_bit n (ucast b)) XOR of_bool (bit b n))"
    using Suc.prems crc_bit_pow_push [of n "r XOR take_bit n (ucast b)"] by (simp add: xor.assoc)
  with Suc show ?case by (simp add: reg_shift_crc_bit)
qed

lemma feed_byte: "foldl reg_shift r (map (bit b) [0..<8]) = crc_step r b"
proof -
  have "take_bit 8 (ucast b :: u32) = ucast b"
    by (rule bit_word_eqI) (auto simp: bit_simps dest: bit_imp_le_length)
  then show ?thesis using feed_bits [of 8 r b] by (simp add: crc_step_shift)
qed

lemma feed_message: "foldl reg_shift r (message_bits data) = foldl crc_step r data"
  by (induction data arbitrary: r) (simp_all add: message_bits_def feed_byte del: upt_rec_numeral)

section \<open>Injectivity\<close>

lemma crc_bit_top: "bit (crc_bit c) 31 = bit c 0"
proof -
  have "bit (0xEDB88320 :: u32) 31" by simp
  moreover have "\<not> bit (drop_bit 1 c) 31" by (auto simp: bit_simps dest: bit_imp_le_length)
  ultimately show ?thesis unfolding crc_bit_def and_one_bit by (auto simp: bit_xor_iff)
qed

lemma crc_bit_inj: "crc_bit a = crc_bit b \<Longrightarrow> a = b"
proof -
  assume eq: "crc_bit a = crc_bit b"
  then have low: "bit a 0 = bit b 0" by (metis crc_bit_top)
  with eq have "drop_bit 1 a = drop_bit 1 b"
    unfolding crc_bit_def and_one_bit by (auto simp: xor.left_commute dest: arg_cong [where f = "(XOR) 0xEDB88320"])
  then have "bit a (Suc i) = bit b (Suc i)" for i
    by (metis bit_drop_bit_eq comp_apply plus_1_eq_Suc)
  with low show "a = b" by (metis bit_word_eqI not0_implies_Suc)
qed

lemma crc_bit_pow_inj: "(crc_bit ^^ n) a = (crc_bit ^^ n) b \<Longrightarrow> a = b"
  by (induction n) (auto dest: crc_bit_inj)

lemma crc_step_eq: "crc_step c a = crc_step d b \<longleftrightarrow> c XOR ucast a = d XOR ucast b"
  by (auto simp: crc_step_shift dest: crc_bit_pow_inj)

lemma xor_right_cancel: "(a :: 'a :: len word) XOR c = b XOR c \<longleftrightarrow> a = b"
  by (metis xor.assoc xor.right_neutral xor_self_eq)

lemma xor_left_cancel: "c XOR (a :: 'a :: len word) = c XOR b \<longleftrightarrow> a = b"
  by (metis xor.commute xor_right_cancel)

lemma crc_fold_inj: "foldl crc_step c data = foldl crc_step d data \<longleftrightarrow> c = d"
  by (induction data arbitrary: c d) (auto simp: crc_step_eq xor_right_cancel)

lemma ucast_byte_inj: "(ucast (a :: byte) :: u32) = ucast b \<longleftrightarrow> a = b"
proof
  assume eq: "(ucast a :: u32) = ucast b"
  show "a = b"
  proof (rule bit_word_eqI)
    fix n assume "n < LENGTH(8)"
    with arg_cong [OF eq, of "\<lambda>w. bit w n"] show "bit a n = bit b n" by (simp add: bit_simps)
  qed
qed simp

subsection \<open>Bursts of up to four bytes\<close>

text \<open>Four bytes fill the register: absorbing a window is one xor of its little-endian value.\<close>

primrec le_word :: "bytes \<Rightarrow> u32" where
  "le_word [] = 0"
| "le_word (b # bs) = ucast b XOR push_bit 8 (le_word bs)"

lemma le_word_high: "8 * length bs \<le> i \<Longrightarrow> \<not> bit (le_word bs) i"
proof (induction bs arbitrary: i)
  case Nil
  show ?case by simp
next
  case (Cons b bs)
  then have "\<not> bit (le_word bs) (i - 8)" by simp
  moreover from Cons.prems have "\<not> bit b i" by (auto dest: bit_imp_le_length)
  ultimately show ?case by (simp add: bit_simps)
qed

lemma crc_fold_window: "length bs \<le> 4 \<Longrightarrow> foldl crc_step c bs = (crc_bit ^^ (8 * length bs)) (c XOR le_word bs)"
proof (induction bs arbitrary: c)
  case Nil
  show ?case by simp
next
  case (Cons b bs)
  then have len: "length bs \<le> 3" by simp
  have "drop_bit 8 (push_bit 8 (le_word bs)) = le_word bs"
  proof (rule bit_word_eqI)
    fix n
    show "bit (drop_bit 8 (push_bit 8 (le_word bs))) n = bit (le_word bs) n"
      using len le_word_high [of bs n] by (cases "n < 24") (auto simp: bit_simps)
  qed
  then have "(crc_bit ^^ 8) (push_bit 8 (le_word bs)) = le_word bs"
    by (subst crc_bit_pow_high) (auto simp: bit_simps)
  then have "(crc_bit ^^ 8) (c XOR le_word (b # bs)) = crc_step c b XOR le_word bs"
    by (simp add: crc_step_shift crc_bit_pow_xor xor.assoc)
  moreover have "8 * length (b # bs) = 8 * length bs + 8" by simp
  ultimately have "(crc_bit ^^ (8 * length (b # bs))) (c XOR le_word (b # bs)) =
      (crc_bit ^^ (8 * length bs)) (crc_step c b XOR le_word bs)"
    by (simp only: funpow_add comp_apply)
  with Cons show ?case by simp
qed

lemma le_word_inj: "length u = length v \<Longrightarrow> length u \<le> 4 \<Longrightarrow> le_word u = le_word v \<Longrightarrow> u = v"
proof (induction u v rule: list_induct2)
  case Nil
  show ?case by simp
next
  case (Cons a u b v)
  have bits: "bit (le_word (a # u)) i = bit (le_word (b # v)) i" for i
    using Cons.prems by simp
  have "a = b"
  proof (rule bit_word_eqI)
    fix n assume "n < LENGTH(8)"
    with bits [of n] show "bit a n = bit b n" by (simp add: bit_simps)
  qed
  moreover have "le_word u = le_word v"
  proof (rule bit_word_eqI)
    fix n assume n: "n < LENGTH(32)"
    show "bit (le_word u) n = bit (le_word v) n"
    proof (cases "n < 24")
      case True
      with \<open>a = b\<close> bits [of "n + 8"] show ?thesis by (auto simp: bit_simps)
    next
      case False
      with Cons.hyps Cons.prems(1) show ?thesis by (simp add: le_word_high)
    qed
  qed
  moreover have "length u \<le> 4" using Cons.prems(1) by simp
  ultimately show ?case using Cons.IH by simp
qed

lemma length_crc_table [simp]: "length build_crc32_table = 256"
  by (simp add: build_crc32_table_def)

lemma crc32_burst:
  assumes "length u = length v" and "length u \<le> 4" and "u \<noteq> v"
  shows "vynkor_crc32 (xs @ u @ ys) \<noteq> vynkor_crc32 (xs @ v @ ys)"
proof
  assume "vynkor_crc32 (xs @ u @ ys) = vynkor_crc32 (xs @ v @ ys)"
  then have "foldl crc_step (foldl crc_step 0xFFFFFFFF xs) u = foldl crc_step (foldl crc_step 0xFFFFFFFF xs) v"
    by (simp add: vynkor_crc32_def xor_right_cancel crc_fold_inj)
  with assms have "le_word u = le_word v"
    by (auto simp: crc_fold_window xor_left_cancel dest: crc_bit_pow_inj)
  with assms show False using le_word_inj by blast
qed

section \<open>Properties\<close>

text \<open>C4: the table-driven checksum of the code is the bit-serial CRC-32/ISO-HDLC of the message.\<close>

theorem vynkor_crc32_serial: "vynkor_crc32 data = crc_serial data"
proof -
  have "(0xFFFFFFFF :: u32) = - 1" by simp
  moreover have "x XOR - 1 = NOT x" for x :: u32
    by (rule bit_word_eqI) (simp add: bit_simps)
  ultimately show ?thesis by (simp only: vynkor_crc32_def crc_serial_def feed_message)
qed

text \<open>
  A corruption confined to a window of four consecutive bytes (32 bits) of the payload always
  changes the checksum, wherever the window lies.
\<close>

lemma vynkor_crc32_detects_burst:
  assumes "length u = length v" and "length u \<le> 4" and "u \<noteq> v"
  shows "vynkor_crc32 (xs @ u @ ys) \<noteq> vynkor_crc32 (xs @ v @ ys)"
  using assms by (rule crc32_burst)

end
