(* ===== verification/Vyn_Mac.thy ===== *)
theory Vyn_Mac
  imports Vyn_Prelude
begin

text \<open>
  Key derivation and frame tags (\<^verbatim>\<open>src/mac.cpp\<close>). OpenSSL and zstd are not part of the
  repository: their entry points are the fields of the record \<open>extlib\<close>, an argument of every
  definition that calls them, and what the code relies on is stated by the predicates
  \<open>hmac_ok\<close> and \<open>zstd_ok\<close> over it. \<^verbatim>\<open>std::array<uint8_t,32>\<close> is a byte list; that its
  length is 32 is a lemma wherever it matters.
\<close>

section \<open>External libraries\<close>

datatype content_size = ContentSizeError | ContentSizeUnknown | ContentSize nat

text \<open>
  A zstd call gives \<^verbatim>\<open>ZSTD_isError\<close> of its return code, the bytes written to the output
  buffer and \<^verbatim>\<open>ZSTD_getErrorName\<close> of the code. \<open>HMAC_chunks\<close> is
  \<^verbatim>\<open>HMAC_Init_ex\<close>, one \<^verbatim>\<open>HMAC_Update\<close> per chunk, \<^verbatim>\<open>HMAC_Final\<close>.
\<close>

record extlib =
  HMAC :: "bytes \<Rightarrow> bytes \<Rightarrow> bytes option"
  HMAC_CTX_new :: bool
  HMAC_chunks :: "bytes \<Rightarrow> bytes list \<Rightarrow> bytes option"
  ZSTD_getFrameContentSize :: "bytes \<Rightarrow> content_size"
  ZSTD_decompress :: "nat \<Rightarrow> bytes \<Rightarrow> bool \<times> bytes \<times> string"
  ZSTD_compress :: "nat \<Rightarrow> bytes \<Rightarrow> bool \<times> bytes \<times> string"

definition MAC_TAG_LEN :: nat where [wire_defs]: "MAC_TAG_LEN = 32"

text \<open>HMAC-SHA256 gives 32 bytes, and the incremental interface hashes the concatenation.\<close>

definition hmac_ok :: "'a extlib_scheme \<Rightarrow> bool" where
  "hmac_ok L \<longleftrightarrow> (\<forall>k m t. HMAC L k m = Some t \<longrightarrow> length t = 32) \<and>
     (\<forall>k ms. HMAC_chunks L k ms = HMAC L k (concat ms))"

section \<open>The code\<close>

definition hmac_sha256 :: "'a extlib_scheme \<Rightarrow> bytes \<Rightarrow> bytes \<Rightarrow> bytes result" where
  "hmac_sha256 L key data = (case HMAC L key data of
      None \<Rightarrow> Inl (VynkorInternal ''mac: HMAC failed'')
    | Some out \<Rightarrow> Inr out)"

definition hkdf_extract :: "'a extlib_scheme \<Rightarrow> bytes \<Rightarrow> bytes \<Rightarrow> bytes result" where
  "hkdf_extract L salt ikm = hmac_sha256 L salt ikm"

definition hkdf_expand :: "'a extlib_scheme \<Rightarrow> bytes \<Rightarrow> bytes \<Rightarrow> nat \<Rightarrow> bytes result" where
  "hkdf_expand L prk info len =
     (if len > 32 then Inl (VynkorInternal ''mac: hkdf_expand length > 32 unsupported'')
      else bind_result (hmac_sha256 L prk (info @ [1]))
             (\<lambda>t1. Inr (take len t1 @ replicate (32 - len) 0)))"

definition derive_session_key :: "'a extlib_scheme \<Rightarrow> bytes \<Rightarrow> bytes \<Rightarrow> string \<Rightarrow> bytes result" where
  "derive_session_key L secret nonce plugin_id =
     bind_result (hkdf_extract L nonce secret)
       (\<lambda>prk. hkdf_expand L prk (bytes_of ''vynkor-frame-mac-v1|'' @ bytes_of plugin_id) 32)"

definition compute_tag :: "'a extlib_scheme \<Rightarrow> bytes \<Rightarrow> bytes \<Rightarrow> bytes \<Rightarrow> bytes result" where
  "compute_tag L key header payload =
     (if \<not> HMAC_CTX_new L then Inl (VynkorInternal ''mac: HMAC_CTX_new failed'')
      else case HMAC_chunks L key [header, payload] of
        None \<Rightarrow> Inl (VynkorInternal ''mac: HMAC computation failed'')
      | Some out \<Rightarrow> Inr out)"

definition verify_tag :: "'a extlib_scheme \<Rightarrow> bytes \<Rightarrow> bytes \<Rightarrow> bytes \<Rightarrow> bytes \<Rightarrow> bool result" where
  "verify_tag L key header payload tag =
     (if length tag \<noteq> 32 then Inr False
      else bind_result (compute_tag L key header payload) (\<lambda>expected. Inr (expected = tag)))"

section \<open>The reference: HKDF of RFC 5869\<close>

text \<open>\<open>T(0)\<close> is empty and \<open>T(i) = HMAC(PRK, T(i-1) || info || i)\<close>; the output is a prefix of \<open>T(1) || T(2) || \<dots>\<close>.\<close>

fun hkdf_T :: "(bytes \<Rightarrow> bytes \<Rightarrow> bytes) \<Rightarrow> bytes \<Rightarrow> bytes \<Rightarrow> nat \<Rightarrow> bytes" where
  "hkdf_T h prk info 0 = []"
| "hkdf_T h prk info (Suc i) = h prk (hkdf_T h prk info i @ info @ [word_of_nat (Suc i)])"

definition hkdf_rfc5869 :: "(bytes \<Rightarrow> bytes \<Rightarrow> bytes) \<Rightarrow> bytes \<Rightarrow> bytes \<Rightarrow> bytes \<Rightarrow> nat \<Rightarrow> bytes" where
  "hkdf_rfc5869 h salt ikm info len =
     take len (concat (map (hkdf_T h (h salt ikm) info) [1..<Suc ((len + 31) div 32)]))"

section \<open>A concrete library, for examples\<close>

text \<open>
  An instance of \<open>extlib\<close> that meets the documented behaviour, used where a theorem is applied
  to a concrete input: a 32-byte checksum in place of HMAC-SHA256 and a run-length code in place of zstd.
\<close>

definition demo_hmac :: "bytes \<Rightarrow> bytes \<Rightarrow> bytes" where
  "demo_hmac k m = sum_list m # sum_list k # replicate 30 (word_of_nat (length m))"

definition demo_size :: "bytes \<Rightarrow> content_size" where
  "demo_size z = (case z of [] \<Rightarrow> ContentSizeError
     | t # d \<Rightarrow> if t = 0 then ContentSize (length d) else ContentSize (be_val (take 8 d)))"

definition demo_decompress :: "nat \<Rightarrow> bytes \<Rightarrow> bool \<times> bytes \<times> string" where
  "demo_decompress cap z = (case z of [] \<Rightarrow> (True, [], ''empty'')
     | t # d \<Rightarrow> if t = 0 then (False, d, [])
               else (False, replicate (be_val (take 8 d)) (d ! 8), []))"

definition demo_compress :: "nat \<Rightarrow> bytes \<Rightarrow> bool \<times> bytes \<times> string" where
  "demo_compress level d =
     (if d \<noteq> [] \<and> d = replicate (length d) (hd d) \<and> length d < 256 ^ 8
      then (False, 1 # be_bytes 8 (length d) @ [hd d], []) else (False, 0 # d, []))"

definition demo_lib :: extlib where
  "demo_lib = \<lparr>HMAC = (\<lambda>k m. Some (demo_hmac k m)), HMAC_CTX_new = True,
     HMAC_chunks = (\<lambda>k ms. Some (demo_hmac k (concat ms))),
     ZSTD_getFrameContentSize = demo_size, ZSTD_decompress = demo_decompress,
     ZSTD_compress = demo_compress\<rparr>"

section \<open>Lemmas\<close>

lemma compute_tag_Inr:
  "compute_tag L key header payload = Inr t \<longleftrightarrow>
     HMAC_CTX_new L \<and> HMAC_chunks L key [header, payload] = Some t"
  by (auto simp: compute_tag_def split: option.splits)

lemma compute_tag_length: "hmac_ok L \<Longrightarrow> compute_tag L key header payload = Inr t \<Longrightarrow> length t = 32"
  by (auto simp: compute_tag_Inr hmac_ok_def)

lemma verify_tag_Inr_True:
  "verify_tag L key header payload tag = Inr True \<longleftrightarrow>
     length tag = 32 \<and> compute_tag L key header payload = Inr tag"
  by (auto simp: verify_tag_def bind_result_Inr)

lemma verify_own_tag:
  "hmac_ok L \<Longrightarrow> compute_tag L key header payload = Inr t \<Longrightarrow> verify_tag L key header payload t = Inr True"
  by (simp add: verify_tag_Inr_True compute_tag_length)

lemma length_demo_hmac [simp]: "length (demo_hmac k m) = 32"
  by (simp add: demo_hmac_def)

lemma demo_hmac_ok [simp]: "hmac_ok demo_lib"
  by (simp add: hmac_ok_def demo_lib_def)

section \<open>Properties\<close>

text \<open>
  C5: the session key is HKDF-SHA256 of RFC 5869 with the nonce as salt, the shared secret as key
  material, the info string \<^verbatim>\<open>vynkor-frame-mac-v1|<plugin_id>\<close> and 32 bytes of output,
  for any HMAC that does not fail.
\<close>

theorem derive_session_key_hkdf:
  assumes "\<And>k m. HMAC L k m = Some (h k m)" and "\<And>k m. length (h k m) = 32"
  shows "derive_session_key L secret nonce plugin_id =
    Inr (hkdf_rfc5869 h nonce secret (bytes_of (''vynkor-frame-mac-v1|'' @ plugin_id)) 32)"
  unfolding bytes_of_append
  using assms by (simp add: derive_session_key_def hkdf_extract_def hkdf_expand_def hmac_sha256_def
      hkdf_rfc5869_def)

text \<open>Witness: a concrete HMAC, secret, nonce and plugin id.\<close>

theorem derive_session_key_hkdf_witness:
  "(\<forall>k m. HMAC demo_lib k m = Some (demo_hmac k m)) \<and> (\<forall>k m. length (demo_hmac k m) = 32) \<and>
   derive_session_key demo_lib [1, 2] [3] ''echo'' =
     Inr (hkdf_rfc5869 demo_hmac [3] [1, 2] (bytes_of (''vynkor-frame-mac-v1|'' @ ''echo'')) 32)"
  using derive_session_key_hkdf [of demo_lib demo_hmac "[1, 2]" "[3]" "''echo''"] by (simp add: demo_lib_def)

end
