(* ===== verification/Vyn_Frames.thy ===== *)
theory Vyn_Frames
  imports Vyn_Crc32 Vyn_Mac
begin

text \<open>
  The wire frame codec (\<^verbatim>\<open>src/framing.cpp\<close>, \<^verbatim>\<open>include/vynkor/framing.hpp\<close>): fragment
  headers, the 44-byte frame header, the four frame writers (\<open>pack_frame\<close>, \<open>pack_frame_mac\<close>,
  \<open>pack_frame_ws\<close>, \<open>pack_frame_raw\<close>), the bounded zstd wrappers and the one parser
  \<open>parse_frame_bytes\<close> behind both transports.
\<close>

section \<open>Constants\<close>

definition FRAME_MAGIC :: u16 where [wire_defs]: "FRAME_MAGIC = 0x5652"
definition FRAME_HEADER_SIZE :: nat where [wire_defs]: "FRAME_HEADER_SIZE = 44"
definition MAX_PAYLOAD_SIZE :: nat where [wire_defs]: "MAX_PAYLOAD_SIZE = 1048576"
definition FLAG_MAC_PRESENT :: u16 where [wire_defs]: "FLAG_MAC_PRESENT = 0x0001"
definition FLAG_COMPRESSED :: u16 where [wire_defs]: "FLAG_COMPRESSED = 0x0002"
definition FLAG_FRAGMENTED :: u16 where [wire_defs]: "FLAG_FRAGMENTED = 0x0004"
definition FLAG_RAW_BINARY :: u16 where [wire_defs]: "FLAG_RAW_BINARY = 0x0010"
definition COMPRESS_THRESHOLD :: nat where [wire_defs]: "COMPRESS_THRESHOLD = 65536"
definition FRAG_HEADER_SIZE :: nat where [wire_defs]: "FRAG_HEADER_SIZE = 10"

text \<open>\<^verbatim>\<open>flags & FLAG\<close> as a condition.\<close>

definition has_flag :: "u16 \<Rightarrow> u16 \<Rightarrow> bool" where
  "has_flag flags f \<longleftrightarrow> flags AND f \<noteq> 0"

text \<open>\<^verbatim>\<open>memcpy(buf + off, src, n)\<close> into a fixed-size buffer.\<close>

definition poke :: "nat \<Rightarrow> bytes \<Rightarrow> bytes \<Rightarrow> bytes" where
  "poke off src buf = take off buf @ src @ drop (off + length src) buf"

section \<open>Fragment headers\<close>

record FragmentHeader =
  fh_fragment_id :: u16
  fh_sequence :: u16
  fh_total :: u16
  fh_stream_id :: u32

definition pack_frag_header :: "u16 \<Rightarrow> u16 \<Rightarrow> u16 \<Rightarrow> u32 \<Rightarrow> bytes" where
  "pack_frag_header fragment_id seq tot stream_id =
     (let out = replicate FRAG_HEADER_SIZE 0;
          out = poke 0 (be16 fragment_id) out;
          out = poke 2 (be16 seq) out;
          out = poke 4 (be16 tot) out
      in poke 6 (be32 stream_id) out)"

definition parse_frag_header :: "bytes \<Rightarrow> FragmentHeader option" where
  "parse_frag_header payload =
     (if length payload < FRAG_HEADER_SIZE then None
      else Some \<lparr>fh_fragment_id = un16 (field payload 0 2), fh_sequence = un16 (field payload 2 2),
                 fh_total = un16 (field payload 4 2), fh_stream_id = un32 (field payload 6 4)\<rparr>)"

section \<open>Headers\<close>

definition target_to_bytes :: "string \<Rightarrow> bytes" where
  "target_to_bytes target = poke 0 (take (min (length target) 32) (bytes_of target)) (replicate 32 0)"

definition build_header :: "u16 \<Rightarrow> bytes \<Rightarrow> bytes \<Rightarrow> bytes" where
  "build_header flags target32 payload =
     (let out = replicate FRAME_HEADER_SIZE 0;
          out = poke 0 (be16 FRAME_MAGIC) out;
          out = poke 2 (be16 flags) out;
          out = poke 4 (be32 (word_of_nat (length payload))) out;
          out = poke 8 target32 out
      in poke 40 (be32 (vynkor_crc32 payload)) out)"

text \<open>The header block that \<^verbatim>\<open>pack_frame\<close> and \<^verbatim>\<open>pack_frame_mac\<close> write in line.\<close>

definition inline_header :: "string \<Rightarrow> u16 \<Rightarrow> bytes \<Rightarrow> bytes" where
  "inline_header target flags payload =
     (let crc = vynkor_crc32 payload;
          header = replicate FRAME_HEADER_SIZE 0;
          header = poke 0 (be16 FRAME_MAGIC) header;
          header = poke 2 (be16 flags) header;
          header = poke 4 (be32 (word_of_nat (length payload))) header;
          header = poke 8 (take (min (length target) 32) (bytes_of target)) header
      in poke 40 (be32 crc) header)"

definition serialize_header_ws :: "string \<Rightarrow> u16 \<Rightarrow> bytes \<Rightarrow> bytes" where
  "serialize_header_ws target flags payload = build_header flags (target_to_bytes target) payload"

section \<open>Writers\<close>

definition pack_frame :: "string \<Rightarrow> bytes \<Rightarrow> u16 \<Rightarrow> bytes result" where
  "pack_frame target payload extra_flags =
     (if length payload > MAX_PAYLOAD_SIZE then Inl (VynkorPayloadTooLarge (length payload))
      else Inr (inline_header target extra_flags payload @ payload))"

definition pack_frame_str :: "string \<Rightarrow> string \<Rightarrow> u16 \<Rightarrow> bytes result" where
  "pack_frame_str target payload extra_flags = pack_frame target (bytes_of payload) extra_flags"

definition pack_frame_mac :: "'a extlib_scheme \<Rightarrow> string \<Rightarrow> bytes \<Rightarrow> bytes \<Rightarrow> u16 \<Rightarrow> bytes result" where
  "pack_frame_mac L target payload session_key extra_flags =
     (if length payload > MAX_PAYLOAD_SIZE then Inl (VynkorPayloadTooLarge (length payload))
      else let header = inline_header target (FLAG_MAC_PRESENT OR extra_flags) payload in
        bind_result (compute_tag L session_key header payload)
          (\<lambda>tag. Inr (header @ payload @ tag)))"

definition pack_frame_ws :: "'a extlib_scheme \<Rightarrow> string \<Rightarrow> u16 \<Rightarrow> bytes \<Rightarrow> bytes option \<Rightarrow> bytes result" where
  "pack_frame_ws L target flags payload session_key =
     (if length payload > MAX_PAYLOAD_SIZE then Inl (VynkorPayloadTooLarge (length payload))
      else let header = serialize_header_ws target flags payload in
        case session_key of
          None \<Rightarrow> Inr (header @ payload)
        | Some key \<Rightarrow> bind_result (compute_tag L key header payload)
            (\<lambda>tag. Inr (header @ payload @ tag)))"

definition zstd_compress_level3 :: "'a extlib_scheme \<Rightarrow> bytes \<Rightarrow> bytes result" where
  "zstd_compress_level3 L data = (case ZSTD_compress L 3 data of (err, out, name) \<Rightarrow>
     if err then Inl (VynkorInternal (''zstd compress failed: '' @ name)) else Inr out)"

definition zstd_decompress_bounded :: "'a extlib_scheme \<Rightarrow> bytes \<Rightarrow> bytes result" where
  "zstd_decompress_bounded L data = (case ZSTD_getFrameContentSize L data of
      ContentSizeError \<Rightarrow> Inl (VynkorInternal ''decompress frame: invalid zstd frame'')
    | ContentSizeUnknown \<Rightarrow> Inl (VynkorInternal ''decompress frame: content size unknown or too large'')
    | ContentSize n \<Rightarrow>
        if n > MAX_PAYLOAD_SIZE then Inl (VynkorInternal ''decompress frame: content size unknown or too large'')
        else case ZSTD_decompress L n data of (err, out, name) \<Rightarrow>
          if err \<or> length out \<noteq> n then Inl (VynkorInternal (''decompress frame: '' @ name)) else Inr out)"

text \<open>The bytes and flags that go on the wire: compressed when that pays.\<close>

definition wire_form :: "'a extlib_scheme \<Rightarrow> u16 \<Rightarrow> bytes \<Rightarrow> (u16 \<times> bytes) result" where
  "wire_form L flags payload =
     (if length payload \<ge> COMPRESS_THRESHOLD \<and> \<not> has_flag flags FLAG_COMPRESSED \<and>
         \<not> has_flag flags FLAG_RAW_BINARY
      then bind_result (zstd_compress_level3 L payload)
             (\<lambda>compressed. if length compressed < length payload
                then Inr (flags OR FLAG_COMPRESSED, compressed) else Inr (flags, payload))
      else Inr (flags, payload))"

definition pack_frame_raw :: "'a extlib_scheme \<Rightarrow> string \<Rightarrow> u16 \<Rightarrow> bytes \<Rightarrow> bytes option \<Rightarrow> bytes result" where
  "pack_frame_raw L target flags payload session_key =
     (if length payload > MAX_PAYLOAD_SIZE then Inl (VynkorPayloadTooLarge (length payload))
      else let target_bytes = target_to_bytes target;
               plain_header = build_header flags target_bytes payload in
        bind_result (case session_key of None \<Rightarrow> Inr []
                       | Some key \<Rightarrow> compute_tag L key plain_header payload)
          (\<lambda>tag. bind_result (wire_form L flags payload)
            (\<lambda>(wire_flags, wire_payload).
               Inr (build_header wire_flags target_bytes wire_payload @ wire_payload @ tag))))"

section \<open>The parser\<close>

record FrameResult =
  fr_payload :: bytes
  fr_flags :: u16
  fr_has_mac :: bool
  fr_mac :: bytes
  fr_raw_header :: bytes

text \<open>
  The tail of \<^verbatim>\<open>parse_frame_bytes\<close>: decompression and header normalisation, then the
  MAC check. \<open>consumed\<close> is the second component of the result.
\<close>

definition normalise_frame :: "'a extlib_scheme \<Rightarrow> bytes \<Rightarrow> u16 \<Rightarrow> bytes \<Rightarrow> (u16 \<times> bytes \<times> bytes) result" where
  "normalise_frame L buf flags payload =
     (if has_flag flags FLAG_COMPRESSED
      then bind_result (zstd_decompress_bounded L payload)
             (\<lambda>plain. let flags' = flags AND NOT FLAG_COMPRESSED in
                Inr (flags', plain, build_header flags' (field buf 8 32) plain))
      else Inr (flags, payload, field buf 0 FRAME_HEADER_SIZE))"

definition parse_frame_bytes :: "'a extlib_scheme \<Rightarrow> bytes \<Rightarrow> bytes option \<Rightarrow> (FrameResult \<times> nat) result" where
  "parse_frame_bytes L buf session_key =
     (if length buf < FRAME_HEADER_SIZE then Inl (VynkorIoError ''frame shorter than header'')
      else if un16 (field buf 0 2) \<noteq> FRAME_MAGIC then Inl VynkorFrameMagicMismatch
      else let flags = un16 (field buf 2 2); len = unat (un32 (field buf 4 4)) in
        if len > MAX_PAYLOAD_SIZE then Inl (VynkorPayloadTooLarge len)
        else let has_mac = has_flag flags FLAG_MAC_PRESENT;
                 tot = FRAME_HEADER_SIZE + len + (if has_mac then MAC_TAG_LEN else 0) in
          if length buf < tot then Inl (VynkorIoError ''frame truncated'')
          else let expected_crc = un32 (field buf 40 4);
                   payload = field buf FRAME_HEADER_SIZE len in
            if vynkor_crc32 payload \<noteq> expected_crc then Inl VynkorFrameCrcMismatch
            else bind_result (normalise_frame L buf flags payload)
              (\<lambda>(flags', plain, effective_header).
                 if has_mac then
                   let mac = field buf (FRAME_HEADER_SIZE + len) MAC_TAG_LEN;
                       result = \<lparr>fr_payload = plain, fr_flags = flags', fr_has_mac = True,
                                 fr_mac = mac, fr_raw_header = effective_header\<rparr> in
                   (case session_key of
                      None \<Rightarrow> Inr (result, tot)
                    | Some key \<Rightarrow> bind_result (verify_tag L key effective_header plain mac)
                        (\<lambda>ok. if ok then Inr (result, tot)
                              else Inl (VynkorInternal ''frame MAC verification failed'')))
                 else case session_key of
                      Some key \<Rightarrow> Inl (VynkorInternal ''frame MAC verification failed'')
                    | None \<Rightarrow> Inr (\<lparr>fr_payload = plain, fr_flags = flags', fr_has_mac = False,
                                 fr_mac = replicate MAC_TAG_LEN 0, fr_raw_header = effective_header\<rparr>, tot)))"

definition parse_frame_from_buffer :: "'a extlib_scheme \<Rightarrow> bytes \<Rightarrow> bytes option \<Rightarrow> (FrameResult \<times> nat) result" where
  "parse_frame_from_buffer L data session_key = parse_frame_bytes L data session_key"

section \<open>Documented behaviour of zstd\<close>

text \<open>
  A zstd frame written by \<^verbatim>\<open>ZSTD_compress\<close> records its content size and decompresses,
  into a buffer of that size, to the input.
\<close>

definition zstd_ok :: "'a extlib_scheme \<Rightarrow> bool" where
  "zstd_ok L \<longleftrightarrow> (\<forall>d z nm. ZSTD_compress L 3 d = (False, z, nm) \<longrightarrow>
     ZSTD_getFrameContentSize L z = ContentSize (length d) \<and>
     (\<exists>nm'. ZSTD_decompress L (length d) z = (False, d, nm')))"

section \<open>Lemmas\<close>

subsection \<open>Flags\<close>

lemma has_flag_bits [simp]:
  "has_flag flags FLAG_MAC_PRESENT \<longleftrightarrow> bit flags 0"
  "has_flag flags FLAG_COMPRESSED \<longleftrightarrow> bit flags 1"
  "has_flag flags FLAG_FRAGMENTED \<longleftrightarrow> bit flags 2"
  "has_flag flags FLAG_RAW_BINARY \<longleftrightarrow> bit flags 4"
  using and_exp_eq_0_iff_not_bit [of flags 0] and_exp_eq_0_iff_not_bit [of flags 1]
    and_exp_eq_0_iff_not_bit [of flags 2] and_exp_eq_0_iff_not_bit [of flags 4]
  by (simp_all add: has_flag_def wire_defs)

lemma flag_bit_eqs:
  "FLAG_MAC_PRESENT = push_bit 0 1" "FLAG_COMPRESSED = push_bit 1 1"
  "FLAG_FRAGMENTED = push_bit 2 1" "FLAG_RAW_BINARY = push_bit 4 1"
  by (simp_all add: wire_defs)

lemma bit_flags [simp]:
  "bit FLAG_MAC_PRESENT i \<longleftrightarrow> i = 0" "bit FLAG_COMPRESSED i \<longleftrightarrow> i = 1"
  "bit FLAG_FRAGMENTED i \<longleftrightarrow> i = 2" "bit FLAG_RAW_BINARY i \<longleftrightarrow> i = 4"
  unfolding flag_bit_eqs bit_push_bit_iff bit_1_iff by auto

lemma clear_compressed: "\<not> bit flags 1 \<Longrightarrow> (flags OR FLAG_COMPRESSED) AND NOT FLAG_COMPRESSED = flags"
  by (rule bit_word_eqI) (auto simp: bit_simps)

subsection \<open>Layout\<close>

lemma field_Nil_off [bytes_simps]: "field (a @ b) 0 n = (if n \<le> length a then take n a else a @ field b 0 (n - length a))"
  by (simp add: field_def)

lemma field_skip [bytes_simps]: "length a \<le> off \<Longrightarrow> field (a @ b) off n = field b (off - length a) n"
  by (simp add: field_def)

lemma length_field [simp]: "off + n \<le> length buf \<Longrightarrow> length (field buf off n) = n"
  by (simp add: field_def)

lemma field_append: "off' = off + m \<Longrightarrow> k = m + n \<Longrightarrow> field buf off m @ field buf off' n = field buf off k"
  by (simp add: field_def take_add add.commute)

lemma length_target_to_bytes [simp]: "length (target_to_bytes target) = 32"
  by (simp add: target_to_bytes_def poke_def min_def)

lemma build_header_layout:
  "length t32 = 32 \<Longrightarrow> build_header flags t32 payload =
     be16 FRAME_MAGIC @ be16 flags @ be32 (word_of_nat (length payload)) @ t32 @ be32 (vynkor_crc32 payload)"
  by (simp add: build_header_def poke_def FRAME_HEADER_SIZE_def)

lemma length_build_header [simp]: "length t32 = 32 \<Longrightarrow> length (build_header flags t32 payload) = 44"
  by (simp add: build_header_layout)

text \<open>The header written in line by the two legacy writers is the shared one.\<close>

lemma inline_header_build: "inline_header target flags payload = build_header flags (target_to_bytes target) payload"
proof (cases "length target \<le> 32")
  case True
  then show ?thesis
    by (simp add: inline_header_def build_header_layout target_to_bytes_def poke_def FRAME_HEADER_SIZE_def)
next
  case False
  then show ?thesis
    by (simp add: inline_header_def build_header_layout target_to_bytes_def poke_def FRAME_HEADER_SIZE_def)
qed

lemma build_header_fields:
  assumes "length t32 = 32"
  shows "un16 (field (build_header flags t32 payload @ rest) 0 2) = FRAME_MAGIC"
    and "un16 (field (build_header flags t32 payload @ rest) 2 2) = flags"
    and "un32 (field (build_header flags t32 payload @ rest) 4 4) = word_of_nat (length payload)"
    and "field (build_header flags t32 payload @ rest) 8 32 = t32"
    and "un32 (field (build_header flags t32 payload @ rest) 40 4) = vynkor_crc32 payload"
    and "field (build_header flags t32 payload @ rest) 0 44 = build_header flags t32 payload"
    and "field (build_header flags t32 payload @ rest) 44 n = field rest 0 n"
    and "field (build_header flags t32 payload @ rest) (44 + m) n = field rest m n"
  using assms by (simp_all add: build_header_layout field_def)

text \<open>Conversely, a 44-byte block whose fields hold these values is that header.\<close>

lemma header_of_fields:
  assumes "44 \<le> length buf" and "un16 (field buf 0 2) = FRAME_MAGIC" and "un16 (field buf 2 2) = flags"
    and "un32 (field buf 4 4) = word_of_nat (length payload)" and "un32 (field buf 40 4) = vynkor_crc32 payload"
  shows "field buf 0 44 = build_header flags (field buf 8 32) payload"
proof -
  have "field buf 0 44 = field buf 0 2 @ field buf 2 2 @ field buf 4 4 @ field buf 8 32 @ field buf 40 4"
    using field_append [of 40 8 32 36 4 buf] field_append [of 8 4 4 40 36 buf]
      field_append [of 4 2 2 42 40 buf] field_append [of 2 0 2 44 42 buf] by simp
  moreover have "field buf 0 2 = be16 FRAME_MAGIC" "field buf 2 2 = be16 flags"
    "field buf 4 4 = be32 (word_of_nat (length payload))" "field buf 40 4 = be32 (vynkor_crc32 payload)"
    using assms c16.field_enc [of 0 buf] c16.field_enc [of 2 buf] c32.field_enc [of 4 buf]
      c32.field_enc [of 40 buf] by simp_all
  ultimately show ?thesis using assms(1) by (simp add: build_header_layout)
qed

lemma max_payload_word: "n \<le> MAX_PAYLOAD_SIZE \<Longrightarrow> unat (word_of_nat n :: u32) = n"
  by (simp add: wire_defs unat_of_nat)

subsection \<open>Parsing what a writer wrote\<close>

text \<open>The parser on a well-formed frame: validation passes and the MAC decides.\<close>

lemma parse_layout:
  assumes t: "length t32 = 32" and p: "length p \<le> MAX_PAYLOAD_SIZE"
    and tag: "length tag = (if bit flags 0 then 32 else 0)"
  shows "parse_frame_bytes L (build_header flags t32 p @ p @ tag @ rest) key =
    bind_result (normalise_frame L (build_header flags t32 p @ p @ tag @ rest) flags p)
      (\<lambda>(flags', plain, hdr).
         if bit flags 0 then
           let r = \<lparr>fr_payload = plain, fr_flags = flags', fr_has_mac = True, fr_mac = tag, fr_raw_header = hdr\<rparr> in
           (case key of None \<Rightarrow> Inr (r, 44 + length p + length tag)
            | Some k \<Rightarrow> bind_result (verify_tag L k hdr plain tag)
                (\<lambda>ok. if ok then Inr (r, 44 + length p + length tag)
                      else Inl (VynkorInternal ''frame MAC verification failed'')))
         else case key of
             Some k \<Rightarrow> Inl (VynkorInternal ''frame MAC verification failed'')
           | None \<Rightarrow> Inr (\<lparr>fr_payload = plain, fr_flags = flags', fr_has_mac = False,
                fr_mac = replicate 32 0, fr_raw_header = hdr\<rparr>, 44 + length p))"
proof -
  let ?buf = "build_header flags t32 p @ p @ tag @ rest"
  have pl: "field ?buf 44 (length p) = p" and tg: "bit flags 0 \<Longrightarrow> field ?buf (44 + length p) 32 = tag"
    using tag t by (simp_all add: field_def)
  have len: "unat (un32 (field ?buf 4 4)) = length p"
    using p by (simp add: build_header_fields [OF t] max_payload_word)
  show ?thesis
  proof (cases "bit flags 0")
    case True
    with tag have tl: "length tag = 32" by simp
    from True t p show ?thesis
      unfolding parse_frame_bytes_def Let_def len FRAME_HEADER_SIZE_def MAC_TAG_LEN_def pl tg [OF True] tl
      by (simp add: build_header_fields [OF t] tl)
  next
    case False
    with t p show ?thesis
      unfolding parse_frame_bytes_def Let_def len FRAME_HEADER_SIZE_def MAC_TAG_LEN_def pl
      by (simp add: build_header_fields [OF t] cong: option.case_cong)
  qed
qed

lemma normalise_plain: "length t32 = 32 \<Longrightarrow> \<not> bit flags 1 \<Longrightarrow>
  normalise_frame L (build_header flags t32 p @ rest) flags p = Inr (flags, p, build_header flags t32 p)"
  by (simp add: normalise_frame_def build_header_fields FRAME_HEADER_SIZE_def)

lemma normalise_compressed:
  assumes "zstd_ok L" and "zstd_compress_level3 L p = Inr z" and "length p \<le> MAX_PAYLOAD_SIZE"
    and "length t32 = 32" and "\<not> bit flags 1"
  shows "normalise_frame L (build_header (flags OR FLAG_COMPRESSED) t32 z @ rest) (flags OR FLAG_COMPRESSED) z =
    Inr (flags, p, build_header flags t32 p)"
proof -
  from assms(2) obtain nm where "ZSTD_compress L 3 p = (False, z, nm)"
    by (auto simp: zstd_compress_level3_def split: prod.splits if_splits)
  with assms(1) obtain nm' where "ZSTD_getFrameContentSize L z = ContentSize (length p)"
    and "ZSTD_decompress L (length p) z = (False, p, nm')"
    by (auto simp: zstd_ok_def)
  with assms(3) have "zstd_decompress_bounded L z = Inr p"
    by (simp add: zstd_decompress_bounded_def)
  with assms(4,5) show ?thesis
    by (simp add: normalise_frame_def bit_simps clear_compressed build_header_fields)
qed

text \<open>What a caller may pass: the MAC flag exactly when a key is set, and no claim of compression.\<close>

definition sendable :: "u16 \<Rightarrow> bytes option \<Rightarrow> bool" where
  "sendable flags key \<longleftrightarrow> (has_flag flags FLAG_MAC_PRESENT \<longleftrightarrow> key \<noteq> None) \<and> \<not> has_flag flags FLAG_COMPRESSED"

text \<open>The normalised frame a receiver ends up with.\<close>

definition received :: "u16 \<Rightarrow> string \<Rightarrow> bytes \<Rightarrow> bytes option \<Rightarrow> bytes \<Rightarrow> FrameResult" where
  "received flags target payload key tag =
     \<lparr>fr_payload = payload, fr_flags = flags, fr_has_mac = (key \<noteq> None),
      fr_mac = (if key = None then replicate 32 0 else tag),
      fr_raw_header = build_header flags (target_to_bytes target) payload\<rparr>"

text \<open>
  A frame on the wire: header, wire payload and tag, where the wire payload normalises to the
  sender's payload and the tag is the sender's tag over the plaintext.
\<close>

lemma parse_sent:
  assumes L: "hmac_ok L" and s: "sendable flags key"
    and tag: "(case key of None \<Rightarrow> Inr [] | Some k \<Rightarrow> compute_tag L k (build_header flags (target_to_bytes target) payload) payload) = Inr tag"
    and wfl: "bit wflags 0 = bit flags 0" and wp: "length wp \<le> MAX_PAYLOAD_SIZE"
    and norm: "\<And>rest. normalise_frame L (build_header wflags (target_to_bytes target) wp @ rest) wflags wp =
        Inr (flags, payload, build_header flags (target_to_bytes target) payload)"
  shows "parse_frame_bytes L (build_header wflags (target_to_bytes target) wp @ wp @ tag @ rest) key =
    Inr (received flags target payload key tag, 44 + length wp + length tag)"
proof (cases key)
  case None
  with s tag wfl have "\<not> bit wflags 0" "tag = []" by (auto simp: sendable_def)
  with None wp norm show ?thesis
    using parse_layout [of "target_to_bytes target" wp "[]" wflags L rest None] by (simp add: received_def)
next
  case (Some k)
  with s wfl have b: "bit wflags 0" by (auto simp: sendable_def)
  from Some tag have ct: "compute_tag L k (build_header flags (target_to_bytes target) payload) payload = Inr tag" by simp
  with L have "length tag = 32" by (rule compute_tag_length)
  with Some b wp norm ct L show ?thesis
    by (simp add: parse_layout received_def verify_own_tag)
qed

lemma wire_form_cases:
  assumes "wire_form L flags payload = Inr (wfl, wp)"
  obtains (plain) "wfl = flags" "wp = payload"
  | (packed) "wfl = flags OR FLAG_COMPRESSED" "zstd_compress_level3 L payload = Inr wp"
      "length wp < length payload" "\<not> bit flags 1"
  using assms by (auto simp: wire_form_def bind_result_Inr split: if_splits)

lemma pack_frame_raw_cases:
  assumes "pack_frame_raw L target flags payload key = Inr w"
  obtains tag wfl wp where
    "length payload \<le> MAX_PAYLOAD_SIZE"
    "(case key of None \<Rightarrow> Inr [] | Some k \<Rightarrow> compute_tag L k (build_header flags (target_to_bytes target) payload) payload) = Inr tag"
    "wire_form L flags payload = Inr (wfl, wp)"
    "w = build_header wfl (target_to_bytes target) wp @ wp @ tag"
  using assms by (auto simp: pack_frame_raw_def bind_result_Inr Let_def split: if_splits)

lemma pack_frame_raw_parse:
  assumes L: "hmac_ok L" "zstd_ok L" and s: "sendable flags key"
    and w: "pack_frame_raw L target flags payload key = Inr w"
  obtains tag where "\<And>rest. parse_frame_bytes L (w @ rest) key = Inr (received flags target payload key tag, length w)"
proof -
  from w obtain tag wfl wp where p: "length payload \<le> MAX_PAYLOAD_SIZE"
    and tag: "(case key of None \<Rightarrow> Inr [] | Some k \<Rightarrow> compute_tag L k (build_header flags (target_to_bytes target) payload) payload) = Inr tag"
    and wfl: "wire_form L flags payload = Inr (wfl, wp)"
    and weq: "w = build_header wfl (target_to_bytes target) wp @ wp @ tag"
    by (rule pack_frame_raw_cases)
  have nc: "\<not> bit flags 1" using s by (simp add: sendable_def)
  have norm: "normalise_frame L (build_header wfl (target_to_bytes target) wp @ rest) wfl wp =
        Inr (flags, payload, build_header flags (target_to_bytes target) payload)" for rest
    using wfl
  proof (cases rule: wire_form_cases)
    case plain
    then show ?thesis using nc by (simp add: normalise_plain)
  next
    case packed
    then show ?thesis using L p nc by (simp add: normalise_compressed)
  qed
  have "bit wfl 0 = bit flags 0 \<and> length wp \<le> MAX_PAYLOAD_SIZE"
    using wfl p by (cases rule: wire_form_cases) (auto simp: bit_simps)
  then show ?thesis
    using that parse_sent [OF L(1) s tag _ _ norm] by (simp add: weq)
qed

lemma pack_frame_ws_parse:
  assumes L: "hmac_ok L" and s: "sendable flags key"
    and w: "pack_frame_ws L target flags payload key = Inr w"
  obtains tag where "\<And>rest. parse_frame_from_buffer L (w @ rest) key = Inr (received flags target payload key tag, length w)"
proof -
  let ?h = "build_header flags (target_to_bytes target) payload"
  from w obtain tag where p: "length payload \<le> MAX_PAYLOAD_SIZE"
    and tag: "(case key of None \<Rightarrow> Inr [] | Some k \<Rightarrow> compute_tag L k ?h payload) = Inr tag"
    and weq: "w = ?h @ payload @ tag"
    by (auto simp: pack_frame_ws_def serialize_header_ws_def Let_def bind_result_Inr split: if_splits option.splits)
  have "\<not> bit flags 1" using s by (simp add: sendable_def)
  then show ?thesis
    using that parse_sent [OF L s tag refl p normalise_plain]
    by (simp add: weq parse_frame_from_buffer_def)
qed

end
