(* ===== verification/Vyn_Frame_Spec.thy ===== *)
theory Vyn_Frame_Spec
  imports Vyn_Frames
begin

text \<open>
  What the frame codec promises. The contract \<open>frame_codec\<close> relates a writer and the parser: a
  written frame parses back to the sender's flags and payload and is consumed exactly, and no
  strict prefix of it is accepted. It is interpreted on the Unix-socket writer
  \<open>pack_frame_raw\<close> and on the WebSocket writer \<open>pack_frame_ws\<close>. Independent of any
  writer, \<open>parse_frame_sound\<close> describes every frame the parser accepts.
\<close>

section \<open>The contract of a frame writer\<close>

lemma build_header_target_inj:
  assumes "build_header f (target_to_bytes s) p = build_header f' (target_to_bytes s') p'"
  shows "target_to_bytes s = target_to_bytes s'"
  using build_header_fields(4) [of "target_to_bytes s" f p "[]"]
    build_header_fields(4) [of "target_to_bytes s'" f' p' "[]"] assms by simp

locale frame_codec =
  fixes pack :: "'l \<Rightarrow> string \<Rightarrow> u16 \<Rightarrow> bytes \<Rightarrow> bytes option \<Rightarrow> bytes result"
    and parse :: "'l \<Rightarrow> bytes \<Rightarrow> bytes option \<Rightarrow> (FrameResult \<times> nat) result"
    and lib_ok :: "'l \<Rightarrow> bool"
  assumes parse_pack: "lib_ok L \<Longrightarrow> sendable flags key \<Longrightarrow> pack L target flags payload key = Inr w \<Longrightarrow>
      \<exists>tag. \<forall>rest. parse L (w @ rest) key = Inr (received flags target payload key tag, length w)"
    and parse_prefix: "lib_ok L \<Longrightarrow> sendable flags key \<Longrightarrow> pack L target flags payload key = Inr w \<Longrightarrow>
      n < length w \<Longrightarrow> \<exists>m. parse L (take n w) key = Inl (VynkorIoError m)"
begin

lemma parse_pack_payload:
  assumes "lib_ok L" "sendable flags key" "pack L target flags payload key = Inr w"
  obtains r where "parse L (w @ rest) key = Inr (r, length w)" "fr_payload r = payload" "fr_flags r = flags"
    "fr_raw_header r = build_header flags (target_to_bytes target) payload"
proof -
  from parse_pack [OF assms] obtain tag where
    "parse L (w @ rest) key = Inr (received flags target payload key tag, length w)" by blast
  then show thesis by (rule that) (simp_all add: received_def)
qed

text \<open>Written frames are self-delimiting: a byte stream starts with at most one of them.\<close>

lemma self_delimiting:
  assumes "lib_ok L" "sendable flags key" "pack L target flags payload key = Inr w"
    and "sendable flags' key" "pack L target' flags' payload' key = Inr w'"
    and "w @ rest = w' @ rest'"
  shows "w = w' \<and> flags = flags' \<and> payload = payload' \<and> target_to_bytes target = target_to_bytes target'"
proof -
  from parse_pack [OF assms(1-3)] parse_pack [OF assms(1,4,5)] obtain tag tag' where
    "parse L (w @ rest) key = Inr (received flags target payload key tag, length w)"
    "parse L (w' @ rest') key = Inr (received flags' target' payload' key tag', length w')" by blast
  with assms(6) have eq: "received flags target payload key tag = received flags' target' payload' key tag'"
    and "length w = length w'" by auto
  with assms(6) have "w = w'" by simp
  moreover from eq have "flags = flags'" "payload = payload'"
    "build_header flags (target_to_bytes target) payload = build_header flags' (target_to_bytes target') payload'"
    by (auto simp: received_def)
  ultimately show ?thesis by (auto dest: build_header_target_inj)
qed

end

section \<open>Prefixes are rejected\<close>

lemma field_take: "off + k \<le> n \<Longrightarrow> field (take n buf) off k = field buf off k"
  by (simp add: field_def drop_take min_def)

lemma parse_short: "length buf < 44 \<Longrightarrow> parse_frame_bytes L buf key = Inl (VynkorIoError ''frame shorter than header'')"
  by (simp add: parse_frame_bytes_def FRAME_HEADER_SIZE_def)

lemma parse_layout_prefix:
  assumes t: "length t32 = 32" and p: "length p \<le> MAX_PAYLOAD_SIZE"
    and tag: "length tag = (if bit flags 0 then 32 else 0)"
    and n: "n < length (build_header flags t32 p @ p @ tag)"
  shows "\<exists>m. parse_frame_bytes L (take n (build_header flags t32 p @ p @ tag)) key = Inl (VynkorIoError m)"
proof (cases "n < 44")
  case True
  then have "length (take n (build_header flags t32 p @ p @ tag)) < 44"
    unfolding length_take by (simp add: min_less_iff_disj)
  then show ?thesis using parse_short by blast
next
  case False
  let ?w = "build_header flags t32 p @ p @ tag"
  from n t have len: "length (take n ?w) = n" by simp
  have f: "un16 (field (take n ?w) 0 2) = FRAME_MAGIC" "un16 (field (take n ?w) 2 2) = flags"
      "unat (un32 (field (take n ?w) 4 4)) = length p"
    using False t p by (simp_all add: field_take build_header_fields max_payload_word)
  have "n < 44 + length p + (if bit flags 0 then 32 else 0)" using n t tag by simp
  with False p show ?thesis
    unfolding parse_frame_bytes_def Let_def f len FRAME_HEADER_SIZE_def MAC_TAG_LEN_def by simp
qed

lemma pack_frame_raw_shape:
  assumes L: "hmac_ok L" and s: "sendable flags key" and w: "pack_frame_raw L target flags payload key = Inr w"
  obtains wfl wp tag where "w = build_header wfl (target_to_bytes target) wp @ wp @ tag"
    "length wp \<le> MAX_PAYLOAD_SIZE" "length tag = (if bit wfl 0 then 32 else 0)"
proof -
  from w obtain tag wfl wp where p: "length payload \<le> MAX_PAYLOAD_SIZE"
    and tag: "(case key of None \<Rightarrow> Inr [] | Some k \<Rightarrow> compute_tag L k (build_header flags (target_to_bytes target) payload) payload) = Inr tag"
    and wfl: "wire_form L flags payload = Inr (wfl, wp)"
    and weq: "w = build_header wfl (target_to_bytes target) wp @ wp @ tag"
    by (rule pack_frame_raw_cases)
  have b: "bit wfl 0 = bit flags 0 \<and> length wp \<le> MAX_PAYLOAD_SIZE"
    using wfl p by (cases rule: wire_form_cases) (auto simp: bit_simps)
  moreover have "length tag = (if bit flags 0 then 32 else 0)"
    using tag s L by (cases key) (auto simp: sendable_def compute_tag_length)
  ultimately show thesis using that weq by simp
qed

lemma pack_frame_ws_shape:
  assumes L: "hmac_ok L" and s: "sendable flags key" and w: "pack_frame_ws L target flags payload key = Inr w"
  obtains tag where "w = build_header flags (target_to_bytes target) payload @ payload @ tag"
    "length payload \<le> MAX_PAYLOAD_SIZE" "length tag = (if bit flags 0 then 32 else 0)"
proof -
  let ?h = "build_header flags (target_to_bytes target) payload"
  from w obtain tag where p: "length payload \<le> MAX_PAYLOAD_SIZE"
    and tag: "(case key of None \<Rightarrow> Inr [] | Some k \<Rightarrow> compute_tag L k ?h payload) = Inr tag"
    and weq: "w = ?h @ payload @ tag"
    by (auto simp: pack_frame_ws_def serialize_header_ws_def Let_def bind_result_Inr split: if_splits option.splits)
  moreover have "length tag = (if bit flags 0 then 32 else 0)"
    using tag s L by (cases key) (auto simp: sendable_def compute_tag_length)
  ultimately show thesis using that by simp
qed

section \<open>Both writers meet the contract\<close>

interpretation uds: frame_codec pack_frame_raw parse_frame_bytes "\<lambda>L. hmac_ok L \<and> zstd_ok L"
proof unfold_locales
  fix L :: "'a extlib_scheme" and flags key target payload w n
  assume L: "hmac_ok L \<and> zstd_ok L" and s: "sendable flags key"
    and w: "pack_frame_raw L target flags payload key = Inr w"
  from L s w show "\<exists>tag. \<forall>rest. parse_frame_bytes L (w @ rest) key =
      Inr (received flags target payload key tag, length w)"
    using pack_frame_raw_parse [of L flags key target payload w] by blast
  show "\<exists>m. parse_frame_bytes L (take n w) key = Inl (VynkorIoError m)" if "n < length w"
    using pack_frame_raw_shape [OF _ s w] L that parse_layout_prefix by (metis length_target_to_bytes)
qed

interpretation wsx: frame_codec pack_frame_ws parse_frame_from_buffer hmac_ok
proof unfold_locales
  fix L :: "'a extlib_scheme" and flags key target payload w n
  assume L: "hmac_ok L" and s: "sendable flags key"
    and w: "pack_frame_ws L target flags payload key = Inr w"
  from L s w show "\<exists>tag. \<forall>rest. parse_frame_from_buffer L (w @ rest) key =
      Inr (received flags target payload key tag, length w)"
    using pack_frame_ws_parse [of L flags key target payload w] by blast
  show "\<exists>m. parse_frame_from_buffer L (take n w) key = Inl (VynkorIoError m)" if "n < length w"
    unfolding parse_frame_from_buffer_def
    using pack_frame_ws_shape [OF L s w] that parse_layout_prefix by (metis length_target_to_bytes)
qed

section \<open>Every accepted frame\<close>

text \<open>The checks an accepted buffer has passed, and the tag check on top of them.\<close>

lemma parse_frame_accepts:
  assumes "parse_frame_bytes L buf key = Inr (r, n)"
  obtains len hdr where "44 \<le> length buf" "un16 (field buf 0 2) = FRAME_MAGIC"
    "len = unat (un32 (field buf 4 4))" "len \<le> MAX_PAYLOAD_SIZE" "n \<le> length buf"
    "n = 44 + len + (if bit (un16 (field buf 2 2)) 0 then 32 else 0)"
    "vynkor_crc32 (field buf 44 len) = un32 (field buf 40 4)"
    "normalise_frame L buf (un16 (field buf 2 2)) (field buf 44 len) = Inr (fr_flags r, fr_payload r, fr_raw_header r)"
    "fr_has_mac r = bit (un16 (field buf 2 2)) 0"
    "\<forall>k. key = Some k \<longrightarrow> fr_has_mac r \<and> verify_tag L k (fr_raw_header r) (fr_payload r) (fr_mac r) = Inr True"
  using assms unfolding parse_frame_bytes_def Let_def
  by (force simp: FRAME_HEADER_SIZE_def MAC_TAG_LEN_def bind_result_Inr split: if_splits option.splits)

lemma zstd_decompress_bounded_length:
  "zstd_decompress_bounded L z = Inr out \<Longrightarrow> length out \<le> MAX_PAYLOAD_SIZE"
  by (auto simp: zstd_decompress_bounded_def split: content_size.splits prod.splits if_splits)

lemma normalise_frame_sound:
  assumes n: "normalise_frame L buf (un16 (field buf 2 2)) payload = Inr (flags, plain, hdr)"
    and "44 \<le> length buf" "un16 (field buf 0 2) = FRAME_MAGIC"
    "length payload = unat (un32 (field buf 4 4))" "length payload \<le> MAX_PAYLOAD_SIZE"
    "vynkor_crc32 payload = un32 (field buf 40 4)"
  shows "hdr = build_header flags (field buf 8 32) plain \<and> length plain \<le> MAX_PAYLOAD_SIZE \<and> \<not> bit flags 1"
proof (cases "bit (un16 (field buf 2 2)) 1")
  case True
  with n show ?thesis
    by (auto simp: normalise_frame_def bind_result_Inr Let_def bit_simps dest: zstd_decompress_bounded_length)
next
  case False
  with n have "flags = un16 (field buf 2 2)" "plain = payload" "hdr = field buf 0 44"
    by (auto simp: normalise_frame_def FRAME_HEADER_SIZE_def)
  with False assms header_of_fields [of buf flags payload] show ?thesis by simp
qed

section \<open>Fragment headers, corruption, and the four writers\<close>

lemma pack_frag_header_layout:
  "pack_frag_header fid sq tot sid = be16 fid @ be16 sq @ be16 tot @ be32 sid"
  by (simp add: pack_frag_header_def poke_def FRAG_HEADER_SIZE_def)

lemma length_pack_frag_header [simp]: "length (pack_frag_header fid sq tot sid) = 10"
  by (simp add: pack_frag_header_layout)

lemma parse_pack_frag:
  "parse_frag_header (pack_frag_header fid sq tot sid @ chunk) =
     Some \<lparr>fh_fragment_id = fid, fh_sequence = sq, fh_total = tot, fh_stream_id = sid\<rparr>"
  by (simp add: parse_frag_header_def pack_frag_header_layout FRAG_HEADER_SIZE_def field_def)

lemma pack_parse_frag:
  assumes "parse_frag_header payload = Some h"
  shows "payload = pack_frag_header (fh_fragment_id h) (fh_sequence h) (fh_total h) (fh_stream_id h) @ drop 10 payload"
proof -
  from assms have len: "10 \<le> length payload"
    and h: "fh_fragment_id h = un16 (field payload 0 2)" "fh_sequence h = un16 (field payload 2 2)"
      "fh_total h = un16 (field payload 4 2)" "fh_stream_id h = un32 (field payload 6 4)"
    by (auto simp: parse_frag_header_def FRAG_HEADER_SIZE_def split: if_splits)
  have "field payload 0 2 @ field payload 2 2 @ field payload 4 2 @ field payload 6 4 = field payload 0 10"
  proof -
    have "field payload 4 2 @ field payload 6 4 = field payload 4 6"
      "field payload 2 2 @ field payload 4 6 = field payload 2 8"
      "field payload 0 2 @ field payload 2 8 = field payload 0 10"
      by (rule field_append; simp)+
    then show ?thesis by (simp only:)
  qed
  moreover have "field payload 0 10 = take 10 payload" by (simp add: field_def)
  moreover have "pack_frag_header (fh_fragment_id h) (fh_sequence h) (fh_total h) (fh_stream_id h) =
      field payload 0 2 @ field payload 2 2 @ field payload 4 2 @ field payload 6 4"
    using len unfolding h pack_frag_header_layout by (simp add: c16.field_enc c32.field_enc)
  ultimately show ?thesis by (simp only: append_take_drop_id)
qed

lemma parse_crc_mismatch:
  assumes "length t32 = 32" and "length p \<le> MAX_PAYLOAD_SIZE" and "length p' = length p"
    and "vynkor_crc32 p' \<noteq> vynkor_crc32 p" and "(if bit flags 0 then 32 else 0) \<le> length rest"
  shows "parse_frame_bytes L (build_header flags t32 p @ p' @ rest) key = Inl VynkorFrameCrcMismatch"
proof -
  let ?buf = "build_header flags t32 p @ p' @ rest"
  have "field ?buf 44 (length p) = p'" using assms(1,3) by (simp add: field_def)
  moreover have "unat (un32 (field ?buf 4 4)) = length p"
    using assms by (simp add: build_header_fields max_payload_word)
  ultimately show ?thesis
    using assms unfolding parse_frame_bytes_def Let_def FRAME_HEADER_SIZE_def MAC_TAG_LEN_def
    by (simp add: build_header_fields(1,2,5))
qed

lemma pack_frame_mac_ws: "pack_frame_mac L target payload k f = pack_frame_ws L target (FLAG_MAC_PRESENT OR f) payload (Some k)"
  by (simp add: pack_frame_mac_def pack_frame_ws_def inline_header_build serialize_header_ws_def Let_def)

lemma pack_frame_ws_none: "pack_frame target payload f = pack_frame_ws L target f payload None"
  by (simp add: pack_frame_def pack_frame_ws_def inline_header_build serialize_header_ws_def)

lemma pack_frame_raw_ws:
  "length payload < COMPRESS_THRESHOLD \<or> has_flag flags FLAG_RAW_BINARY \<Longrightarrow>
   pack_frame_raw L target flags payload key = pack_frame_ws L target flags payload key"
proof -
  assume "length payload < COMPRESS_THRESHOLD \<or> has_flag flags FLAG_RAW_BINARY"
  then have "wire_form L flags payload = Inr (flags, payload)" by (auto simp: wire_form_def)
  then show ?thesis
    by (cases key) (simp_all add: pack_frame_raw_def pack_frame_ws_def serialize_header_ws_def Let_def)
qed

section \<open>The example library meets the documented behaviour\<close>

lemma demo_zstd_ok [simp]: "zstd_ok demo_lib"
proof -
  have "demo_size z = ContentSize (length d) \<and> demo_decompress (length d) z = (False, d, [])"
    if "demo_compress 3 d = (False, z, nm)" for d z nm
  proof (cases "d \<noteq> [] \<and> d = replicate (length d) (hd d) \<and> length d < 256 ^ 8")
    case True
    with that have z: "z = 1 # be_bytes 8 (length d) @ [hd d]" by (simp add: demo_compress_def)
    from True have "be_val (be_bytes 8 (length d)) = length d" by (simp add: be_val_bytes)
    with z True show ?thesis by (simp add: demo_size_def demo_decompress_def nth_append)
  next
    case False
    with that have "z = 0 # d" by (auto simp: demo_compress_def split: if_splits)
    then show ?thesis by (simp add: demo_size_def demo_decompress_def)
  qed
  then show ?thesis by (fastforce simp: zstd_ok_def demo_lib_def)
qed

lemma demo_compress_total: "\<exists>z. zstd_compress_level3 demo_lib d = Inr z"
  by (simp add: zstd_compress_level3_def demo_lib_def demo_compress_def)

lemma demo_tag: "compute_tag demo_lib k h p = Inr (demo_hmac k (h @ p))"
  by (simp add: compute_tag_def demo_lib_def)

lemma demo_pack_total: "length payload \<le> MAX_PAYLOAD_SIZE \<Longrightarrow> \<exists>w. pack_frame_raw demo_lib target flags payload key = Inr w"
proof -
  assume p: "length payload \<le> MAX_PAYLOAD_SIZE"
  have "\<exists>x. wire_form demo_lib flags payload = Inr x"
    using demo_compress_total [of payload] by (auto simp: wire_form_def)
  with p show ?thesis
    by (cases key) (auto simp: pack_frame_raw_def demo_tag Let_def)
qed

section \<open>Properties\<close>

text \<open>
  C1: what a Unix-socket sender writes, a receiver holding the same key reads back: same flags,
  same payload, the plaintext header, exactly the bytes of the frame consumed. This covers plain
  and compressed payloads, with and without a MAC, under any bytes that follow on the stream.
\<close>

theorem pack_frame_raw_roundtrip:
  assumes "hmac_ok L" and "zstd_ok L" and "sendable flags key"
    and "pack_frame_raw L target flags payload key = Inr w"
  shows "\<exists>r. parse_frame_bytes L (w @ rest) key = Inr (r, length w) \<and> fr_payload r = payload \<and>
    fr_flags r = flags \<and> fr_raw_header r = build_header flags (target_to_bytes target) payload"
  using uds.parse_pack_payload [of L flags key target payload w rest] assms by metis

text \<open>Witness: a compressible payload of 70000 bytes, with a MAC.\<close>

theorem pack_frame_raw_roundtrip_witness:
  "\<exists>w. hmac_ok demo_lib \<and> zstd_ok demo_lib \<and> sendable FLAG_MAC_PRESENT (Some [7]) \<and>
     pack_frame_raw demo_lib ''kernel'' FLAG_MAC_PRESENT (replicate 70000 1) (Some [7]) = Inr w \<and>
     (\<exists>r. parse_frame_bytes demo_lib (w @ [5]) (Some [7]) = Inr (r, length w) \<and> fr_payload r = replicate 70000 1)"
proof -
  have s: "sendable FLAG_MAC_PRESENT (Some [7])" by (simp add: sendable_def)
  obtain w where w: "pack_frame_raw demo_lib ''kernel'' FLAG_MAC_PRESENT (replicate 70000 1) (Some [7]) = Inr w"
    using demo_pack_total [of "replicate 70000 1" "''kernel''" FLAG_MAC_PRESENT "Some [7]"] by (auto simp: MAX_PAYLOAD_SIZE_def)
  from pack_frame_raw_roundtrip [OF demo_hmac_ok demo_zstd_ok s w, of "[5]"] s w show ?thesis by auto
qed

text \<open>The same for the WebSocket writer and the buffer parser.\<close>

lemma pack_frame_ws_roundtrip:
  assumes "hmac_ok L" and "sendable flags key"
    and "pack_frame_ws L target flags payload key = Inr w"
  shows "\<exists>r. parse_frame_from_buffer L (w @ rest) key = Inr (r, length w) \<and> fr_payload r = payload \<and>
    fr_flags r = flags \<and> fr_raw_header r = build_header flags (target_to_bytes target) payload"
  using wsx.parse_pack_payload [of L flags key target payload w rest] assms by metis

text \<open>
  Frames are self-delimiting. If a byte stream starts with a frame written for one message and
  with a frame written for another, the two frames, flags, payloads and target fields are the same.
\<close>

lemma pack_frame_raw_self_delimiting:
  assumes "hmac_ok L" and "zstd_ok L"
    and "sendable flags key" and "pack_frame_raw L target flags payload key = Inr w"
    and "sendable flags' key" and "pack_frame_raw L target' flags' payload' key = Inr w'"
    and "w @ rest = w' @ rest'"
  shows "w = w' \<and> flags = flags' \<and> payload = payload' \<and> target_to_bytes target = target_to_bytes target'"
  using uds.self_delimiting [of L flags key target payload w flags' target' payload' w' rest rest'] assms by simp

text \<open>
  A truncated frame is never accepted: every strict prefix of a written frame is refused
  with an I/O error.
\<close>

lemma pack_frame_raw_prefix_rejected:
  assumes "hmac_ok L" and "zstd_ok L" and "sendable flags key"
    and "pack_frame_raw L target flags payload key = Inr w" and "n < length w"
  shows "\<exists>m. parse_frame_bytes L (take n w) key = Inl (VynkorIoError m)"
  using uds.parse_prefix [of L flags key target payload w n] assms by simp

text \<open>
  C2: every frame the parser accepts, whoever wrote it, is normalised and in bounds: it lies
  inside the buffer, its payload has at most 1 MiB (also after decompression), the compression
  flag is gone, the header used for the MAC is exactly the header of the plaintext payload, and
  with a session key set the frame carried the tag of that header and payload under that key.
\<close>

theorem parse_frame_sound:
  assumes "parse_frame_bytes L buf key = Inr (r, n)"
  shows "n \<le> length buf \<and> length (fr_payload r) \<le> MAX_PAYLOAD_SIZE \<and>
    \<not> has_flag (fr_flags r) FLAG_COMPRESSED \<and>
    fr_raw_header r = build_header (fr_flags r) (field buf 8 32) (fr_payload r) \<and>
    (\<forall>k. key = Some k \<longrightarrow> fr_has_mac r \<and> compute_tag L k (fr_raw_header r) (fr_payload r) = Inr (fr_mac r))"
proof -
  from assms obtain len where len: "44 \<le> length buf" "un16 (field buf 0 2) = FRAME_MAGIC"
    "len = unat (un32 (field buf 4 4))" "len \<le> MAX_PAYLOAD_SIZE" "n \<le> length buf"
    "n = 44 + len + (if bit (un16 (field buf 2 2)) 0 then 32 else 0)"
    "vynkor_crc32 (field buf 44 len) = un32 (field buf 40 4)"
    "normalise_frame L buf (un16 (field buf 2 2)) (field buf 44 len) = Inr (fr_flags r, fr_payload r, fr_raw_header r)"
    and mac: "\<forall>k. key = Some k \<longrightarrow> fr_has_mac r \<and> verify_tag L k (fr_raw_header r) (fr_payload r) (fr_mac r) = Inr True"
    by (rule parse_frame_accepts)
  have "length (field buf 44 len) = len" using len by simp
  with normalise_frame_sound [OF len(8) len(1,2)] len mac show ?thesis
    by (simp add: verify_tag_Inr_True)
qed

text \<open>Witness: a received secured frame.\<close>

theorem parse_frame_sound_witness:
  "\<exists>w r. parse_frame_bytes demo_lib w (Some [7]) = Inr (r, length w) \<and> fr_has_mac r \<and>
     compute_tag demo_lib [7] (fr_raw_header r) (fr_payload r) = Inr (fr_mac r) \<and>
     length (fr_payload r) \<le> MAX_PAYLOAD_SIZE"
proof -
  have s: "sendable FLAG_MAC_PRESENT (Some [7])" by (simp add: sendable_def)
  obtain w where w: "pack_frame_raw demo_lib ''kernel'' FLAG_MAC_PRESENT [1, 2] (Some [7]) = Inr w"
    using demo_pack_total [of "[1, 2]" "''kernel''" FLAG_MAC_PRESENT "Some [7]"] by (auto simp: MAX_PAYLOAD_SIZE_def)
  obtain r where r: "parse_frame_bytes demo_lib w (Some [7]) = Inr (r, length w)"
    using uds.parse_pack_payload [of demo_lib FLAG_MAC_PRESENT "Some [7]" "''kernel''" "[1, 2]" w "[]"] s w by auto
  from parse_frame_sound [OF r] r show ?thesis by auto
qed

text \<open>
  No downgrade. Once a session key is set, a frame without the MAC flag is refused, whatever
  its contents.
\<close>

lemma parse_frame_requires_mac:
  assumes "\<not> has_flag (un16 (field buf 2 2)) FLAG_MAC_PRESENT"
  shows "\<exists>e. parse_frame_bytes L buf (Some k) = Inl e"
proof (cases "parse_frame_bytes L buf (Some k)")
  case (Inr p)
  then obtain r n where "parse_frame_bytes L buf (Some k) = Inr (r, n)" by (cases p) auto
  then have "bit (un16 (field buf 2 2)) 0" by (rule parse_frame_accepts) auto
  with assms show ?thesis by simp
qed simp

text \<open>
  C3: a payload damaged inside four consecutive bytes is refused with the CRC error, with or
  without a key, before any decompression or MAC check.
\<close>

theorem corrupted_payload_rejected:
  assumes "pack_frame target (xs @ u @ ys) flags = Inr w"
    and "\<not> has_flag flags FLAG_MAC_PRESENT" and "length u = length v" and "length u \<le> 4" and "u \<noteq> v"
  shows "parse_frame_bytes L (take (44 + length xs) w @ v @ drop (44 + length xs + length u) w @ rest) key =
    Inl VynkorFrameCrcMismatch"
proof -
  let ?h = "build_header flags (target_to_bytes target) (xs @ u @ ys)"
  from assms(1) have w: "w = ?h @ xs @ u @ ys" and p: "length (xs @ u @ ys) \<le> MAX_PAYLOAD_SIZE"
    by (auto simp: pack_frame_def inline_header_build split: if_splits)
  have eq: "take (44 + length xs) w @ v @ drop (44 + length xs + length u) w @ rest = ?h @ (xs @ v @ ys) @ rest"
    by (simp add: w)
  have "vynkor_crc32 (xs @ v @ ys) \<noteq> vynkor_crc32 (xs @ u @ ys)"
    using crc32_burst [OF assms(3-5), of xs ys] by simp
  then show ?thesis unfolding eq
    using parse_crc_mismatch [OF _ p, of "target_to_bytes target" "xs @ v @ ys" flags rest L key] assms(2,3) by simp
qed

text \<open>Witness: a payload whose second byte is flipped.\<close>

theorem corrupted_payload_rejected_witness:
  "\<exists>w. pack_frame ''kernel'' ([1] @ [2] @ [3]) 0 = Inr w \<and> \<not> has_flag 0 FLAG_MAC_PRESENT \<and>
     parse_frame_bytes demo_lib (take 45 w @ [9] @ drop 46 w @ []) None = Inl VynkorFrameCrcMismatch"
proof -
  obtain w where w: "pack_frame ''kernel'' ([1] @ [2] @ [3]) 0 = Inr w"
    by (simp add: pack_frame_def MAX_PAYLOAD_SIZE_def)
  with corrupted_payload_rejected [OF w, of "[9]" demo_lib "[]" None] show ?thesis by auto
qed

text \<open>
  The four writers agree. The MAC writer is the WebSocket writer with the MAC flag and a key,
  the CRC-only writer is the one without a key, and the Unix-socket writer coincides with it
  whenever the payload is below the compression threshold or raw binary.
\<close>

lemma frame_writers_agree:
  "pack_frame_mac L target payload k f = pack_frame_ws L target (FLAG_MAC_PRESENT OR f) payload (Some k) \<and>
   pack_frame target payload f = pack_frame_ws L target f payload None \<and>
   (length payload < COMPRESS_THRESHOLD \<or> has_flag f FLAG_RAW_BINARY \<longrightarrow>
     pack_frame_raw L target f payload key = pack_frame_ws L target f payload key)"
  by (simp add: pack_frame_mac_ws pack_frame_ws_none pack_frame_raw_ws)

text \<open>
  Fragment headers round-trip in both directions: a packed header followed by any chunk parses
  to its four fields, and a payload that parses is its packed header followed by its chunk.
\<close>

lemma frag_header_roundtrip:
  "parse_frag_header (pack_frag_header fid sq tot sid @ chunk) =
     Some \<lparr>fh_fragment_id = fid, fh_sequence = sq, fh_total = tot, fh_stream_id = sid\<rparr> \<and>
   (parse_frag_header payload = Some h \<longrightarrow>
     payload = pack_frag_header (fh_fragment_id h) (fh_sequence h) (fh_total h) (fh_stream_id h) @ drop FRAG_HEADER_SIZE payload)"
  using parse_pack_frag pack_parse_frag by (simp add: FRAG_HEADER_SIZE_def)

end
