(* ===== verification/Vyn_Frame_IO.thy ===== *)
theory Vyn_Frame_IO
  imports Vyn_Frame_Spec
begin

text \<open>
  Frames over a file descriptor: \<open>recv_exact\<close>, \<open>recv_exact_deadline\<close> and the
  \<open>read_frame\<close> family of \<^verbatim>\<open>src/framing.cpp\<close>, and \<open>write_all\<close> of
  \<^verbatim>\<open>src/client.cpp\<close>. The operating system is a script in the state record \<open>world\<close>: the
  results of successive \<^verbatim>\<open>read\<close>, \<^verbatim>\<open>poll\<close> and \<^verbatim>\<open>write\<close> calls and the
  readings of the steady clock in nanoseconds. Bytes handed to \<^verbatim>\<open>write\<close> and timeouts
  handed to \<^verbatim>\<open>poll\<close> are recorded. The code waits in state \<open>Pending\<close> when the script of
  the call it makes is over.
\<close>

section \<open>The environment\<close>

text \<open>
  A read result \<open>RData bs\<close> is a segment the kernel holds: a call for fewer bytes takes its
  front and leaves the rest. A read of no bytes is the end of the stream.
\<close>

datatype read_res = RData bytes | RIntr | RErr
datatype poll_res = PReady | PTimeout | PIntr | PErr
datatype write_res = WCount nat | WIntr | WErr

record world =
  reads :: "read_res list"
  polls :: "poll_res list"
  polled :: "int list"
  writes :: "write_res list"
  sent :: bytes
  clock :: "nat \<Rightarrow> int"
  ticks :: nat

definition now :: "'a world_scheme \<Rightarrow> int \<times> 'a world_scheme" where
  "now w = (clock w (ticks w), w\<lparr>ticks := Suc (ticks w)\<rparr>)"

definition sys_read :: "nat \<Rightarrow> 'a world_scheme \<Rightarrow> read_res option \<times> 'a world_scheme" where
  "sys_read n w = (case reads w of
      [] \<Rightarrow> (None, w)
    | RData bs # rs \<Rightarrow>
        if length bs \<le> n then (Some (RData bs), w\<lparr>reads := rs\<rparr>)
        else (Some (RData (take n bs)), w\<lparr>reads := RData (drop n bs) # rs\<rparr>)
    | r # rs \<Rightarrow> (Some r, w\<lparr>reads := rs\<rparr>))"

definition sys_poll :: "int \<Rightarrow> 'a world_scheme \<Rightarrow> poll_res option \<times> 'a world_scheme" where
  "sys_poll timeout_ms w = (let w = w\<lparr>polled := polled w @ [timeout_ms]\<rparr> in
     case polls w of [] \<Rightarrow> (None, w) | p # ps \<Rightarrow> (Some p, w\<lparr>polls := ps\<rparr>))"

definition sys_write :: "bytes \<Rightarrow> 'a world_scheme \<Rightarrow> write_res option \<times> 'a world_scheme" where
  "sys_write data w = (case writes w of
      [] \<Rightarrow> (None, w)
    | WCount k # ws \<Rightarrow> (Some (WCount (min k (length data))),
        w\<lparr>writes := ws, sent := sent w @ take k data\<rparr>)
    | r # ws \<Rightarrow> (Some r, w\<lparr>writes := ws\<rparr>))"

text \<open>\<^verbatim>\<open>duration_cast<milliseconds>\<close> of nanoseconds truncates towards zero.\<close>

definition ms_of_ns :: "int \<Rightarrow> int" where
  "ms_of_ns d = (if 0 \<le> d then d div 1000000 else - ((- d) div 1000000))"

definition FRAME_READ_TIMEOUT_MS :: int where [wire_defs]: "FRAME_READ_TIMEOUT_MS = 10000"

section \<open>The code\<close>

text \<open>What each call consumes, for the termination of the loops.\<close>

lemma sys_read_data:
  "(Some (RData bs), w') = sys_read n w \<Longrightarrow> bs \<noteq> [] \<Longrightarrow> 0 < n \<Longrightarrow>
     n - length bs + length (reads w') < n + length (reads w)"
  by (auto simp: sys_read_def split: list.splits read_res.splits if_splits)

lemma sys_read_intr: "(Some RIntr, w') = sys_read n w \<Longrightarrow> length (reads w') < length (reads w)"
  by (auto simp: sys_read_def split: list.splits read_res.splits if_splits)

function recv_exact :: "nat \<Rightarrow> bytes \<Rightarrow> 'a world_scheme \<Rightarrow> bytes outcome \<times> 'a world_scheme" where
  "recv_exact n buf w =
     (if length buf < n then
        (case sys_read (n - length buf) w of
           (None, w') \<Rightarrow> (Pending, w')
         | (Some RIntr, w') \<Rightarrow> recv_exact n buf w'
         | (Some RErr, w') \<Rightarrow> (Throw (VynkorIoError ''connection closed or recv error''), w')
         | (Some (RData bs), w') \<Rightarrow>
             if bs = [] then (Throw (VynkorIoError ''connection closed or recv error''), w')
             else recv_exact n (buf @ bs) w')
      else (Ret buf, w))"
  by pat_completeness auto
termination
  by (relation "measure (\<lambda>(n, buf, w). n - length buf + length (reads w))")
    (auto dest: sys_read_data sys_read_intr)

declare recv_exact.simps [simp del]

lemma sys_poll_measure: "(Some p, w') = sys_poll t w \<Longrightarrow> length (polls w') < length (polls w)"
  by (auto simp: sys_poll_def Let_def split: list.splits)

lemma sys_read_polls: "(r, w') = sys_read n w \<Longrightarrow> polls w' = polls w"
  by (auto simp: sys_read_def split: list.splits read_res.splits if_splits)

lemma now_polls [simp]: "polls (snd (now w)) = polls w"
  by (simp add: now_def)

function recv_exact_deadline :: "nat \<Rightarrow> bytes \<Rightarrow> int \<Rightarrow> 'a world_scheme \<Rightarrow> bytes outcome \<times> 'a world_scheme" where
  "recv_exact_deadline n buf deadline w =
     (if length buf < n then
        let t = fst (now w); w = snd (now w) in
        if t \<ge> deadline then (Throw VynkorFrameReadTimeout, w)
        else (case sys_poll (cast_int (ms_of_ns (deadline - t))) w of
           (None, w') \<Rightarrow> (Pending, w')
         | (Some PIntr, w') \<Rightarrow> recv_exact_deadline n buf deadline w'
         | (Some PErr, w') \<Rightarrow> (Throw (VynkorIoError ''poll failed during frame read''), w')
         | (Some PTimeout, w') \<Rightarrow> (Throw VynkorFrameReadTimeout, w')
         | (Some PReady, w') \<Rightarrow>
             (case sys_read (n - length buf) w' of
                (None, w2) \<Rightarrow> (Pending, w2)
              | (Some RIntr, w2) \<Rightarrow> recv_exact_deadline n buf deadline w2
              | (Some RErr, w2) \<Rightarrow> (Throw (VynkorIoError ''connection closed or recv error''), w2)
              | (Some (RData bs), w2) \<Rightarrow>
                  if bs = [] then (Throw (VynkorIoError ''connection closed or recv error''), w2)
                  else recv_exact_deadline n (buf @ bs) deadline w2))
      else (Ret buf, w))"
  by pat_completeness auto
termination
  by (relation "measure (\<lambda>(n, buf, d, w). length (polls w))")
    (auto dest!: sys_poll_measure sys_read_polls)

declare recv_exact_deadline.simps [simp del]

definition read_frame_full_with_timeout ::
    "'l extlib_scheme \<Rightarrow> bytes option \<Rightarrow> int \<Rightarrow> 'a world_scheme \<Rightarrow> FrameResult outcome \<times> 'a world_scheme" where
  "read_frame_full_with_timeout L session_key frame_timeout_ms w =
     andthen (recv_exact 1 [] w) (\<lambda>first w.
       let t = fst (now w); w = snd (now w); deadline = t + frame_timeout_ms * 1000000 in
       andthen (recv_exact_deadline (FRAME_HEADER_SIZE - 1) [] deadline w) (\<lambda>hdr w.
         let buf = first @ hdr; flags = un16 (field buf 2 2); len = unat (un32 (field buf 4 4)) in
         if len > MAX_PAYLOAD_SIZE then (Throw (VynkorPayloadTooLarge len), w)
         else let rest = len + (if has_flag flags FLAG_MAC_PRESENT then MAC_TAG_LEN else 0) in
           andthen (if rest > 0 then recv_exact_deadline rest [] deadline w else (Ret [], w))
             (\<lambda>body w. (lift_result (bind_result (parse_frame_bytes L (buf @ body) session_key) (\<lambda>(r, n). Inr r)), w))))"

definition read_frame_full :: "'l extlib_scheme \<Rightarrow> bytes option \<Rightarrow> 'a world_scheme \<Rightarrow> FrameResult outcome \<times> 'a world_scheme" where
  "read_frame_full L session_key w = read_frame_full_with_timeout L session_key FRAME_READ_TIMEOUT_MS w"

function read_frame_full_with_deadline ::
    "'l extlib_scheme \<Rightarrow> bytes option \<Rightarrow> int \<Rightarrow> 'a world_scheme \<Rightarrow> FrameResult outcome \<times> 'a world_scheme" where
  "read_frame_full_with_deadline L session_key deadline w =
     (let t = fst (now w); w = snd (now w) in
      if t \<ge> deadline then (Throw VynkorTimeout, w)
      else (case sys_poll (cast_int (ms_of_ns (deadline - t))) w of
         (None, w') \<Rightarrow> (Pending, w')
       | (Some PIntr, w') \<Rightarrow> read_frame_full_with_deadline L session_key deadline w'
       | (Some PErr, w') \<Rightarrow> (Throw (VynkorIoError ''poll failed during frame read''), w')
       | (Some PTimeout, w') \<Rightarrow> (Throw VynkorTimeout, w')
       | (Some PReady, w') \<Rightarrow>
           let t2 = fst (now w'); w2 = snd (now w');
               r2 = ms_of_ns (deadline - t2); r2 = (if r2 < 1 then 1 else r2) in
           read_frame_full_with_timeout L session_key (cast_int r2) w2))"
  by pat_completeness auto
termination
  by (relation "measure (\<lambda>(L, k, d, w). length (polls w))") (auto dest!: sys_poll_measure)

declare read_frame_full_with_deadline.simps [simp del]

definition read_frame :: "'l extlib_scheme \<Rightarrow> 'a world_scheme \<Rightarrow> bytes outcome \<times> 'a world_scheme" where
  "read_frame L w = andthen (read_frame_full L None w) (\<lambda>r w. (Ret (fr_payload r), w))"

lemma sys_write_measure: "(Some r, w') = sys_write d w \<Longrightarrow> length (writes w') < length (writes w)"
  by (auto simp: sys_write_def split: list.splits write_res.splits)

function write_all :: "bytes \<Rightarrow> 'a world_scheme \<Rightarrow> unit outcome \<times> 'a world_scheme" where
  "write_all frame w =
     (if frame = [] then (Ret (), w)
      else (case sys_write frame w of
         (None, w') \<Rightarrow> (Pending, w')
       | (Some WIntr, w') \<Rightarrow> write_all frame w'
       | (Some WErr, w') \<Rightarrow> (Throw (VynkorIoError ''write() failed''), w')
       | (Some (WCount k), w') \<Rightarrow>
           if k = 0 then (Throw (VynkorIoError ''write() failed''), w')
           else write_all (drop k frame) w'))"
  by pat_completeness auto
termination
  by (relation "measure (\<lambda>(frame, w). length (writes w))") (auto dest!: sys_write_measure)

declare write_all.simps [simp del]

section \<open>What a read script delivers\<close>

text \<open>The bytes a script delivers before the stream ends or fails, however they are segmented.\<close>

fun stream_of :: "read_res list \<Rightarrow> bytes" where
  "stream_of [] = []"
| "stream_of (RData bs # rs) = (if bs = [] then [] else bs @ stream_of rs)"
| "stream_of (RIntr # rs) = stream_of rs"
| "stream_of (RErr # rs) = []"

text \<open>A poll script without timeouts or failures, and the number of its ready answers.\<close>

definition calm :: "poll_res list \<Rightarrow> bool" where
  "calm ps \<longleftrightarrow> set ps \<subseteq> {PReady, PIntr}"

definition ready_count :: "poll_res list \<Rightarrow> nat" where
  "ready_count ps = length (filter ((=) PReady) ps)"

text \<open>The parts of the state that reading leaves alone.\<close>

definition reads_only :: "'a world_scheme \<Rightarrow> 'a world_scheme \<Rightarrow> bool" where
  "reads_only w w' \<longleftrightarrow> clock w' = clock w \<and> writes w' = writes w \<and> sent w' = sent w \<and>
     world.more w' = world.more w"

lemma reads_only_refl [simp]: "reads_only w w"
  by (simp add: reads_only_def)

lemma reads_only_trans: "reads_only a b \<Longrightarrow> reads_only b c \<Longrightarrow> reads_only a c"
  by (simp add: reads_only_def)

lemma reads_only_sys_read: "sys_read n w = (r, w') \<Longrightarrow> reads_only w w'"
  by (auto simp: sys_read_def reads_only_def split: list.splits read_res.splits if_splits)

lemma reads_only_sys_poll: "sys_poll n w = (r, w') \<Longrightarrow> reads_only w w'"
  by (auto simp: sys_poll_def Let_def reads_only_def split: list.splits)

lemma reads_only_now [simp]: "reads_only w (snd (now w))"
  by (simp add: now_def reads_only_def)

lemmas reads_only_steps = reads_only_sys_read reads_only_sys_poll reads_only_now

lemma reads_only_recv_exact: "reads_only w (snd (recv_exact n buf w))"
proof (induction n buf w rule: recv_exact.induct)
  case (1 n buf w)
  then show ?case
    by (subst recv_exact.simps)
      (auto split: prod.splits option.splits read_res.splits
        intro: reads_only_trans [OF reads_only_sys_read] dest: reads_only_sys_read)
qed

lemma reads_only_recv_exact_deadline: "reads_only w (snd (recv_exact_deadline n buf d w))"
proof (induction "length (polls w)" arbitrary: buf w rule: less_induct)
  case less
  let ?x = "cast_int (ms_of_ns (d - fst (now w)))"
  obtain p w1 where p: "sys_poll ?x (snd (now w)) = (p, w1)" by fastforce
  obtain r w2 where r: "sys_read (n - length buf) w1 = (r, w2)" by fastforce
  have w1: "reads_only w w1" by (rule reads_only_trans [OF reads_only_now reads_only_sys_poll [OF p]])
  have w2: "reads_only w w2" by (rule reads_only_trans [OF w1 reads_only_sys_read [OF r]])
  have m: "length (polls w1) < length (polls w)" if "p = Some q" for q
    using sys_poll_measure [of q w1 ?x "snd (now w)"] p that by simp
  have m2: "polls w2 = polls w1" using sys_read_polls r by metis
  have IH1: "reads_only w (snd (recv_exact_deadline n b d w1))" if "p = Some q" for b q
    using reads_only_trans [OF w1 less [OF m [OF that]]] .
  have IH2: "reads_only w (snd (recv_exact_deadline n b d w2))" if "p = Some q" for b q
    using reads_only_trans [OF w2 less] m [OF that] m2 by simp
  show ?case
    using IH1 IH2 w1 w2 p r
    by (subst recv_exact_deadline.simps)
      (auto simp: Let_def split: option.splits read_res.splits poll_res.splits)
qed

section \<open>Exact reads deliver the stream, however it is segmented\<close>

text \<open>One read from a script that still holds the bytes asked for: an interruption or a piece of the stream.\<close>

lemma sys_read_stream:
  assumes "n \<le> length (stream_of (reads w))" "0 < n"
  obtains (intr) rs where "sys_read n w = (Some RIntr, w\<lparr>reads := rs\<rparr>)" "stream_of rs = stream_of (reads w)" "length rs < length (reads w)"
  | (data) bs rs where "sys_read n w = (Some (RData bs), w\<lparr>reads := rs\<rparr>)" "bs \<noteq> []" "length bs \<le> n"
      "stream_of (reads w) = bs @ stream_of rs" "length rs < length (reads w) \<or> length bs = n \<and> length rs = length (reads w)"
proof -
  from assms obtain r rs where rs: "reads w = r # rs" by (cases "reads w") auto
  show thesis
  proof (cases r)
    case (RData bs)
    with assms rs have "bs \<noteq> []" by auto
    then show thesis
      using data [of bs rs] data [of "take n bs" "RData (drop n bs) # rs"] assms(2) rs RData
      by (cases "length bs \<le> n") (auto simp: sys_read_def)
  next
    case RIntr
    then show thesis using intr [of rs] rs by (simp add: sys_read_def)
  next
    case RErr
    then show thesis using assms rs by simp
  qed
qed

lemma recv_exact_stream:
  "n - length buf \<le> length (stream_of (reads w)) \<Longrightarrow> length buf \<le> n \<Longrightarrow>
   \<exists>rs. recv_exact n buf w = (Ret (buf @ take (n - length buf) (stream_of (reads w))), w\<lparr>reads := rs\<rparr>) \<and>
     stream_of rs = drop (n - length buf) (stream_of (reads w)) \<and> length rs \<le> length (reads w)"
proof (induction n buf w rule: recv_exact.induct)
  case (1 n buf w)
  show ?case
  proof (cases "length buf < n")
    case False
    with "1.prems" show ?thesis by (intro exI [of _ "reads w"]) (simp add: recv_exact.simps)
  next
    case True
    then have "0 < n - length buf" by simp
    with "1.prems"(1) show ?thesis
    proof (cases rule: sys_read_stream)
      case (intr rs)
      with "1.IH"(2) [OF True intr(1) [symmetric] refl refl] "1.prems" obtain rs' where
        "recv_exact n buf (w\<lparr>reads := rs\<rparr>) = (Ret (buf @ take (n - length buf) (stream_of rs)), w\<lparr>reads := rs'\<rparr>)"
        "stream_of rs' = drop (n - length buf) (stream_of rs)" "length rs' \<le> length rs" by auto
      with True intr show ?thesis by (intro exI [of _ rs']) (simp add: recv_exact.simps [of n buf])
    next
      case (data bs rs)
      have "n - length (buf @ bs) \<le> length (stream_of rs)" "length (buf @ bs) \<le> n" using "1.prems" data(3,4) True by auto
      with "1.IH"(1) [OF True data(1) [symmetric] refl refl data(2)] obtain rs' where
        "recv_exact n (buf @ bs) (w\<lparr>reads := rs\<rparr>) =
           (Ret (buf @ bs @ take (n - length (buf @ bs)) (stream_of rs)), w\<lparr>reads := rs'\<rparr>)"
        "stream_of rs' = drop (n - length (buf @ bs)) (stream_of rs)" "length rs' \<le> length rs" by auto
      with True data show ?thesis by (intro exI [of _ rs']) (auto simp: recv_exact.simps [of n buf])
    qed
  qed
qed

text \<open>
  With the deadline in the future at every clock reading, and a poll script that announces the
  data often enough, the bounded reader delivers the same bytes as the unbounded one. Each
  announcement is used for one read, and a read uses up its segment unless it ends the request.
\<close>

definition delivered :: "nat \<Rightarrow> bytes \<Rightarrow> nat \<Rightarrow> 'a world_scheme \<Rightarrow> bytes outcome \<times> 'a world_scheme \<Rightarrow> bool" where
  "delivered n buf k w r \<longleftrightarrow>
     fst r = Ret (buf @ take (n - length buf) (stream_of (reads w))) \<and>
     stream_of (reads (snd r)) = drop (n - length buf) (stream_of (reads w)) \<and>
     length (reads (snd r)) + k \<le> ready_count (polls (snd r)) \<and> calm (polls (snd r)) \<and>
     reads_only w (snd r)"

lemma calm_Cons [simp]: "calm (p # ps) \<longleftrightarrow> (p = PReady \<or> p = PIntr) \<and> calm ps"
  by (auto simp: calm_def)

lemma ready_count_simps [simp]:
  "ready_count [] = 0" "ready_count (PReady # ps) = Suc (ready_count ps)"
  "ready_count (PIntr # ps) = ready_count ps"
  by (simp_all add: ready_count_def)

lemma recv_exact_deadline_done [simp]:
  "n \<le> length buf \<Longrightarrow> recv_exact_deadline n buf d w = (Ret buf, w)"
  by (simp add: recv_exact_deadline.simps)

text \<open>The state after the clock reading and the poll of one round.\<close>

definition polled_state :: "int \<Rightarrow> 'a world_scheme \<Rightarrow> 'a world_scheme" where
  "polled_state d w = snd (sys_poll (cast_int (ms_of_ns (d - fst (now w)))) (snd (now w)))"

lemma polled_state_simps [simp]:
  "reads (polled_state d w) = reads w"
  "polls (polled_state d w) = tl (polls w)"
  "clock (polled_state d w) = clock w"
  "reads_only w (polled_state d w)"
  by (simp_all add: polled_state_def sys_poll_def now_def Let_def reads_only_def split: list.split)

lemma recv_exact_deadline_PIntr:
  "length buf < n \<Longrightarrow> clock w (ticks w) < d \<Longrightarrow> polls w = PIntr # ps \<Longrightarrow>
     recv_exact_deadline n buf d w = recv_exact_deadline n buf d (polled_state d w)"
  by (subst recv_exact_deadline.simps) (simp add: polled_state_def sys_poll_def now_def Let_def)

lemma recv_exact_deadline_PReady:
  "length buf < n \<Longrightarrow> clock w (ticks w) < d \<Longrightarrow> polls w = PReady # ps \<Longrightarrow>
     recv_exact_deadline n buf d w =
       (case sys_read (n - length buf) (polled_state d w) of
          (None, w2) \<Rightarrow> (Pending, w2)
        | (Some RIntr, w2) \<Rightarrow> recv_exact_deadline n buf d w2
        | (Some RErr, w2) \<Rightarrow> (Throw (VynkorIoError ''connection closed or recv error''), w2)
        | (Some (RData bs), w2) \<Rightarrow>
            if bs = [] then (Throw (VynkorIoError ''connection closed or recv error''), w2)
            else recv_exact_deadline n (buf @ bs) d w2)"
  by (subst recv_exact_deadline.simps) (simp add: polled_state_def sys_poll_def now_def Let_def)

lemma recv_exact_deadline_stream:
  assumes "n - length buf \<le> length (stream_of (reads w))" "length buf \<le> n"
    "\<And>i. clock w i < d" "calm (polls w)" "length (reads w) + k < ready_count (polls w)"
  shows "delivered n buf k w (recv_exact_deadline n buf d w)"
  using assms
proof (induction "length (polls w)" arbitrary: buf w rule: less_induct)
  case less
  from less.prems(5) obtain p ps where ps: "polls w = p # ps" by (cases "polls w") auto
  let ?w1 = "polled_state d w"
  consider "\<not> length buf < n" | "length buf < n" "p = PIntr" | "length buf < n" "polls w = PReady # ps"
    using less.prems(4) ps by auto
  then show ?case
  proof cases
    case 1
    with less.prems show ?thesis by (simp add: delivered_def)
  next
    case 2
    have "delivered n buf k ?w1 (recv_exact_deadline n buf d ?w1)"
      using less.prems 2 by (intro less.hyps) (simp_all add: ps)
    with 2 ps less.prems(3) reads_only_trans [OF polled_state_simps(4)] show ?thesis
      by (auto simp: delivered_def recv_exact_deadline_PIntr)
  next
    case 3
    note eq = recv_exact_deadline_PReady [OF 3(1) less.prems(3) 3(2)]
    have ro: "reads_only w (?w1\<lparr>reads := x\<rparr>)" for x
      using polled_state_simps(4) [of w d] by (simp add: reads_only_def)
    have "n - length buf \<le> length (stream_of (reads ?w1))" "0 < n - length buf" using less.prems(1) 3(1) by simp_all
    then show ?thesis
    proof (cases rule: sys_read_stream)
      case (intr rs)
      have "delivered n buf k (?w1\<lparr>reads := rs\<rparr>) (recv_exact_deadline n buf d (?w1\<lparr>reads := rs\<rparr>))"
        using less.prems 3 intr by (intro less.hyps) auto
      with eq intr reads_only_trans [OF ro] show ?thesis by (auto simp: delivered_def)
    next
      case (data bs rs)
      have "delivered n (buf @ bs) k (?w1\<lparr>reads := rs\<rparr>) (recv_exact_deadline n (buf @ bs) d (?w1\<lparr>reads := rs\<rparr>))"
      proof (cases "length rs < length (reads w)")
        case True
        then show ?thesis using less.prems 3 data by (intro less.hyps) auto
      next
        case False
        then show ?thesis using less.prems 3 data by (auto simp: delivered_def)
      qed
      with eq data reads_only_trans [OF ro] show ?thesis by (auto simp: delivered_def)
    qed
  qed
qed

section \<open>Whole frames\<close>

text \<open>
  The conditions under which the network does its part: the clock stays within the window that
  opens at its next reading, polls report no timeout and no failure, and they report readiness
  often enough for the segments in the script.
\<close>

definition punctual :: "int \<Rightarrow> 'a world_scheme \<Rightarrow> bool" where
  "punctual timeout_ms w \<longleftrightarrow> (\<forall>i. clock w i < clock w (ticks w) + timeout_ms * 1000000) \<and>
     calm (polls w) \<and> length (reads w) + 1 < ready_count (polls w)"

lemma has_mac_rest: "(if has_flag flags FLAG_MAC_PRESENT then MAC_TAG_LEN else 0) = (if bit flags 0 then 32 else 0)"
  by (simp add: MAC_TAG_LEN_def)

lemma read_frame_full_with_timeout_stream:
  assumes s: "stream_of (reads w) = fr @ rest" and fr: "fr = build_header flags t32 p @ p @ tag"
    and t: "length t32 = 32" and p: "length p \<le> MAX_PAYLOAD_SIZE"
    and tag: "length tag = (if bit flags 0 then 32 else 0)"
    and pu: "\<And>i. clock w i < clock w (ticks w) + T * 1000000" "calm (polls w)" "length (reads w) + 1 + k < ready_count (polls w)"
  obtains w' where "read_frame_full_with_timeout L key T w =
        (lift_result (bind_result (parse_frame_bytes L fr key) (\<lambda>(r, n). Inr r)), w')"
    "stream_of (reads w') = rest" "reads_only w w'" "calm (polls w')" "length (reads w') + k \<le> ready_count (polls w')"
proof -
  let ?d = "clock w (ticks w) + T * 1000000"
  have hl: "length (build_header flags t32 p) = 44" using t by simp
  have len: "length fr = 44 + length p + length tag" using fr hl by simp
  obtain rs where a: "recv_exact 1 [] w = (Ret (take 1 fr), w\<lparr>reads := rs\<rparr>)"
    "stream_of rs = drop 1 fr @ rest" "length rs \<le> length (reads w)"
    using recv_exact_stream [of 1 "[]" w] s len by auto
  define w1 where "w1 = snd (now (w\<lparr>reads := rs\<rparr>))"
  have w1: "reads w1 = rs" "polls w1 = polls w" "clock w1 = clock w" "reads_only w w1"
    "fst (now (w\<lparr>reads := rs\<rparr>)) = clock w (ticks w)"
    by (simp_all add: w1_def now_def reads_only_def)
  obtain h w2 where hw: "recv_exact_deadline 43 [] ?d w1 = (h, w2)" by fastforce
  have "delivered 43 [] (Suc k) w1 (h, w2)"
    unfolding hw [symmetric] using pu len a(2,3) w1 by (intro recv_exact_deadline_stream) auto
  then have b: "h = Ret (take 43 (drop 1 fr))" "stream_of (reads w2) = drop 44 fr @ rest"
    "length (reads w2) + Suc k \<le> ready_count (polls w2)" "calm (polls w2)" "reads_only w1 w2"
    using a(2) w1(1) len by (auto simp: delivered_def)
  have w2: "clock w2 = clock w" "reads_only w w2" using b(5) w1 reads_only_trans [OF w1(4) b(5)] by (auto simp: reads_only_def)
  obtain bd w3 where bw: "recv_exact_deadline (length p + length tag) [] ?d w2 = (bd, w3)" by fastforce
  have "delivered (length p + length tag) [] k w2 (bd, w3)"
    unfolding bw [symmetric] using pu len b w2 by (intro recv_exact_deadline_stream) auto
  then have c: "bd = Ret (p @ tag)" "stream_of (reads w3) = rest" "reads_only w2 w3"
      "calm (polls w3)" "length (reads w3) + k \<le> ready_count (polls w3)"
    using b(2) fr hl by (auto simp: delivered_def)
  have buf: "take 1 fr @ take 43 (drop 1 fr) = build_header flags t32 p"
    using take_add [of 1 43 fr] fr hl by simp
  have fields: "un16 (field (build_header flags t32 p) 2 2) = flags"
    "unat (un32 (field (build_header flags t32 p) 4 4)) = length p"
    using build_header_fields [OF t, where rest = "[]"] t p by (simp_all add: max_payload_word)
  have rest0: "recv_exact_deadline 0 [] ?d w2 = (Ret [], w2)" by simp
  have body: "(if 0 < length p + length tag then recv_exact_deadline (length p + length tag) [] ?d w2 else (Ret [], w2)) = (Ret (p @ tag), w3)"
    using bw c(1) rest0 by (auto split: if_splits)
  have hdr: "recv_exact_deadline (FRAME_HEADER_SIZE - 1) [] ?d w1 = (Ret (take 43 (drop 1 fr)), w2)"
    using hw b(1) by (simp add: FRAME_HEADER_SIZE_def)
  have np: "\<not> MAX_PAYLOAD_SIZE < length p" using p by simp
  have "read_frame_full_with_timeout L key T w =
      (lift_result (bind_result (parse_frame_bytes L fr key) (\<lambda>(r, n). Inr r)), w3)"
    unfolding read_frame_full_with_timeout_def a andthen_simps Let_def w1 w1_def [symmetric] hdr
      buf fields has_mac_rest tag [symmetric] if_not_P [OF np] body
    by (simp add: fr)
  then show thesis using that c reads_only_trans [OF w2(2) c(3)] by blast
qed

lemma read_frame_pack_budget:
  assumes "hmac_ok L" and "zstd_ok L" and "sendable flags key"
    and "pack_frame_raw L target flags payload key = Inr fr"
    and "stream_of (reads w) = fr @ rest"
    and "\<And>i. clock w i < clock w (ticks w) + T * 1000000" "calm (polls w)" "length (reads w) + 1 + k < ready_count (polls w)"
  obtains r w' where "read_frame_full_with_timeout L key T w = (Ret r, w')" "fr_payload r = payload"
    "fr_flags r = flags" "fr_raw_header r = build_header flags (target_to_bytes target) payload"
    "stream_of (reads w') = rest" "reads_only w w'" "calm (polls w')" "length (reads w') + k \<le> ready_count (polls w')"
proof -
  obtain wfl wp tag where fr: "fr = build_header wfl (target_to_bytes target) wp @ wp @ tag"
    "length wp \<le> MAX_PAYLOAD_SIZE" "length tag = (if bit wfl 0 then 32 else 0)"
    using pack_frame_raw_shape [OF assms(1,3,4)] by blast
  obtain r where r: "parse_frame_bytes L (fr @ []) key = Inr (r, length fr)" "fr_payload r = payload"
    "fr_flags r = flags" "fr_raw_header r = build_header flags (target_to_bytes target) payload"
    using uds.parse_pack_payload [of L flags key target payload fr "[]"] assms by metis
  obtain w' where "read_frame_full_with_timeout L key T w =
      (lift_result (bind_result (parse_frame_bytes L fr key) (\<lambda>(r, n). Inr r)), w')"
    "stream_of (reads w') = rest" "reads_only w w'" "calm (polls w')" "length (reads w') + k \<le> ready_count (polls w')"
    by (rule read_frame_full_with_timeout_stream [OF assms(5) fr(1) _ fr(2,3) assms(6-8), of L key]) auto
  with r show ?thesis by (intro that [of r w']) simp_all
qed

lemma read_frame_pack:
  assumes "hmac_ok L" and "zstd_ok L" and "sendable flags key"
    and "pack_frame_raw L target flags payload key = Inr fr"
    and "stream_of (reads w) = fr @ rest" and "punctual T w"
  shows "\<exists>r w'. read_frame_full_with_timeout L key T w = (Ret r, w') \<and> fr_payload r = payload \<and>
    fr_flags r = flags \<and> fr_raw_header r = build_header flags (target_to_bytes target) payload \<and>
    stream_of (reads w') = rest \<and> sent w' = sent w"
proof -
  from assms(6) have pu: "\<And>i. clock w i < clock w (ticks w) + T * 1000000" "calm (polls w)" "length (reads w) + 1 + 0 < ready_count (polls w)"
    by (simp_all add: punctual_def)
  show ?thesis
    by (rule read_frame_pack_budget [OF assms(1-5) pu]) (auto simp: reads_only_def)
qed

text \<open>A run of the demonstration library: a frame in two segments, with interruptions.\<close>

lemma demo_run:
  "\<exists>fr w. pack_frame_raw demo_lib ''kernel'' FLAG_MAC_PRESENT [1, 2, 3] (Some [7]) = Inr fr \<and>
     stream_of (reads (w :: world)) = fr @ [9] \<and> punctual FRAME_READ_TIMEOUT_MS w \<and> clock w = (\<lambda>i. 0)"
proof -
  have s: "sendable FLAG_MAC_PRESENT (Some [7])" by (simp add: sendable_def)
  obtain fr where fr: "pack_frame_raw demo_lib ''kernel'' FLAG_MAC_PRESENT [1, 2, 3] (Some [7]) = Inr fr"
    using demo_pack_total [of "[1, 2, 3]" "''kernel''" FLAG_MAC_PRESENT "Some [7]"] by (auto simp: MAX_PAYLOAD_SIZE_def)
  have "length (build_header f (target_to_bytes t) p) = 44" for f t p by simp
  then have "fr \<noteq> []"
    by (rule_tac pack_frame_raw_shape [OF demo_hmac_ok s fr]) (metis append_is_Nil_conv list.size(3) zero_neq_numeral)
  then obtain b bs where b: "fr = b # bs" by (cases fr) simp_all
  define w where "w = \<lparr>reads = [RIntr, RData [b], RIntr, RData (bs @ [9])],
      polls = [PReady, PIntr, PReady, PReady, PReady, PReady, PReady], polled = [], writes = [], sent = [],
      clock = (\<lambda>i. 0), ticks = 0\<rparr>"
  have w: "stream_of (reads w) = fr @ [9]" "punctual FRAME_READ_TIMEOUT_MS w" "clock w = (\<lambda>i. 0)"
    by (simp_all add: w_def b punctual_def calm_def ready_count_def FRAME_READ_TIMEOUT_MS_def)
  with fr show ?thesis by metis
qed

section \<open>Deadlines\<close>

lemma sys_read_ticks: "sys_read n w = (r, w') \<Longrightarrow> ticks w' = ticks w"
  by (auto simp: sys_read_def split: list.splits read_res.splits if_splits)

lemma sys_read_bound: "sys_read n w = (Some (RData bs), w') \<Longrightarrow> length bs \<le> n"
  by (auto simp: sys_read_def split: list.splits read_res.splits if_splits)

lemma polled_state_ticks [simp]: "ticks (polled_state d w) = Suc (ticks w)"
  by (simp add: polled_state_def sys_poll_def now_def Let_def split: list.split)

lemma polled_state_polled: "polled (polled_state d w) = polled w @ [cast_int (ms_of_ns (d - clock w (ticks w)))]"
  by (simp add: polled_state_def sys_poll_def now_def Let_def split: list.split)

lemma sys_read_polled: "sys_read n w = (r, w') \<Longrightarrow> polled w' = polled w \<and> clock w' = clock w"
  by (auto simp: sys_read_def split: list.splits read_res.splits if_splits)

lemma cast_int_small: "0 \<le> x \<Longrightarrow> x < 2147483648 \<Longrightarrow> cast_int x = x"
  by (simp add: cast_int_def signed_of_int signed_take_bit_int_eq_self)

lemma cast_int_large:
  assumes "2 ^ 31 \<le> x mod 2 ^ 32"
  shows "cast_int x = x mod 2 ^ 32 - 2 ^ 32"
proof -
  let ?m = "x mod 4294967296"
  have "(x + 2147483648) mod 4294967296 = (?m + 2147483648) mod 4294967296" by (simp only: mod_add_left_eq)
  also have "\<dots> = (?m + 2147483648 - 4294967296) mod 4294967296" by (simp only: minus_mod_self2)
  also have "\<dots> = ?m - 2147483648" using assms by (subst mod_pos_pos_trivial) simp_all
  finally have "signed_take_bit 31 x = ?m - 2 ^ 32"
    by (simp add: signed_take_bit_eq_take_bit_shift take_bit_eq_mod)
  then show ?thesis by (simp add: cast_int_def signed_of_int)
qed

text \<open>
  The timeouts handed to \<^verbatim>\<open>poll\<close>, each with the clock reading that precedes it (the readings
  count from \<open>i\<close>): the reading lies before the deadline, and the wait is what is left until the
  deadline in whole milliseconds.
\<close>

fun waits_until :: "int \<Rightarrow> (nat \<Rightarrow> int) \<Rightarrow> nat \<Rightarrow> int list \<Rightarrow> bool" where
  "waits_until d clk i [] \<longleftrightarrow> True"
| "waits_until d clk i (ms # mss) \<longleftrightarrow> clk i < d \<and> 0 \<le> ms \<and> clk i + ms * 1000000 \<le> d \<and> d < clk i + (ms + 1) * 1000000 \<and>
     waits_until d clk (Suc i) mss"

lemma waits_until_append:
  "waits_until d clk i (xs @ ys) \<longleftrightarrow> waits_until d clk i xs \<and> waits_until d clk (i + length xs) ys"
  by (induction xs arbitrary: i) simp_all

text \<open>The deadline is never so far away that the number of milliseconds left does not fit an \<^verbatim>\<open>int\<close>.\<close>

definition near :: "int \<Rightarrow> (nat \<Rightarrow> int) \<Rightarrow> nat \<Rightarrow> bool" where
  "near d clk i \<longleftrightarrow> (\<forall>j \<ge> i. d - clk j < 2147483648 * 1000000)"

lemma waits_until_one:
  assumes "near d clk i" "clk i < d"
  shows "waits_until d clk i [cast_int (ms_of_ns (d - clk i))]"
proof -
  have ms: "ms_of_ns (d - clk i) = (d - clk i) div 1000000" using assms(2) by (simp add: ms_of_ns_def)
  have "d - clk i < 2147483648 * 1000000" using assms(1) by (simp add: near_def)
  then have "0 \<le> (d - clk i) div 1000000" "(d - clk i) div 1000000 < 2147483648" using assms(2) by (auto simp: div_int_pos_iff)
  then have c: "cast_int (ms_of_ns (d - clk i)) = (d - clk i) div 1000000" by (simp add: ms cast_int_small)
  have "(d - clk i) div 1000000 * 1000000 + (d - clk i) mod 1000000 = d - clk i" by simp
  moreover have "0 \<le> (d - clk i) mod 1000000" "(d - clk i) mod 1000000 < 1000000" by simp_all
  ultimately have "clk i + (d - clk i) div 1000000 * 1000000 \<le> d" "d < clk i + ((d - clk i) div 1000000 + 1) * 1000000"
    by (simp_all add: distrib_right)
  with assms(2) \<open>0 \<le> (d - clk i) div 1000000\<close> show ?thesis by (simp only: c waits_until.simps simp_thms)
qed

text \<open>
  A round of the bounded read: the deadline has passed, or it has not and the loop polls; then it
  ends without a result, or goes on after a poll that reported readiness or an interruption.
\<close>

lemma recv_exact_deadline_round:
  assumes "recv_exact_deadline n buf d w = (r, w')" "length buf < n"
  obtains (late) "d \<le> clock w (ticks w)" "r = Throw VynkorFrameReadTimeout" "polled w' = polled w"
  | (over) "clock w (ticks w) < d" "polled w' = polled (polled_state d w)" "\<And>x. r \<noteq> Ret x"
  | (again) b v p where "clock w (ticks w) < d" "recv_exact_deadline n b d v = (r, w')" "length b \<le> n" "ticks v = Suc (ticks w)"
      "clock v = clock w" "polled v = polled (polled_state d w)" "polls w = p # polls v" "p = PReady \<or> p = PIntr"
proof (cases "clock w (ticks w) < d")
  case False
  with assms late show thesis
    by (subst (asm) recv_exact_deadline.simps) (auto simp: now_def Let_def)
next
  case t: True
  consider "polls w = []" | ps where "polls w = PErr # ps \<or> polls w = PTimeout # ps"
    | ps where "polls w = PIntr # ps" | ps where "polls w = PReady # ps"
    by (metis neq_Nil_conv poll_res.exhaust)
  then show thesis
  proof cases
    case 3
    with assms t again [of buf "polled_state d w"] show thesis by (simp add: recv_exact_deadline_PIntr)
  next
    case (4 ps)
    obtain q v where q: "sys_read (n - length buf) (polled_state d w) = (q, v)" by fastforce
    have v: "ticks v = Suc (ticks w)" "clock v = clock w" "polled v = polled (polled_state d w)" "polls w = PReady # polls v"
      using sys_read_ticks [OF q] sys_read_polls [OF q [symmetric]] sys_read_polled [OF q] 4 by simp_all
    have b: "length (buf @ bs) \<le> n" if "q = Some (RData bs)" for bs
      using sys_read_bound [of "n - length buf" "polled_state d w" bs v] q that assms(2) by simp
    from assms(1) 4 q t assms(2) consider "q = Some RIntr" "recv_exact_deadline n buf d v = (r, w')"
      | bs where "q = Some (RData bs)" "recv_exact_deadline n (buf @ bs) d v = (r, w')" | "w' = v" "\<And>x. r \<noteq> Ret x"
      by (auto simp: recv_exact_deadline_PReady split: option.splits read_res.splits if_splits)
    then show thesis
    proof cases
      case 1
      with again [OF t _ _ v] assms(2) show thesis by simp
    next
      case (2 bs)
      with again [OF t _ _ v] b show thesis by blast
    next
      case 3
      with over [OF t] v(3) show thesis by simp
    qed
  qed (use assms t over in \<open>auto simp: recv_exact_deadline.simps [of n buf] polled_state_def sys_poll_def now_def Let_def\<close>)
qed

text \<open>
  What a bounded read does with its time, whatever its outcome: the timeouts it polled with, and
  for a read that succeeded, one clock reading and one successful poll for each of them.
\<close>

definition timed :: "int \<Rightarrow> 'a world_scheme \<Rightarrow> 'b outcome \<Rightarrow> 'a world_scheme \<Rightarrow> bool" where
  "timed d w r w' \<longleftrightarrow> (\<exists>waits. polled w' = polled w @ waits \<and> waits_until d (clock w) (ticks w) waits \<and>
     (\<forall>x. r = Ret x \<longrightarrow> ticks w' = ticks w + length waits \<and>
        (\<exists>ps. polls w = ps @ polls w' \<and> length ps = length waits \<and> calm ps)))"

lemma timed_refl: "timed d w r w"
  by (simp add: timed_def calm_def)

lemma timed_weaken:
  assumes "timed d w r w'" "\<And>x. q = Ret x \<Longrightarrow> \<exists>y. r = Ret y"
  shows "timed d w q w'"
proof -
  obtain waits where "polled w' = polled w @ waits" "waits_until d (clock w) (ticks w) waits"
    "\<And>x. r = Ret x \<Longrightarrow> ticks w' = ticks w + length waits \<and> (\<exists>ps. polls w = ps @ polls w' \<and> length ps = length waits \<and> calm ps)"
    using assms(1) by (auto simp: timed_def)
  with assms(2) show ?thesis unfolding timed_def by (intro exI [of _ waits]) auto
qed

lemma timed_trans:
  assumes "timed d w (Ret x) v" "clock v = clock w" "timed d v r w'"
  shows "timed d w r w'"
proof -
  obtain xs ps where xs: "polled v = polled w @ xs" "waits_until d (clock w) (ticks w) xs" "ticks v = ticks w + length xs"
    "polls w = ps @ polls v" "length ps = length xs" "calm ps" using assms(1) by (auto simp: timed_def)
  obtain ys where ys: "polled w' = polled v @ ys" "waits_until d (clock w) (ticks v) ys"
    "\<And>x. r = Ret x \<Longrightarrow> ticks w' = ticks v + length ys \<and> (\<exists>qs. polls v = qs @ polls w' \<and> length qs = length ys \<and> calm qs)"
    using assms(2,3) by (auto simp: timed_def)
  have "ticks w' = ticks w + length (xs @ ys) \<and> (\<exists>qs. polls w = qs @ polls w' \<and> length qs = length (xs @ ys) \<and> calm qs)" if r: "r = Ret z" for z
  proof -
    obtain qs where qs: "polls v = qs @ polls w'" "length qs = length ys" "calm qs" using ys(3) [OF r] by blast
    have "polls w = (ps @ qs) @ polls w'" "length (ps @ qs) = length (xs @ ys)" "calm (ps @ qs)" using xs qs by (simp_all add: calm_def)
    then show ?thesis using ys(3) [OF r] xs(3) by (intro conjI exI [of _ "ps @ qs"]) simp_all
  qed
  with xs ys show ?thesis unfolding timed_def by (intro exI [of _ "xs @ ys"]) (simp add: waits_until_append)
qed

lemma recv_exact_deadline_timed:
  assumes "recv_exact_deadline n buf d w = (r, w')" "near d (clock w) (ticks w)"
  shows "timed d w r w'"
  using assms
proof (induction "length (polls w)" arbitrary: buf w rule: less_induct)
  case less
  show ?case
  proof (cases "length buf < n")
    case False
    with less.prems show ?thesis by (auto simp: timed_refl)
  next
    case True
    with less.prems(1) show ?thesis
    proof (cases rule: recv_exact_deadline_round)
      case late
      then show ?thesis by (simp add: timed_def)
    next
      case over
      with waits_until_one [OF less.prems(2) over(1)] show ?thesis
        unfolding timed_def polled_state_polled by (intro exI conjI) (auto simp: polled_state_polled)
    next
      case (again b v p)
      have near: "near d (clock v) (ticks v)" using less.prems(2) again(4,5) by (simp add: near_def)
      have "timed d v r w'" by (rule less.hyps [OF _ again(2) near]) (simp add: again(7))
      moreover have "timed d w (Ret ([] :: bytes)) v" using waits_until_one [OF less.prems(2) again(1)] again
        unfolding timed_def by (intro exI [of _ "[cast_int (ms_of_ns (d - clock w (ticks w)))]"]) (auto simp: polled_state_polled calm_def)
      ultimately show ?thesis by (rule timed_trans [OF _ again(5), rotated])
    qed
  qed
qed

lemma recv_exact_ticks: "ticks (snd (recv_exact n buf w)) = ticks w"
proof (induction n buf w rule: recv_exact.induct)
  case (1 n buf w)
  then show ?case
    by (subst recv_exact.simps) (auto split: prod.splits option.splits read_res.splits dest: sys_read_ticks)
qed

lemma recv_exact_polled: "polls (snd (recv_exact n buf w)) = polls w \<and> polled (snd (recv_exact n buf w)) = polled w"
proof (induction n buf w rule: recv_exact.induct)
  case (1 n buf w)
  have same: "polls w' = polls w \<and> polled w' = polled w" if "sys_read (n - length buf) w = (r, w')" for r w'
    using sys_read_polls [OF that [symmetric]] sys_read_polled [OF that] by simp
  with 1 show ?case
    unfolding recv_exact.simps [of n buf w] by (auto split: prod.splits option.splits read_res.splits)
qed

lemma andthen_pure_end:
  "andthen p (\<lambda>x w. (g x, w)) = (r, w') \<Longrightarrow> w' = snd p \<and> (\<forall>y. r = Ret y \<longrightarrow> (\<exists>x. fst p = Ret x))"
  by (cases p; cases "fst p") auto

text \<open>After the header, a read is over, or it reads the body and ends without touching the state.\<close>

lemma read_frame_body:
  assumes b: "recv_exact 1 [] w = (Ret b, w1)"
    and h: "recv_exact_deadline (FRAME_HEADER_SIZE - 1) [] (fst (now w1) + T * 1000000) (snd (now w1)) = (Ret h, w3)"
    and r: "read_frame_full_with_timeout L key T w = (r, w')"
  shows "\<exists>n g. w' = w3 \<or> andthen (recv_exact_deadline n [] (fst (now w1) + T * 1000000) w3) (\<lambda>x w. (g x, w)) = (r, w')"
proof -
  let ?len = "unat (un32 (field (b @ h) 4 4))"
  let ?rest = "?len + (if has_flag (un16 (field (b @ h) 2 2)) FLAG_MAC_PRESENT then MAC_TAG_LEN else 0)"
  let ?fin = "\<lambda>body. lift_result (bind_result (parse_frame_bytes L ((b @ h) @ body) key) (\<lambda>(r, n). Inr r))"
  have eq: "(if ?len > MAX_PAYLOAD_SIZE then (Throw (VynkorPayloadTooLarge ?len), w3)
      else andthen (if ?rest > 0 then recv_exact_deadline ?rest [] (fst (now w1) + T * 1000000) w3 else (Ret [], w3)) (\<lambda>body w. (?fin body, w))) = (r, w')"
    using r unfolding read_frame_full_with_timeout_def b andthen_simps Let_def h by (simp only:)
  show ?thesis
  proof (cases "?len > MAX_PAYLOAD_SIZE \<or> ?rest = 0")
    case True
    then have "w' = w3" using eq by (elim disjE) (simp_all only: if_True if_False less_irrefl andthen_simps prod.inject split: if_splits)
    then show ?thesis by blast
  next
    case False
    then have "andthen (recv_exact_deadline ?rest [] (fst (now w1) + T * 1000000) w3) (\<lambda>x w. (?fin x, w)) = (r, w')"
      using eq by (simp only: de_Morgan_disj if_False if_True neq0_conv)
    then show ?thesis by (intro exI disjI2)
  qed
qed

section \<open>Writes\<close>

lemma write_all_sent:
  "write_all frame w = (r, w') \<Longrightarrow> \<exists>k \<le> length frame. sent w' = sent w @ take k frame \<and>
     (r = Ret () \<longrightarrow> k = length frame) \<and> reads w' = reads w \<and> polls w' = polls w"
proof (induction frame w rule: write_all.induct)
  case (1 frame w)
  consider "frame = []" | "frame \<noteq> []" "writes w = []" | xs where "frame \<noteq> []" "writes w = WErr # xs \<or> writes w = WCount 0 # xs"
    | xs where "frame \<noteq> []" "writes w = WIntr # xs" | c xs where "frame \<noteq> []" "writes w = WCount c # xs" "c \<noteq> 0"
    by (cases "writes w"; cases "hd (writes w)") auto
  then show ?case
  proof cases
    case (5 c xs)
    let ?w = "w\<lparr>writes := xs, sent := sent w @ take c frame\<rparr>"
    define k where "k = min c (length frame)"
    have s: "sys_write frame w = (Some (WCount k), ?w)" "k \<noteq> 0" "take c frame = take k frame"
      using 5 by (auto simp: sys_write_def k_def min_def)
    then have "write_all (drop k frame) ?w = (r, w')" using "1.prems" 5(1) by (simp add: write_all.simps [of frame w])
    with "1.IH"(1) [OF 5(1) s(1) [symmetric] refl refl s(2)] obtain j where "j \<le> length (drop k frame)"
      "sent w' = sent w @ take k frame @ take j (drop k frame)" "r = Ret () \<longrightarrow> j = length (drop k frame)" "reads w' = reads w" "polls w' = polls w"
      using s(3) by auto
    then show ?thesis by (intro exI [of _ "k + j"]) (auto simp: take_add k_def)
  qed (use "1.prems" "1.IH"(2) in \<open>auto simp: write_all.simps [of frame w] write_all.simps [of "[]"] sys_write_def split: if_splits\<close>)
qed

lemma write_all_more: "world.more (snd (write_all frame w)) = world.more w"
proof (induction "length (writes w)" arbitrary: frame w rule: less_induct)
  case less
  obtain r w' where r: "sys_write frame w = (r, w')" by fastforce
  have m: "world.more w' = world.more w"
    using r by (auto simp: sys_write_def split: list.splits write_res.splits)
  have IH: "r = Some q \<Longrightarrow> world.more (snd (write_all fr w')) = world.more w" for q fr
    using less [of w' fr] sys_write_measure [of q w' frame w] r m by simp
  show ?case
    using m IH r by (subst write_all.simps) (auto split: option.splits write_res.splits)
qed

text \<open>A socket that accepts at least one byte whenever it accepts a call takes the whole frame.\<close>

definition accepting :: "nat \<Rightarrow> write_res list \<Rightarrow> bool" where
  "accepting n ws \<longleftrightarrow> (\<forall>x \<in> set ws. x = WIntr \<or> (\<exists>c > 0. x = WCount c)) \<and>
     n \<le> length (filter (\<lambda>x. x \<noteq> WIntr) ws)"

lemma accepting_less: "accepting n ws \<Longrightarrow> m \<le> n \<Longrightarrow> accepting m ws"
  by (simp add: accepting_def)

lemma write_all_accepting:
  "accepting (length frame + m) (writes w) \<Longrightarrow> \<exists>w'. write_all frame w = (Ret (), w') \<and> accepting m (writes w')"
proof (induction frame w rule: write_all.induct)
  case (1 frame w)
  show ?case
  proof (cases "frame = []")
    case True
    with "1.prems" show ?thesis by (simp add: write_all.simps)
  next
    case False
    with "1.prems" obtain x xs where xs: "writes w = x # xs" by (cases "writes w") (auto simp: accepting_def)
    from "1.prems" xs consider "x = WIntr" | k where "x = WCount k" "0 < k" by (auto simp: accepting_def)
    then show ?thesis
    proof cases
      case 1
      then have "accepting (length frame + m) xs" using "1.prems" xs by (simp add: accepting_def)
      with 1 "1.IH"(2) False xs show ?thesis by (simp add: write_all.simps [of frame w] sys_write_def)
    next
      case (2 k)
      then have "accepting (length (drop (min k (length frame)) frame) + m) xs"
        using "1.prems" xs False by (cases frame) (auto simp: accepting_def)
      moreover have "min k (length frame) \<noteq> 0" using 2 False by simp
      ultimately show ?thesis using 2 "1.IH"(1) False xs by (auto simp: write_all.simps [of frame w] sys_write_def)
    qed
  qed
qed

section \<open>Properties\<close>

text \<open>
  A frame that a sender wrote arrives whole. Whatever the segmentation of the byte stream and
  wherever system calls are interrupted, \<open>read_frame_full\<close> returns the sender's flags and payload,
  leaves exactly the bytes that follow the frame for the next call, and writes nothing.
\<close>

lemma read_frame_full_delivers:
  assumes "hmac_ok L" and "zstd_ok L" and "sendable flags key"
    and "pack_frame_raw L target flags payload key = Inr fr"
    and "stream_of (reads w) = fr @ rest" and "punctual FRAME_READ_TIMEOUT_MS w"
  shows "\<exists>r w'. read_frame_full L key w = (Ret r, w') \<and> fr_payload r = payload \<and> fr_flags r = flags \<and>
    fr_raw_header r = build_header flags (target_to_bytes target) payload \<and>
    stream_of (reads w') = rest \<and> sent w' = sent w"
  using read_frame_pack [OF assms] by (auto simp: read_frame_full_def)



text \<open>
  C17: the timeout arithmetic of \<open>read_frame_full_with_deadline\<close> overflows for far deadlines. When
  the number of milliseconds left is, modulo \<open>2^32\<close>, at least \<open>2^31\<close> at its first two clock
  readings (the first such range is from 24.8 to 49.7 days), the timeout handed to \<^verbatim>\<open>poll\<close> is
  negative (an unbounded wait), and as soon as the first byte of a frame arrives the read fails
  with \<open>VynkorFrameReadTimeout\<close>, although at least \<open>2^31\<close> milliseconds were left.
\<close>

theorem far_deadline_fails:
  assumes "mono (clock w)" and "clock w (Suc (ticks w)) < d"
    and "2 ^ 31 \<le> (d - clock w (ticks w)) div 1000000 mod 2 ^ 32"
    and "2 ^ 31 \<le> (d - clock w (Suc (ticks w))) div 1000000 mod 2 ^ 32"
    and "polls w = PReady # ps" and "reads w = RData (b # bs) # rs"
  shows "\<exists>w' t. read_frame_full_with_deadline L key d w = (Throw VynkorFrameReadTimeout, w') \<and>
    polled w' = polled w @ [t] \<and> t < 0 \<and> 2 ^ 31 \<le> (d - clock w (Suc (ticks w))) div 1000000"
proof -
  let ?m = "\<lambda>i. (d - clock w i) div 1000000" let ?i = "ticks w" let ?t = "\<lambda>i. ?m i mod 2 ^ 32 - 2 ^ 32"
  have step: "clock w i \<le> clock w (Suc i)" for i using assms(1) by (simp add: monoD)
  have before: "clock w ?i < d" using step [of ?i] assms(2) by simp
  have ms: "ms_of_ns (d - clock w ?i) = ?m ?i" "ms_of_ns (d - clock w (Suc ?i)) = ?m (Suc ?i)"
    using before assms(2) by (simp_all add: ms_of_ns_def)
  have cast: "cast_int (?m ?i) = ?t ?i" "cast_int (?m (Suc ?i)) = ?t (Suc ?i)"
    using assms(3,4) by (simp_all only: cast_int_large)
  have neg: "?t i < 0" for i by simp
  have "0 \<le> ?m (Suc ?i)" using assms(2) by (simp add: div_int_pos_iff)
  then have far: "2 ^ 31 \<le> ?m (Suc ?i)" using assms(4) zmod_le_nonneg_dividend order_trans by blast
  define w2 where "w2 = snd (now (snd (sys_poll (?t ?i) (snd (now w)))))"
  have w2: "reads w2 = RData (b # bs) # rs" "clock w2 = clock w" "polled w2 = polled w @ [?t ?i]" "ticks w2 = Suc (Suc ?i)"
    using assms(5,6) by (simp_all add: w2_def now_def sys_poll_def Let_def)
  have "read_frame_full_with_deadline L key d w = read_frame_full_with_timeout L key (?t (Suc ?i)) w2"
    using assms(5) before far cast ms
    by (simp add: read_frame_full_with_deadline.simps [of L key d w] now_def sys_poll_def Let_def w2_def)
  moreover obtain w3 where w3: "recv_exact 1 [] w2 = (Ret [b], w3)" "clock w3 = clock w" "polled w3 = polled w2" "ticks w3 = ticks w2"
    using w2 by (cases bs) (auto simp: recv_exact.simps [of "Suc 0"] sys_read_def)
  moreover have "clock w (Suc (Suc ?i)) + ?t (Suc ?i) * 1000000 \<le> clock w (Suc (Suc (Suc ?i)))"
    using step [of "Suc (Suc ?i)"] mult_less_0_iff [of "?t (Suc ?i)" 1000000] neg [of "Suc ?i"] by linarith
  ultimately have "\<exists>w'. read_frame_full_with_deadline L key d w = (Throw VynkorFrameReadTimeout, w') \<and> polled w' = polled w @ [?t ?i]"
    using w2 by (simp add: read_frame_full_with_timeout_def now_def Let_def recv_exact_deadline.simps FRAME_HEADER_SIZE_def)
  with neg [of ?i] far show ?thesis by blast
qed

text \<open>Witness: a deadline 30 days away, the frame's first byte already there.\<close>

theorem far_deadline_fails_witness:
  "\<exists>w'. read_frame_full_with_deadline demo_lib None 2592000000000000
     \<lparr>reads = [RData [0x56]], polls = [PReady], polled = [], writes = [], sent = [], clock = (\<lambda>i. 1000 * int i), ticks = 0\<rparr>
     = (Throw VynkorFrameReadTimeout, w')"
proof -
  have m: "mono (\<lambda>i. 1000 * int i)" by (simp add: mono_def)
  show ?thesis
    using far_deadline_fails [of "\<lparr>reads = [RData [0x56]], polls = [PReady], polled = [], writes = [], sent = [],
      clock = (\<lambda>i. 1000 * int i), ticks = 0\<rparr>" 2592000000000000 "[]" "0x56" "[]" "[]" demo_lib None] m by auto
qed

text \<open>
  \<open>write_all\<close> hands the frame to the socket in order and without loss or repetition, over
  partial and interrupted writes: what was sent is a prefix of the frame, the whole frame when
  it returns, and it does return when the socket keeps accepting bytes.
\<close>

lemma write_all_exact:
  "(\<forall>r w'. write_all frame w = (r, w') \<longrightarrow> (\<exists>k \<le> length frame. sent w' = sent w @ take k frame \<and>
      (r = Ret () \<longrightarrow> sent w' = sent w @ frame) \<and> reads w' = reads w)) \<and>
   (accepting (length frame) (writes w) \<longrightarrow> fst (write_all frame w) = Ret ())"
  using write_all_sent [of frame w] write_all_accepting [of frame 0 w] by fastforce

end
