(* ===== verification/Vyn_Fuzz.thy ===== *)
theory Vyn_Fuzz
  imports Vyn_Frame_IO
begin

text \<open>
  Arbitrary input. The frame reader over a descriptor and the frame parser over a buffer agree on
  every byte string, malformed ones included, however the bytes arrive; and the fuzz target of
  \<^verbatim>\<open>fuzz/fuzz_framing.cpp\<close>, which feeds arbitrary bytes to \<open>read_frame\<close> and
  \<open>read_frame_full\<close> through a memory file, returns 0 for every input.
\<close>

section \<open>Streams that end\<close>

text \<open>A read script in which the end of the stream or a failure comes up.\<close>

definition ends :: "read_res list \<Rightarrow> bool" where
  "ends rs \<longleftrightarrow> RData [] \<in> set rs \<or> RErr \<in> set rs"

lemma ends_Cons [simp]: "ends (RIntr # rs) = ends rs" "ends (RErr # rs)" "bs \<noteq> [] \<Longrightarrow> ends (RData bs # rs) = ends rs" "ends (RData [] # rs)" "\<not> ends []"
  by (auto simp: ends_def)

lemma sys_read_ends:
  assumes "ends (reads w)" "0 < n"
  obtains (data) bs w' where "sys_read n w = (Some (RData bs), w')" "bs \<noteq> []" "ends (reads w')" "length (reads w') \<le> length (reads w)"
      "length bs < n \<Longrightarrow> length (reads w') < length (reads w)" "polls w' = polls w" "clock w' = clock w" "stream_of (reads w) = bs @ stream_of (reads w')"
  | (intr) w' where "sys_read n w = (Some RIntr, w')" "ends (reads w')" "length (reads w') < length (reads w)" "polls w' = polls w" "clock w' = clock w"
      "stream_of (reads w) = stream_of (reads w')"
  | (eof) w' where "sys_read n w = (Some (RData []), w')" "stream_of (reads w) = []"
  | (err) w' where "sys_read n w = (Some RErr, w')" "stream_of (reads w) = []"
proof (cases "reads w")
  case Nil
  with assms(1) show thesis by simp
next
  case (Cons x rs)
  show thesis
  proof (cases x)
    case (RData bs)
    show thesis
    proof (cases "bs = []")
      case True
      then show thesis using Cons RData by (intro eof) (auto simp: sys_read_def)
    next
      case ne: False
      show thesis
      proof (cases "length bs \<le> n")
        case True
        then show thesis using assms Cons RData ne by (intro data [of bs "w\<lparr>reads := rs\<rparr>"]) (auto simp: sys_read_def)
      next
        case False
        then show thesis using assms Cons RData ne
          by (intro data [of "take n bs" "w\<lparr>reads := RData (drop n bs) # rs\<rparr>"]) (auto simp: sys_read_def)
      qed
    qed
  next
    case RIntr
    then show thesis using assms Cons by (intro intr [of "w\<lparr>reads := rs\<rparr>"]) (auto simp: sys_read_def)
  next
    case RErr
    then show thesis using Cons by (intro err) (auto simp: sys_read_def)
  qed
qed

section \<open>Exact reads of a stream that ends\<close>

text \<open>
  The outcome of an exact read: never blocked; the bytes asked for when the stream has them and the
  connection-closed error when it is too short. A bounded read may also time out.
\<close>

definition settled :: "nat \<Rightarrow> bytes \<Rightarrow> bool \<Rightarrow> nat \<Rightarrow> 'a world_scheme \<Rightarrow> bytes outcome \<times> 'a world_scheme \<Rightarrow> bool" where
  "settled n buf late k w r \<longleftrightarrow> (case r of
      (Ret b, w') \<Rightarrow> n - length buf \<le> length (stream_of (reads w)) \<and> b = buf @ take (n - length buf) (stream_of (reads w)) \<and>
        stream_of (reads w') = drop (n - length buf) (stream_of (reads w)) \<and> ends (reads w') \<and> clock w' = clock w \<and>
        calm (polls w') \<and> length (reads w') + k \<le> ready_count (polls w')
    | (Throw e, w') \<Rightarrow> (late \<and> e = VynkorFrameReadTimeout) \<or>
        (length (stream_of (reads w)) < n - length buf \<and> e = VynkorIoError ''connection closed or recv error'')
    | (Pending, w') \<Rightarrow> False)"

lemma settled_done: "length buf \<le> n \<Longrightarrow> \<not> length buf < n \<Longrightarrow> ends (reads w) \<Longrightarrow> calm (polls w) \<Longrightarrow>
    length (reads w) + k \<le> ready_count (polls w) \<Longrightarrow> settled n buf late k w (Ret buf, w)"
  by (simp add: settled_def)

lemma settled_data:
  assumes "settled n (buf @ bs) late k w' r" "length buf + length bs \<le> n" "clock w' = clock w" "stream_of (reads w) = bs @ stream_of (reads w')"
  shows "settled n buf late k w r"
proof -
  have n: "n - length buf = length bs + (n - length (buf @ bs))" using assms(2) by simp
  show ?thesis using assms(1,3,4) unfolding settled_def n by (auto split: outcome.splits)
qed

lemma settled_skip:
  "settled n buf late k w' r \<Longrightarrow> clock w' = clock w \<Longrightarrow> stream_of (reads w) = stream_of (reads w') \<Longrightarrow> settled n buf late k w r"
  by (auto simp: settled_def split: outcome.splits)

lemma sys_read_length: "sys_read n w = (Some (RData bs), w') \<Longrightarrow> length bs \<le> n"
  by (auto simp: sys_read_def split: list.splits read_res.splits if_splits)

lemma recv_exact_settles:
  "ends (reads w) \<Longrightarrow> calm (polls w) \<Longrightarrow> length (reads w) + k \<le> ready_count (polls w) \<Longrightarrow> length buf \<le> n \<Longrightarrow>
   settled n buf False k w (recv_exact n buf w)"
proof (induction n buf w rule: recv_exact.induct)
  case (1 n buf w)
  show ?case
  proof (cases "length buf < n")
    case False
    with "1.prems" show ?thesis by (simp add: recv_exact.simps [of n buf w] settled_done)
  next
    case True
    then have pos: "0 < n - length buf" by simp
    from "1.prems"(1) pos show ?thesis
    proof (cases rule: sys_read_ends)
      case (data bs w')
      have l: "length buf + length bs \<le> n" using sys_read_length [OF data(1)] True by simp
      have "settled n (buf @ bs) False k w' (recv_exact n (buf @ bs) w')"
        using "1.IH"(1) [OF True data(1) [symmetric] refl refl data(2)] data l "1.prems" by simp
      from settled_data [OF this l data(7,8)] True data(1,2) show ?thesis by (simp add: recv_exact.simps [of n buf w])
    next
      case (intr w')
      have "settled n buf False k w' (recv_exact n buf w')"
        using "1.IH"(2) [OF True intr(1) [symmetric] refl refl] intr "1.prems" by simp
      from settled_skip [OF this intr(5,6)] True intr(1) show ?thesis by (simp add: recv_exact.simps [of n buf w])
    next
      case (eof w')
      with True show ?thesis by (simp add: recv_exact.simps [of n buf w] settled_def)
    next
      case (err w')
      with True show ?thesis by (simp add: recv_exact.simps [of n buf w] settled_def)
    qed
  qed
qed

text \<open>One round of the bounded read after its poll, given what the later rounds do.\<close>

lemma settled_read:
  fixes w :: "'a world_scheme"
  assumes e: "ends (reads w)" and l: "length buf < n" and c: "calm (polls w)" and rc: "length (reads w) + k \<le> ready_count (polls w)"
    and later: "\<And>b (w' :: 'a world_scheme). polls w' = polls w \<Longrightarrow> clock w' = clock w \<Longrightarrow> ends (reads w') \<Longrightarrow> length (reads w') < length (reads w) \<Longrightarrow>
      length b \<le> n \<Longrightarrow> settled n b late k w' (recv_exact_deadline n b d w')"
  shows "settled n buf late k w (case sys_read (n - length buf) w of
          (None, w2) \<Rightarrow> (Pending, w2)
        | (Some RIntr, w2) \<Rightarrow> recv_exact_deadline n buf d w2
        | (Some RErr, w2) \<Rightarrow> (Throw (VynkorIoError ''connection closed or recv error''), w2)
        | (Some (RData bs), w2) \<Rightarrow>
            if bs = [] then (Throw (VynkorIoError ''connection closed or recv error''), w2)
            else recv_exact_deadline n (buf @ bs) d w2)"
proof -
  have pos: "0 < n - length buf" using l by simp
  from e pos show ?thesis
  proof (cases rule: sys_read_ends)
    case (data bs w')
    have le: "length buf + length bs \<le> n" using sys_read_length [OF data(1)] l by simp
    have "settled n (buf @ bs) late k w' (recv_exact_deadline n (buf @ bs) d w')"
    proof (cases "length bs < n - length buf")
      case True
      with data le show ?thesis by (intro later) auto
    next
      case False
      with le have "length (buf @ bs) = n" by simp
      with data c rc show ?thesis by (simp add: settled_done)
    qed
    from settled_data [OF this le, of w] data show ?thesis by simp
  next
    case (intr w')
    then have "settled n buf late k w' (recv_exact_deadline n buf d w')" using l by (intro later) auto
    from settled_skip [OF this, of w] intr show ?thesis by simp
  qed (use pos in \<open>simp_all add: settled_def\<close>)
qed

lemma recv_exact_deadline_settles:
  fixes w :: "'a world_scheme"
  assumes "ends (reads w)" "calm (polls w)" "length (reads w) + k < ready_count (polls w)" "length buf \<le> n"
    and "late \<or> (\<forall>i. clock w i < d)"
  shows "settled n buf late k w (recv_exact_deadline n buf d w)"
  using assms
proof (induction "length (polls w)" arbitrary: buf w rule: less_induct)
  case less
  obtain p ps where ps: "polls w = p # ps" using less.prems(3) by (cases "polls w") auto
  let ?w1 = "polled_state d w"
  consider (over) "\<not> length buf < n" | (late) "length buf < n" "\<not> clock w (ticks w) < d" | (intr) "length buf < n" "clock w (ticks w) < d" "p = PIntr"
    | (ready) "length buf < n" "clock w (ticks w) < d" "p = PReady"
    using less.prems(2) ps by auto
  then show ?case
  proof cases
    case over
    with less.prems show ?thesis by (simp add: settled_done)
  next
    case late
    then have "recv_exact_deadline n buf d w = (Throw VynkorFrameReadTimeout, snd (now w))"
      by (subst recv_exact_deadline.simps) (simp add: now_def Let_def)
    with late(2) less.prems(5) show ?thesis by (auto simp: settled_def)
  next
    case intr
    have "settled n buf late k ?w1 (recv_exact_deadline n buf d ?w1)"
      using less.prems intr by (intro less.hyps) (simp_all add: ps)
    from settled_skip [OF this] intr ps show ?thesis by (simp add: recv_exact_deadline_PIntr)
  next
    case ready
    have "settled n buf late k ?w1 (recv_exact_deadline n buf d w)"
      unfolding recv_exact_deadline_PReady [OF ready(1,2) ps [unfolded ready(3)]]
    proof (rule settled_read)
      fix b :: bytes and w' :: "'a world_scheme"
      assume "polls w' = polls ?w1" "clock w' = clock ?w1" "ends (reads w')" "length (reads w') < length (reads ?w1)" "length b \<le> n"
      with less.prems ready ps show "settled n b late k w' (recv_exact_deadline n b d w')" by (intro less.hyps) simp_all
    qed (use less.prems ready ps in simp_all)
    from settled_skip [OF this] show ?thesis by simp
  qed
qed

section \<open>Whole frames\<close>

text \<open>The parser looks at nothing behind the frame.\<close>

definition frame_size :: "bytes \<Rightarrow> nat" where
  "frame_size buf = 44 + unat (un32 (field buf 4 4)) + (if bit (un16 (field buf 2 2)) 0 then 32 else 0)"

lemma parse_frame_bytes_take:
  assumes "frame_size buf \<le> length buf"
  shows "parse_frame_bytes L (take (frame_size buf) buf) key = parse_frame_bytes L buf key"
proof -
  define len where "len = unat (un32 (field buf 4 4))"
  define k where "k = frame_size buf"
  have k: "44 + len \<le> k" "44 \<le> k" "k \<le> length buf" "44 \<le> length buf"
    using assms by (simp_all add: k_def len_def frame_size_def)
  have tot: "44 + len + (if bit (un16 (field buf 2 2)) 0 then 32 else 0) = k" by (simp add: k_def len_def frame_size_def)
  have f: "off + n \<le> 44 + len \<Longrightarrow> field (take k buf) off n = field buf off n" for off n
    using k(1) by (intro field_take) simp
  have hdr: "field (take k buf) 0 2 = field buf 0 2" "field (take k buf) 2 2 = field buf 2 2" "field (take k buf) 4 4 = field buf 4 4"
    "field (take k buf) 40 4 = field buf 40 4" "field (take k buf) 44 len = field buf 44 len"
    by (simp_all add: f)
  have m: "bit (un16 (field buf 2 2)) 0 \<Longrightarrow> field (take k buf) (44 + len) 32 = field buf (44 + len) 32"
    using tot by (intro field_take) simp
  have n: "normalise_frame L (take k buf) = normalise_frame L buf"
    by (intro ext) (simp add: normalise_frame_def f FRAME_HEADER_SIZE_def)
  have l: "length (take k buf) = k" using k(3) by simp
  have nlt: "\<not> k < 44" "\<not> k < k" "\<not> length buf < k" "\<not> length buf < 44" using k by simp_all
  show ?thesis
    unfolding k_def [symmetric] parse_frame_bytes_def Let_def l n FRAME_HEADER_SIZE_def MAC_TAG_LEN_def hdr len_def [symmetric] has_flag_bits(1) tot
    by (cases "bit (un16 (field buf 2 2)) 0") (simp_all only: m nlt if_False if_True simp_thms hdr)
qed

lemma parse_frame_bytes_rejects:
  assumes "length buf < 44 \<or> MAX_PAYLOAD_SIZE < unat (un32 (field buf 4 4)) \<or> length buf < frame_size buf"
  shows "\<exists>e. parse_frame_bytes L buf key = Inl e"
  using assms by (auto simp: parse_frame_bytes_def Let_def FRAME_HEADER_SIZE_def MAC_TAG_LEN_def frame_size_def)

text \<open>The parser throws only exceptions that derive from \<^verbatim>\<open>std::exception\<close>.\<close>

lemma bind_result_Inl: "bind_result r f = Inl e \<longleftrightarrow> r = Inl e \<or> (\<exists>a. r = Inr a \<and> f a = Inl e)"
  by (cases r) (simp_all add: bind_result_def)

lemma normalise_frame_std: "normalise_frame L buf flags payload \<noteq> Inl NonStdException"
  by (auto simp: normalise_frame_def bind_result_Inl zstd_decompress_bounded_def Let_def split: content_size.splits prod.splits if_splits)

lemma verify_tag_std: "verify_tag L key header payload tag \<noteq> Inl NonStdException"
  by (auto simp: verify_tag_def compute_tag_def bind_result_Inl split: option.splits if_splits)

lemma parse_frame_bytes_std: "parse_frame_bytes L buf key \<noteq> Inl NonStdException"
  unfolding parse_frame_bytes_def Let_def
  by (auto simp: bind_result_Inl normalise_frame_std verify_tag_std split: option.splits)

text \<open>
  One frame from a stream that ends. The result is that of the parser on all the bytes of the
  stream; when the clock may run past the frame's window, a timeout is the only other outcome.
\<close>

definition agrees :: "'l extlib_scheme \<Rightarrow> bytes option \<Rightarrow> bool \<Rightarrow> bytes \<Rightarrow> FrameResult outcome \<times> 'a world_scheme \<Rightarrow> bool" where
  "agrees L key late s x \<longleftrightarrow> (case x of
      (Ret r, w') \<Rightarrow> \<exists>n. parse_frame_bytes L s key = Inr (r, n) \<and> stream_of (reads w') = drop n s
    | (Throw e, w') \<Rightarrow> e \<noteq> NonStdException \<and> ((late \<and> e = VynkorFrameReadTimeout) \<or> (\<exists>e'. parse_frame_bytes L s key = Inl e'))
    | (Pending, w') \<Rightarrow> False)"

lemma agrees_Throw:
  "e \<noteq> NonStdException \<Longrightarrow> late \<and> e = VynkorFrameReadTimeout \<or> length s < 44 \<or> MAX_PAYLOAD_SIZE < unat (un32 (field s 4 4)) \<or> length s < frame_size s \<Longrightarrow>
   agrees L key late s (Throw e, w)"
  using parse_frame_bytes_rejects [of s L key] by (auto simp: agrees_def)

lemma agrees_parsed:
  assumes "frame_size s \<le> length s" "stream_of (reads w) = drop (frame_size s) s"
  shows "agrees L key late s (lift_result (bind_result (parse_frame_bytes L (take (frame_size s) s) key) (\<lambda>(r, n). Inr r)), w)"
proof (cases "parse_frame_bytes L s key")
  case (Inl e)
  with parse_frame_bytes_take [OF assms(1), of L key] parse_frame_bytes_std [of L s key] show ?thesis by (simp add: agrees_def)
next
  case (Inr rn)
  obtain r n where rn: "rn = (r, n)" by (cases rn)
  have "n = frame_size s" by (rule parse_frame_accepts [OF Inr [unfolded rn]]) (simp add: frame_size_def)
  with Inr rn assms parse_frame_bytes_take [OF assms(1), of L key] show ?thesis by (simp add: agrees_def)
qed

text \<open>The part of the reader behind the header.\<close>

definition read_rest :: "'l extlib_scheme \<Rightarrow> bytes option \<Rightarrow> int \<Rightarrow> bytes \<Rightarrow> 'a world_scheme \<Rightarrow> FrameResult outcome \<times> 'a world_scheme" where
  "read_rest L key d buf w =
     (let flags = un16 (field buf 2 2); len = unat (un32 (field buf 4 4)) in
      if len > MAX_PAYLOAD_SIZE then (Throw (VynkorPayloadTooLarge len), w)
      else let rest = len + (if has_flag flags FLAG_MAC_PRESENT then MAC_TAG_LEN else 0) in
        andthen (if rest > 0 then recv_exact_deadline rest [] d w else (Ret [], w))
          (\<lambda>body w. (lift_result (bind_result (parse_frame_bytes L (buf @ body) key) (\<lambda>(r, n). Inr r)), w)))"

lemma read_rest_agrees:
  assumes l: "44 \<le> length s" and st: "stream_of (reads w) = drop 44 s" and e: "ends (reads w)" and c: "calm (polls w)"
    and rc: "length (reads w) < ready_count (polls w)" and late: "late \<or> (\<forall>i. clock w i < d)"
  shows "agrees L key late s (read_rest L key d (take 44 s) w)"
proof -
  define rest where "rest = frame_size s - 44"
  have fs: "frame_size s = 44 + rest" by (simp add: rest_def frame_size_def)
  have f: "field (take 44 s) 2 2 = field s 2 2" "field (take 44 s) 4 4 = field s 4 4" by (simp_all add: field_take)
  obtain x v where x: "recv_exact_deadline rest [] d w = (x, v)" by fastforce
  have sx: "settled rest [] late 0 w (x, v)" using recv_exact_deadline_settles [of w 0 "[]" rest late d] e c rc late x by simp
  have run: "read_rest L key d (take 44 s) w = (if unat (un32 (field s 4 4)) > MAX_PAYLOAD_SIZE
      then (Throw (VynkorPayloadTooLarge (unat (un32 (field s 4 4)))), w)
      else andthen (x, v) (\<lambda>body w. (lift_result (bind_result (parse_frame_bytes L (take 44 s @ body) key) (\<lambda>(r, n). Inr r)), w)))"
    unfolding read_rest_def Let_def f has_mac_rest using x by (auto simp: rest_def frame_size_def)
  show ?thesis
  proof (cases "MAX_PAYLOAD_SIZE < unat (un32 (field s 4 4))")
    case True
    with run show ?thesis by (simp add: agrees_Throw)
  next
    case False
    show ?thesis
    proof (cases x)
      case (Throw y)
      with sx l st fs have "late \<and> y = VynkorFrameReadTimeout \<or> length s < frame_size s" "y \<noteq> NonStdException" by (auto simp: settled_def)
      with run False Throw show ?thesis by (auto intro!: agrees_Throw)
    next
      case (Ret bd)
      with sx st have "rest \<le> length s - 44" "bd = take rest (drop 44 s)" "stream_of (reads v) = drop (rest + 44) s"
        by (simp_all add: settled_def)
      with l have bd: "frame_size s \<le> length s" "take 44 s @ bd = take (frame_size s) s" "stream_of (reads v) = drop (frame_size s) s"
        unfolding fs by (simp_all add: take_add add.commute [of rest])
      show ?thesis using agrees_parsed [OF bd(1,3), of L key late] run False Ret bd(2) by simp
    qed (use sx in \<open>simp add: settled_def\<close>)
  qed
qed

lemma read_frame_stream:
  assumes e: "ends (reads w)" and c: "calm (polls w)" and rc: "length (reads w) + 1 < ready_count (polls w)"
    and late: "late \<or> (\<forall>i. clock w i < clock w (ticks w) + T * 1000000)"
  shows "agrees L key late (stream_of (reads w)) (read_frame_full_with_timeout L key T w)"
proof -
  let ?s = "stream_of (reads w)"
  obtain a w1 where a: "recv_exact 1 [] w = (a, w1)" by fastforce
  have sa: "settled 1 [] False 2 w (a, w1)" using recv_exact_settles [of w 2 "[]" 1] e c rc a by simp
  show ?thesis
  proof (cases a)
    case (Throw x)
    with sa a show ?thesis by (auto simp: read_frame_full_with_timeout_def settled_def intro!: agrees_Throw)
  next
    case (Ret b)
    with sa have b: "b = take 1 ?s" "1 \<le> length ?s" "stream_of (reads w1) = drop 1 ?s" "ends (reads w1)" "clock w1 = clock w"
      "calm (polls w1)" "length (reads w1) + 2 \<le> ready_count (polls w1)" by (simp_all add: settled_def)
    have tk: "ticks w1 = ticks w" using recv_exact_stream [of 1 "[]" w] b(2) a by auto
    define d where "d = clock w (ticks w) + T * 1000000"
    define v where "v = snd (now w1)"
    have v: "reads v = reads w1" "polls v = polls w1" "clock v = clock w" "fst (now w1) = clock w (ticks w)"
      using b(5) tk by (simp_all add: v_def now_def)
    obtain h w2 where h: "recv_exact_deadline 43 [] d v = (h, w2)" by fastforce
    have sh: "settled 43 [] late 1 v (h, w2)"
      using recv_exact_deadline_settles [of v 1 "[]" 43 late d] b v late h by (simp add: d_def)
    have run: "read_frame_full_with_timeout L key T w = andthen (h, w2) (\<lambda>hdr w. read_rest L key d (b @ hdr) w)"
      unfolding read_frame_full_with_timeout_def read_rest_def Let_def a Ret andthen_simps v(4) d_def [symmetric] v_def [symmetric]
      using h by (simp add: FRAME_HEADER_SIZE_def)
    show ?thesis
    proof (cases h)
      case (Throw x)
      with sh b v have "late \<and> x = VynkorFrameReadTimeout \<or> length ?s < 44" "x \<noteq> NonStdException" by (auto simp: settled_def)
      with run Throw show ?thesis by (auto intro!: agrees_Throw)
    next
      case (Ret hd)
      with sh b v have hd: "44 \<le> length ?s" "b @ hd = take 44 ?s" "stream_of (reads w2) = drop 44 ?s" "ends (reads w2)"
        "calm (polls w2)" "length (reads w2) < ready_count (polls w2)" "clock w2 = clock w"
        using take_add [of 1 43 ?s] by (auto simp: settled_def)
      with run Ret read_rest_agrees [OF hd(1,3-6), of late d] late show ?thesis by (simp add: d_def)
    qed (use sh in \<open>simp add: settled_def\<close>)
  qed (use sa in \<open>simp add: settled_def\<close>)
qed

section \<open>The fuzz target\<close>

text \<open>
  A memory file: \<open>memfd_create\<close> gives a descriptor or fails, \<^verbatim>\<open>write\<close> stores a prefix of
  the data, and after \<^verbatim>\<open>lseek\<close> the file delivers its content and then its end. A regular
  file always polls as ready; the reader polls at most four times. Time passes as \<open>fz_clock\<close> says.
\<close>

record fuzz_env =
  memfd_create :: int
  fz_written :: int
  fz_clock :: "nat \<Rightarrow> int"

definition memory_file :: "bytes \<Rightarrow> (nat \<Rightarrow> int) \<Rightarrow> world" where
  "memory_file content clk = \<lparr>reads = [RData content, RData []], polls = replicate 4 PReady, polled = [], writes = [], sent = [],
     clock = clk, ticks = 0\<rparr>"

definition make_memfd_with :: "fuzz_env \<Rightarrow> bytes \<Rightarrow> world result" where
  "make_memfd_with E data =
     (if memfd_create E < 0 then Inl (StdRuntimeError ''memfd_create failed'')
      else let content = (if 0 < length data then take (nat (fz_written E)) data else []) in
        Inr (memory_file content (fz_clock E)))"

text \<open>\<^verbatim>\<open>catch (const std::exception&)\<close> with an empty handler, around a call whose value is dropped.\<close>

definition ignore_std :: "'b outcome \<Rightarrow> unit outcome" where
  "ignore_std r = (case r of
      Ret _ \<Rightarrow> Ret ()
    | Throw e \<Rightarrow> if e = NonStdException then Throw e else Ret ()
    | Pending \<Rightarrow> Pending)"

definition fuzz_key :: bytes where
  "fuzz_key = map word_of_nat [0..<32]"

definition fuzz_path ::
    "fuzz_env \<Rightarrow> bytes \<Rightarrow> (world \<Rightarrow> 'b outcome \<times> world) \<Rightarrow> unit outcome" where
  "fuzz_path E data read = (case make_memfd_with E data of
      Inl e \<Rightarrow> Throw e
    | Inr file \<Rightarrow> ignore_std (fst (read file)))"

definition LLVMFuzzerTestOneInput :: "'l extlib_scheme \<Rightarrow> fuzz_env \<Rightarrow> fuzz_env \<Rightarrow> bytes \<Rightarrow> int outcome" where
  "LLVMFuzzerTestOneInput L E1 E2 data = (case fuzz_path E1 data (read_frame L) of
      Throw e \<Rightarrow> Throw e
    | Pending \<Rightarrow> Pending
    | Ret _ \<Rightarrow> (case fuzz_path E2 data (read_frame_full L (Some fuzz_key)) of
        Throw e \<Rightarrow> Throw e
      | Pending \<Rightarrow> Pending
      | Ret _ \<Rightarrow> Ret 0))"

lemma ignore_std_settled:
  "r \<noteq> Pending \<Longrightarrow> r \<noteq> Throw NonStdException \<Longrightarrow> ignore_std r = Ret ()"
  by (auto simp: ignore_std_def split: outcome.splits)

lemma memory_file_settled:
  assumes "read_frame_full L key (memory_file content clk) = (r, w')"
  shows "r \<noteq> Pending \<and> r \<noteq> Throw NonStdException"
proof -
  have "ends (reads (memory_file content clk))" "calm (polls (memory_file content clk))"
    "length (reads (memory_file content clk)) + 1 < ready_count (polls (memory_file content clk))"
    by (simp_all add: memory_file_def ends_def calm_def ready_count_def)
  from read_frame_stream [OF this, of True FRAME_READ_TIMEOUT_MS L key] assms show ?thesis
    by (auto simp: agrees_def read_frame_full_def split: outcome.splits)
qed

lemma fuzz_path_ok:
  "0 \<le> memfd_create E \<Longrightarrow> fuzz_path E data (read_frame_full L key) = Ret ()"
  "0 \<le> memfd_create E \<Longrightarrow> fuzz_path E data (read_frame L) = Ret ()"
proof -
  assume m: "0 \<le> memfd_create E"
  have s: "ignore_std (fst (read_frame_full L key (memory_file content clk))) = Ret ()" for key content clk
    by (intro ignore_std_settled) (metis memory_file_settled prod.collapse)+
  then show "fuzz_path E data (read_frame_full L key) = Ret ()"
    using m by (simp add: fuzz_path_def make_memfd_with_def Let_def)
  have "ignore_std (fst (read_frame L f)) = ignore_std (fst (read_frame_full L None f))" for f :: world
    by (cases "read_frame_full L None f"; cases "fst (read_frame_full L None f)") (auto simp: read_frame_def ignore_std_def)
  with s m show "fuzz_path E data (read_frame L) = Ret ()"
    by (simp add: fuzz_path_def make_memfd_with_def Let_def)
qed

section \<open>Properties\<close>

text \<open>
  C6: Reading from a descriptor and parsing a buffer agree on every byte string. Let the peer send
  any bytes at all, well-formed or not, in any segmentation and with interruptions, and then close;
  let the clock stay within the frame's window and polls report readiness. Then \<open>read_frame_full\<close>
  returns a frame exactly when \<open>parse_frame_bytes\<close> accepts the bytes, the same frame, and leaves
  the rest of the stream; otherwise it throws. It never blocks.
\<close>

theorem read_frame_full_parses:
  assumes "ends (reads w)" "punctual FRAME_READ_TIMEOUT_MS w"
  shows "case parse_frame_bytes L (stream_of (reads w)) key of
      Inr (r, n) \<Rightarrow> \<exists>w'. read_frame_full L key w = (Ret r, w') \<and> stream_of (reads w') = drop n (stream_of (reads w))
    | Inl e \<Rightarrow> \<exists>e' w'. read_frame_full L key w = (Throw e', w')"
proof -
  have p: "calm (polls w)" "length (reads w) + 1 < ready_count (polls w)"
    "False \<or> (\<forall>i. clock w i < clock w (ticks w) + FRAME_READ_TIMEOUT_MS * 1000000)"
    using assms(2) by (auto simp: punctual_def)
  obtain r w' where r: "read_frame_full L key w = (r, w')" by fastforce
  from read_frame_stream [OF assms(1) p, of L key] r show ?thesis
    by (cases r) (auto simp: agrees_def read_frame_full_def split: sum.splits)
qed

text \<open>Witness: a frame with a MAC and one more byte, in three segments with an interruption.\<close>

theorem read_frame_full_parses_witness:
  "\<exists>fr r w'. read_frame_full demo_lib (Some [7])
     \<lparr>reads = [RData (take 3 fr), RIntr, RData (drop 3 fr), RData [5], RData []], polls = replicate 8 PReady, polled = [], writes = [],
      sent = [], clock = (\<lambda>i. 0), ticks = 0\<rparr> = (Ret r, w' :: world) \<and>
     fr_has_mac r \<and> stream_of (reads w') = [5]"
proof -
  have s: "sendable FLAG_MAC_PRESENT (Some [7])" by (simp add: sendable_def)
  obtain fr where fr: "pack_frame_raw demo_lib ''kernel'' FLAG_MAC_PRESENT [1, 2] (Some [7]) = Inr fr"
    using demo_pack_total [of "[1, 2]" "''kernel''" FLAG_MAC_PRESENT "Some [7]"] by (auto simp: MAX_PAYLOAD_SIZE_def)
  obtain r where r: "parse_frame_bytes demo_lib (fr @ [5]) (Some [7]) = Inr (r, length fr)"
    using uds.parse_pack_payload [of demo_lib FLAG_MAC_PRESENT "Some [7]" "''kernel''" "[1, 2]" fr "[5]"] s fr by auto
  have m: "fr_has_mac r" "3 < length fr"
    by (rule parse_frame_accepts [OF r], simp)+
  let ?w = "\<lparr>reads = [RData (take 3 fr), RIntr, RData (drop 3 fr), RData [5], RData []], polls = replicate 8 PReady, polled = [],
    writes = [], sent = [], clock = (\<lambda>i. 0), ticks = 0\<rparr> :: world"
  have st: "stream_of (reads ?w) = fr @ [5]" using m(2) by auto
  have "punctual FRAME_READ_TIMEOUT_MS ?w" by (simp add: punctual_def FRAME_READ_TIMEOUT_MS_def calm_def ready_count_def)
  from read_frame_full_parses [OF _ this, of demo_lib "Some [7]"] st r m show ?thesis by (fastforce simp: ends_def)
qed

text \<open>
  C40: The fuzz target returns 0 for every input. For every byte string, every amount that reaches
  the memory file, every passing of time and every behaviour of the cryptographic and compression
  libraries, neither read blocks and no exception escapes; only a failing \<open>memfd_create\<close> does.
\<close>

theorem fuzz_target_returns:
  "LLVMFuzzerTestOneInput L E1 E2 data =
     (if memfd_create E1 < 0 \<or> memfd_create E2 < 0 then Throw (StdRuntimeError ''memfd_create failed'') else Ret 0)"
proof (cases "memfd_create E1 < 0")
  case True
  then show ?thesis by (simp add: LLVMFuzzerTestOneInput_def fuzz_path_def make_memfd_with_def)
next
  case False
  then show ?thesis
    using fuzz_path_ok(1) [of E2 data L "Some fuzz_key"] fuzz_path_ok(2) [of E1 data L]
    by (auto simp: LLVMFuzzerTestOneInput_def) (auto simp: fuzz_path_def make_memfd_with_def)
qed

end
