(* ===== verification/Vyn_Ws_Codec.thy ===== *)
theory Vyn_Ws_Codec
  imports Vyn_Prelude
begin

text \<open>
  The pure part of \<^verbatim>\<open>src/ws.cpp\<close>: URL parsing, the RFC 6455 frame codec of a client
  (masked frames out, unmasked frames in) and case-insensitive comparison. The reference encoder of
  a server and the reference decoder of a server, which the client's codec is measured against, are
  in the section on specifications.
\<close>

section \<open>The code\<close>

subsection \<open>Strings\<close>

definition find_char :: "char \<Rightarrow> string \<Rightarrow> nat option" where
  "find_char c s = (let p = takeWhile (\<lambda>x. x \<noteq> c) s in if length p < length s then Some (length p) else None)"

definition rfind_char :: "char \<Rightarrow> string \<Rightarrow> nat option" where
  "rfind_char c s = map_option (\<lambda>i. length s - 1 - i) (find_char c (rev s))"

definition is_digit :: "char \<Rightarrow> bool" where
  "is_digit c \<longleftrightarrow> 48 \<le> (of_char c :: nat) \<and> (of_char c :: nat) \<le> 57"

definition is_space :: "char \<Rightarrow> bool" where
  "is_space c \<longleftrightarrow> (of_char c :: nat) \<in> {9, 10, 11, 12, 13, 32}"

definition digits_val :: "string \<Rightarrow> nat" where
  "digits_val ds = foldl (\<lambda>a d. 10 * a + (of_char d - 48)) 0 ds"

text \<open>\<^verbatim>\<open>std::stoi\<close>: leading blanks, a sign, decimal digits; what follows is ignored.\<close>

definition stoi :: "string \<Rightarrow> int result" where
  "stoi s = (let s = dropWhile is_space s;
       neg = (s \<noteq> [] \<and> hd s = CHR ''-'');
       s = (if s \<noteq> [] \<and> (hd s = CHR ''-'' \<or> hd s = CHR ''+'') then tl s else s);
       ds = takeWhile is_digit s;
       v = (if neg then - int (digits_val ds) else int (digits_val ds)) in
     if ds = [] then Inl (StdInvalidArgument ''stoi'')
     else if v < - (2 ^ 31) \<or> v > 2 ^ 31 - 1 then Inl (StdOutOfRange ''stoi'')
     else Inr v)"

definition to_lower :: "char \<Rightarrow> char" where
  "to_lower c = (if 65 \<le> (of_char c :: nat) \<and> (of_char c :: nat) \<le> 90 then char_of (of_char c + 32 :: nat) else c)"

definition iequal :: "string \<Rightarrow> string \<Rightarrow> bool" where
  "iequal a b \<longleftrightarrow> length a = length b \<and> list_all (\<lambda>i. to_lower (a ! i) = to_lower (b ! i)) [0..<length a]"

subsection \<open>URLs\<close>

record WsUrl =
  url_tls :: bool
  url_host :: string
  url_port :: u16
  url_path :: string

text \<open>The host and port of the authority; port 0 stands for none given.\<close>

definition parse_authority :: "string \<Rightarrow> (string \<times> u16) result" where
  "parse_authority hostport =
     (if hostport \<noteq> [] \<and> hd hostport = CHR ''['' then
        (case find_char CHR '']'' hostport of
           None \<Rightarrow> Inl (VynkorInternal ''invalid ws url: unterminated IPv6 literal'')
         | Some cb \<Rightarrow>
             let host = take (cb - 1) (drop 1 hostport) in
             if cb + 1 < length hostport then
               if hostport ! (cb + 1) \<noteq> CHR '':'' then Inl (VynkorInternal ''invalid ws url: bad text after IPv6 literal'')
               else bind_result (stoi (drop (cb + 2) hostport)) (\<lambda>p. Inr (host, word_of_int p))
             else Inr (host, 0))
      else (case rfind_char CHR '':'' hostport of
           None \<Rightarrow> Inr (hostport, 0)
         | Some colon \<Rightarrow>
             if colon \<noteq> 0
             then bind_result (stoi (drop (colon + 1) hostport)) (\<lambda>p. Inr (take colon hostport, word_of_int p))
             else Inr (hostport, 0)))"

definition parse_ws_url :: "string \<Rightarrow> WsUrl result" where
  "parse_ws_url url =
     bind_result
       (if starts_with ''ws://'' url then Inr (False, drop 5 url)
        else if starts_with ''wss://'' url then Inr (True, drop 6 url)
        else Inl (VynkorInternal ''invalid ws url: scheme must be ws:// or wss://''))
       (\<lambda>(tls, rest).
         let slash = find_char CHR ''/'' rest;
             authority = (case slash of None \<Rightarrow> rest | Some i \<Rightarrow> take i rest);
             path = (case slash of None \<Rightarrow> ''/'' | Some i \<Rightarrow> drop i rest) in
         bind_result (parse_authority authority) (\<lambda>(host, port).
           if host = [] then Inl (VynkorInternal ''invalid ws url: missing host'')
           else Inr \<lparr>url_tls = tls, url_host = host, url_port = (if port = 0 then (if tls then 443 else 80) else port),
                     url_path = (if path = [] then ''/'' else path)\<rparr>))"

subsection \<open>The frame codec\<close>

definition OP_CONT :: byte where [wire_defs]: "OP_CONT = 0x0"
definition OP_TEXT :: byte where [wire_defs]: "OP_TEXT = 0x1"
definition OP_BINARY :: byte where [wire_defs]: "OP_BINARY = 0x2"
definition OP_CLOSE :: byte where [wire_defs]: "OP_CLOSE = 0x8"
definition OP_PING :: byte where [wire_defs]: "OP_PING = 0x9"
definition OP_PONG :: byte where [wire_defs]: "OP_PONG = 0xA"
definition WS_MAX_MESSAGE_SIZE :: nat where [wire_defs]: "WS_MAX_MESSAGE_SIZE = 4 * 1024 * 1024"

definition xor_mask :: "bytes \<Rightarrow> bytes \<Rightarrow> bytes" where
  "xor_mask mk payload = map (\<lambda>i. payload ! i XOR mk ! (i mod 4)) [0..<length payload]"

text \<open>The four mask bytes come from \<^verbatim>\<open>RAND_bytes\<close>, which may fail (\<open>None\<close>).\<close>

definition ws_encode_client_frame :: "bytes option \<Rightarrow> byte \<Rightarrow> bytes \<Rightarrow> bytes result" where
  "ws_encode_client_frame rand opcode payload =
     (let len = length payload; frame = [0x80 OR opcode] in
      case rand of
        None \<Rightarrow> Inl (VynkorInternal ''RAND_bytes failed'')
      | Some mk \<Rightarrow>
          let frame = (if len < 126 then frame @ [0x80 OR word_of_nat len]
                 else if len \<le> 0xFFFF then frame @ [0x80 OR 126] @ be16 (word_of_nat len)
                 else frame @ [0x80 OR 127] @ be64 (word_of_nat len))
          in Inr (frame @ mk @ xor_mask mk payload))"

record WsIncomingFrame =
  wf_fin :: bool
  wf_opcode :: byte
  wf_payload :: bytes

text \<open>\<open>Inr None\<close> stands for the return value \<^verbatim>\<open>false\<close>: more bytes are needed.\<close>

definition ws_try_decode_server_frame :: "bytes \<Rightarrow> (WsIncomingFrame \<times> nat) option result" where
  "ws_try_decode_server_frame buf =
     (if length buf < 2 then Inr None
      else
        let fin = (buf ! 0 AND 0x80 \<noteq> 0);
            opcode = buf ! 0 AND 0x0F;
            masked = (buf ! 1 AND 0x80 \<noteq> 0);
            len7 = buf ! 1 AND 0x7F in
        if masked then Inl (VynkorInternal ''websocket: server sent a masked frame'')
        else if len7 = 126 \<and> length buf < 4 then Inr None
        else if len7 = 127 \<and> length buf < 10 then Inr None
        else
          let len = (if len7 = 126 then unat (un16 (field buf 2 2))
                     else if len7 = 127 then unat (un64 (field buf 2 8)) else unat len7);
              offset = (if len7 = 126 then 4 else if len7 = 127 then 10 else 2) in
          if len > WS_MAX_MESSAGE_SIZE then Inl (VynkorPayloadTooLarge len)
          else if length buf < offset + len then Inr None
          else Inr (Some (\<lparr>wf_fin = fin, wf_opcode = opcode, wf_payload = field buf offset len\<rparr>, offset + len)))"

section \<open>Specifications\<close>

text \<open>
  RFC 6455 as a server sees it: the frame a server sends, and how it reads a client's frame (the
  opcode, the unmasked payload and the bytes used).
\<close>

definition rfc_length :: "nat \<Rightarrow> bytes" where
  "rfc_length len = (if len < 126 then [word_of_nat len]
     else if len < 65536 then 126 # be16 (word_of_nat len) else 127 # be64 (word_of_nat len))"

definition rfc_server_frame :: "WsIncomingFrame \<Rightarrow> bytes" where
  "rfc_server_frame f = ((if wf_fin f then 0x80 else 0) OR wf_opcode f) # rfc_length (length (wf_payload f)) @ wf_payload f"

definition rfc_read_client_frame :: "bytes \<Rightarrow> (bool \<times> byte \<times> bytes \<times> nat) option" where
  "rfc_read_client_frame buf =
     (if length buf < 2 \<or> buf ! 1 AND 0x80 = 0 then None
      else let len7 = buf ! 1 AND 0x7F;
               off = (if len7 = 126 then 4 else if len7 = 127 then 10 else 2);
               len = (if len7 = 126 then be_val (field buf 2 2) else if len7 = 127 then be_val (field buf 2 8) else unat len7);
               mk = field buf off 4 in
        if length buf < off + 4 + len then None
        else Some (buf ! 0 AND 0x80 \<noteq> 0, buf ! 0 AND 0x0F, xor_mask mk (field buf (off + 4) len), off + 4 + len))"

section \<open>Lemmas\<close>

subsection \<open>Bytes of a frame head\<close>

lemma small_len_table:
  "list_all (\<lambda>n. (0x80 OR word_of_nat n :: byte) AND 0x7F = word_of_nat n \<and> (0x80 OR word_of_nat n :: byte) AND 0x80 \<noteq> 0 \<and>
     (word_of_nat n :: byte) AND 0x7F = word_of_nat n \<and> (word_of_nat n :: byte) AND 0x80 = 0) [0..<128]"
  by code_simp

lemma small_len:
  assumes "n < 128"
  shows "(0x80 OR word_of_nat n :: byte) AND 0x7F = word_of_nat n" "(0x80 OR word_of_nat n :: byte) AND 0x80 \<noteq> 0"
    "(word_of_nat n :: byte) AND 0x7F = word_of_nat n" "(word_of_nat n :: byte) AND 0x80 = 0"
  using small_len_table assms unfolding list_all_iff by simp_all

lemma opcode_table:
  "list_all (\<lambda>n. (0x80 OR word_of_nat n :: byte) AND 0x0F = word_of_nat n \<and> (word_of_nat n :: byte) AND 0x0F = word_of_nat n \<and>
     (0x80 OR word_of_nat n :: byte) AND 0x80 \<noteq> 0 \<and> (word_of_nat n :: byte) AND 0x80 = 0) [0..<16]"
  by code_simp

lemma opcode_bits:
  assumes "op < (16 :: byte)"
  shows "((if fin then 0x80 else 0) OR op) AND 0x0F = op" "((if fin then 0x80 else 0) OR op) AND 0x80 \<noteq> 0 \<longleftrightarrow> fin"
proof -
  have "unat op < 16" using assms by (simp add: word_less_nat_alt)
  then have "unat op \<in> set [0..<16]" by simp
  then have "(0x80 OR word_of_nat (unat op) :: byte) AND 0x0F = word_of_nat (unat op) \<and> (word_of_nat (unat op) :: byte) AND 0x0F = word_of_nat (unat op) \<and>
     (0x80 OR word_of_nat (unat op) :: byte) AND 0x80 \<noteq> 0 \<and> (word_of_nat (unat op) :: byte) AND 0x80 = 0"
    using opcode_table unfolding list_all_iff by blast
  then show "((if fin then 0x80 else 0) OR op) AND 0x0F = op" "((if fin then 0x80 else 0) OR op) AND 0x80 \<noteq> 0 \<longleftrightarrow> fin"
    by auto
qed

lemma xor_mask_invol: "length mk = 4 \<Longrightarrow> xor_mask mk (xor_mask mk payload) = payload"
  by (rule nth_equalityI) (simp_all add: xor_mask_def xor.assoc)

lemma length_xor_mask [simp]: "length (xor_mask mk payload) = length payload"
  by (simp add: xor_mask_def)

subsection \<open>Round trips of the frame codec\<close>

lemma rfc_length_cases:
  assumes "len < 2 ^ 64"
  obtains "len < 126" "rfc_length len = [word_of_nat len]"
  | "126 \<le> len" "len < 65536" "rfc_length len = 126 # be16 (word_of_nat len)" "unat (word_of_nat len :: u16) = len"
  | "65536 \<le> len" "rfc_length len = 127 # be64 (word_of_nat len)" "unat (word_of_nat len :: u64) = len"
  using assms by (cases "len < 126"; cases "len < 65536") (auto simp: rfc_length_def unat_of_nat)

lemma decode_server_frame:
  assumes "length (wf_payload f) \<le> WS_MAX_MESSAGE_SIZE" "wf_opcode f < 16"
  shows "ws_try_decode_server_frame (rfc_server_frame f @ rest) = Inr (Some (f, length (rfc_server_frame f)))"
proof -
  let ?n = "length (wf_payload f)"
  have n: "?n < 2 ^ 64" using assms(1) by (simp add: WS_MAX_MESSAGE_SIZE_def)
  note ob = opcode_bits [OF assms(2), of "wf_fin f"]
  have f: "\<lparr>wf_fin = wf_fin f, wf_opcode = wf_opcode f, wf_payload = wf_payload f\<rparr> = f" by simp
  show ?thesis
  proof (cases rule: rfc_length_cases [OF n])
    case 1
    then have "unat (word_of_nat ?n :: byte) = ?n" "(word_of_nat ?n :: byte) \<noteq> 126" "(word_of_nat ?n :: byte) \<noteq> 127"
      by (simp_all add: unat_of_nat word_unat_eq_iff)
    with 1 assms(1) ob f small_len(3,4) [of ?n] show ?thesis
      by (simp add: ws_try_decode_server_frame_def rfc_server_frame_def Let_def field_def)
  next
    case 2
    with assms(1) ob f show ?thesis
      by (simp add: ws_try_decode_server_frame_def rfc_server_frame_def Let_def field_def)
  next
    case 3
    with assms(1) ob f show ?thesis
      by (simp add: ws_try_decode_server_frame_def rfc_server_frame_def Let_def field_def)
  qed
qed

lemma decode_stable:
  assumes "ws_try_decode_server_frame buf \<noteq> Inr None"
  shows "ws_try_decode_server_frame (buf @ rest) = ws_try_decode_server_frame buf"
proof -
  have nth: "2 \<le> length buf \<Longrightarrow> (buf @ rest) ! 0 = buf ! 0 \<and> (buf @ rest) ! 1 = buf ! 1" by (cases buf) (auto simp: nth_append)
  have fld: "field (buf @ rest) i n = field buf i n" if "i + n \<le> length buf" for i n
    using that by (simp add: field_def)
  have "ws_try_decode_server_frame buf = Inr None" if "length buf < 2" using that by (simp add: ws_try_decode_server_frame_def)
  with assms have two: "2 \<le> length buf" by (metis linorder_not_le)
  note n0 = conjunct1 [OF nth [OF two]] and n1 = conjunct2 [OF nth [OF two]]
  let ?l = "buf ! 1 AND 0x7F"
  show ?thesis
  proof (cases "buf ! 1 AND 0x80 \<noteq> 0")
    case True
    with two show ?thesis unfolding ws_try_decode_server_frame_def Let_def n0 n1 by simp
  next
    case unmasked: False
    with assms two have enough: "\<not> (?l = 126 \<and> length buf < 4)" "\<not> (?l = 127 \<and> length buf < 10)"
      by (auto simp: ws_try_decode_server_frame_def Let_def)
    have len: "(if ?l = 126 then unat (un16 (field (buf @ rest) 2 2)) else if ?l = 127 then unat (un64 (field (buf @ rest) 2 8)) else unat ?l)
      = (if ?l = 126 then unat (un16 (field buf 2 2)) else if ?l = 127 then unat (un64 (field buf 2 8)) else unat ?l)"
      using enough fld by auto
    show ?thesis
      using assms two unmasked enough unfolding ws_try_decode_server_frame_def Let_def n0 n1 len
      by (auto simp: fld split: if_splits)
  qed
qed

lemma decode_prefix:
  assumes "length (wf_payload f) \<le> WS_MAX_MESSAGE_SIZE" "wf_opcode f < 16" "n < length (rfc_server_frame f)"
  shows "ws_try_decode_server_frame (take n (rfc_server_frame f)) = Inr None"
proof (rule ccontr)
  assume "ws_try_decode_server_frame (take n (rfc_server_frame f)) \<noteq> Inr None"
  from decode_stable [OF this, of "drop n (rfc_server_frame f)"] decode_server_frame [OF assms(1,2), of "[]"]
  have "ws_try_decode_server_frame (take n (rfc_server_frame f)) = Inr (Some (f, length (rfc_server_frame f)))" by simp
  moreover have "k \<le> length buf" if "ws_try_decode_server_frame buf = Inr (Some (g, k))" for buf g k
    using that by (auto simp: ws_try_decode_server_frame_def Let_def split: if_splits)
  ultimately have "length (rfc_server_frame f) \<le> length (take n (rfc_server_frame f))" by blast
  with assms(3) show False by simp
qed

lemma encode_client_frame:
  assumes "length mk = 4" "op < 16" "length payload < 2 ^ 64"
  obtains w where "ws_encode_client_frame (Some mk) op payload = Inr w"
    "\<And>rest. rfc_read_client_frame (w @ rest) = Some (True, op, payload, length w)"
proof -
  let ?n = "length payload"
  let ?hd = "if ?n < 126 then [0x80 OR op, 0x80 OR word_of_nat ?n]
     else if ?n \<le> 0xFFFF then [0x80 OR op, 0x80 OR 126] @ be16 (word_of_nat ?n)
     else [0x80 OR op, 0x80 OR 127] @ be64 (word_of_nat ?n)"
  have w: "ws_encode_client_frame (Some mk) op payload = Inr (?hd @ mk @ xor_mask mk payload)"
    by (simp add: ws_encode_client_frame_def Let_def)
  note ob = opcode_bits [OF assms(2), of True, simplified]
  note inv = xor_mask_invol [OF assms(1), of payload]
  have "rfc_read_client_frame ((?hd @ mk @ xor_mask mk payload) @ rest) = Some (True, op, payload, length (?hd @ mk @ xor_mask mk payload))" for rest
  proof (cases rule: rfc_length_cases [OF assms(3)])
    case 1
    then have "unat (word_of_nat ?n :: byte) = ?n" "(word_of_nat ?n :: byte) \<noteq> 126" "(word_of_nat ?n :: byte) \<noteq> 127"
      by (simp_all add: unat_of_nat word_unat_eq_iff)
    with 1 ob inv assms(1) small_len(1,2) [of ?n] show ?thesis
      by (simp add: rfc_read_client_frame_def Let_def field_def)
  next
    case 2
    with ob inv assms(1) show ?thesis
      by (simp add: rfc_read_client_frame_def Let_def field_def be16_def be_val_bytes)
  next
    case 3
    with ob inv assms(1,3) show ?thesis
      by (simp add: rfc_read_client_frame_def Let_def field_def be64_def be_val_bytes)
  qed
  with w that show thesis by blast
qed

subsection \<open>Numbers and URLs\<close>

lemma is_digit_char_of: "d < 10 \<Longrightarrow> is_digit (char_of (48 + d :: nat))" "d < 10 \<Longrightarrow> (of_char (char_of (48 + d :: nat)) :: nat) = 48 + d"
  by (simp_all add: is_digit_def)

lemma digits_val_to_string: "digits_val (to_string n) = n"
proof (induction n rule: to_string.induct)
  case (1 n)
  show ?case
  proof (cases "n < 10")
    case True
    then show ?thesis by (simp add: to_string_small digits_val_def)
  next
    case False
    with 1 show ?thesis by (simp add: to_string_big digits_val_def)
  qed
qed

lemma to_string_all_digits: "list_all is_digit (to_string n)"
  using to_string_digits is_digit_char_of(1) by (fastforce simp: list_all_iff)

lemma digit_not_blank: "is_digit c \<Longrightarrow> \<not> is_space c \<and> c \<noteq> CHR ''-'' \<and> c \<noteq> CHR ''+'' \<and> c \<noteq> CHR '':'' \<and> c \<noteq> CHR ''/''"
  by (auto simp: is_digit_def is_space_def)

lemma stoi_to_string: "n < 2 ^ 31 \<Longrightarrow> stoi (to_string n) = Inr (int n)"
proof -
  assume n: "n < 2 ^ 31"
  obtain d ds where ds: "to_string n = d # ds" using to_string_nonempty [of n] by (cases "to_string n") auto
  have d: "is_digit d" using to_string_all_digits [of n] ds by simp
  have "dropWhile is_space (to_string n) = to_string n" using digit_not_blank [OF d] ds by simp
  moreover have "takeWhile is_digit (to_string n) = to_string n"
    unfolding takeWhile_eq_all_conv using to_string_all_digits [of n] by (simp add: list_all_iff)
  moreover have "hd (to_string n) = d" using ds by simp
  ultimately show ?thesis using n digit_not_blank [OF d]
    by (simp del: takeWhile_eq_all_conv add: stoi_def Let_def digits_val_to_string)
qed

lemma find_char_append: "c \<notin> set a \<Longrightarrow> find_char c (a @ c # b) = Some (length a)"
proof -
  assume "c \<notin> set a"
  then have "takeWhile (\<lambda>x. x \<noteq> c) (a @ c # b) = a" by (induction a) auto
  then show ?thesis by (simp add: find_char_def)
qed

lemma find_char_none: "c \<notin> set a \<Longrightarrow> find_char c a = None"
proof -
  assume "c \<notin> set a"
  then have "takeWhile (\<lambda>x. x \<noteq> c) a = a" by (induction a) auto
  then show ?thesis by (simp del: takeWhile_eq_all_conv add: find_char_def Let_def)
qed

lemma rfind_char_append: "c \<notin> set b \<Longrightarrow> rfind_char c (a @ c # b) = Some (length a)"
  using find_char_append [of c "rev b" "rev a"] by (simp add: rfind_char_def)

section \<open>Properties\<close>

text \<open>
  C12: the client's decoder reads what a server sends. A server frame of at most 4 MiB decodes to its
  FIN bit, opcode and payload and is consumed exactly, whatever follows; any strict prefix asks
  for more bytes; and a verdict, once given, does not change when more bytes arrive.
\<close>

theorem ws_decode_server_frame_correct:
  assumes "length (wf_payload f) \<le> WS_MAX_MESSAGE_SIZE" and "wf_opcode f < 16"
  shows "ws_try_decode_server_frame (rfc_server_frame f @ rest) = Inr (Some (f, length (rfc_server_frame f))) \<and>
    (\<forall>n < length (rfc_server_frame f). ws_try_decode_server_frame (take n (rfc_server_frame f)) = Inr None) \<and>
    (\<forall>buf more. ws_try_decode_server_frame buf \<noteq> Inr None \<longrightarrow>
      ws_try_decode_server_frame (buf @ more) = ws_try_decode_server_frame buf)"
  using decode_server_frame [OF assms] decode_prefix [OF assms] decode_stable by blast

text \<open>Witness: a ping with two bytes.\<close>

theorem ws_decode_server_frame_correct_witness:
  "ws_try_decode_server_frame (rfc_server_frame \<lparr>wf_fin = True, wf_opcode = OP_PING, wf_payload = [1, 2]\<rparr> @ [9]) =
     Inr (Some (\<lparr>wf_fin = True, wf_opcode = OP_PING, wf_payload = [1, 2]\<rparr>, 4))"
  using ws_decode_server_frame_correct [of "\<lparr>wf_fin = True, wf_opcode = OP_PING, wf_payload = [1, 2]\<rparr>" "[9]"]
  by (simp add: WS_MAX_MESSAGE_SIZE_def OP_PING_def rfc_server_frame_def rfc_length_def)

text \<open>
  A server reads what the client sends: every encoded client frame is final, carries the opcode,
  is masked, and unmasks to the payload, for payloads in all three length classes.
\<close>

lemma ws_encode_client_frame_correct:
  assumes "length mk = 4" and "op < 16" and "length payload < 2 ^ 64"
  shows "\<exists>w. ws_encode_client_frame (Some mk) op payload = Inr w \<and>
    (\<forall>rest. rfc_read_client_frame (w @ rest) = Some (True, op, payload, length w))"
  using encode_client_frame [OF assms] by blast

text \<open>
  C16: a URL with a host name, a numeric port and a path parses to these parts. The port is taken
  modulo \<open>2^16\<close>, and a multiple of \<open>2^16\<close> counts as no port at all: larger numbers are not refused
  but wrap around.
\<close>

theorem parse_ws_url_parts:
  assumes "host \<noteq> []" and "hd host \<noteq> CHR ''[''" and "CHR ''/'' \<notin> set host"
    and "p < 2 ^ 31"
  shows "parse_ws_url ((if tls then ''wss://'' else ''ws://'') @ host @ '':'' @ to_string p @ ''/'' @ path) =
    Inr \<lparr>url_tls = tls, url_host = host,
         url_port = (if p mod 65536 = 0 then (if tls then 443 else 80) else word_of_nat p), url_path = ''/'' @ path\<rparr>"
proof -
  let ?auth = "host @ '':'' @ to_string p"
  have nodig: "x \<in> set (to_string p) \<Longrightarrow> is_digit x" for x using to_string_all_digits [of p] by (simp add: list_all_iff)
  have noslash: "CHR ''/'' \<notin> set (to_string p)" "CHR '':'' \<notin> set (to_string p)"
    using nodig digit_not_blank by blast+
  with assms(3) have slash: "find_char CHR ''/'' (?auth @ CHR ''/'' # path) = Some (length ?auth)"
    by (intro find_char_append) auto
  have colon: "rfind_char CHR '':'' ?auth = Some (length host)"
    using rfind_char_append [OF noslash(2), of host] by simp
  have h: "hd ?auth \<noteq> CHR ''[''" using assms(1,2) by simp
  have "parse_authority ?auth = Inr (host, word_of_int (int p))"
    using assms(1) h colon stoi_to_string [OF assms(4)] by (simp add: parse_authority_def)
  moreover have "(word_of_int (int p) :: u16) = 0 \<longleftrightarrow> p mod 65536 = 0"
    by (simp add: word_of_nat_eq_0_iff mod_eq_0_iff_dvd)
  ultimately show ?thesis using slash assms(1)
    by (cases tls) (simp_all add: parse_ws_url_def starts_with_def Let_def)
qed

text \<open>Witness: port 70000 becomes port 4464.\<close>

theorem parse_ws_url_parts_witness:
  "parse_ws_url ''ws://kernel:70000/ws'' = Inr \<lparr>url_tls = False, url_host = ''kernel'', url_port = 4464, url_path = ''/ws''\<rparr>"
proof -
  have "to_string 70000 = ''70000''"
    by (simp add: to_string.simps) (simp add: char_of_def bit_iff_odd)
  moreover have "(word_of_nat 70000 :: u16) = 4464" by (simp add: word_unat_eq_iff unat_of_nat)
  ultimately show ?thesis using parse_ws_url_parts [of "''kernel''" 70000 False "''ws''"] by simp
qed

end
