(* ===== verification/Vyn_Ws_Connection.thy ===== *)
theory Vyn_Ws_Connection
  imports Vyn_Frame_IO Vyn_Ws_Codec
begin

text \<open>
  The connection part of \<^verbatim>\<open>src/ws.cpp\<close>: \<open>WsConnection::Impl\<close> over a TCP socket or a
  TLS session, the opening handshake, \<open>send_binary\<close>, the message assembly of
  \<open>receive_binary_deadline\<close>, and \<open>close\<close>. The state \<open>net\<close> extends the scripted environment
  \<open>world\<close> by the results of OpenSSL calls, the random bytes and the connection's read buffer.
  A deadline of \<open>None\<close> is \<^verbatim>\<open>time_point::max()\<close>.
\<close>

section \<open>State and environment\<close>

text \<open>
  Results of \<^verbatim>\<open>SSL_read\<close> and \<^verbatim>\<open>SSL_write\<close> after \<^verbatim>\<open>SSL_get_error\<close>; a failure
  carries OpenSSL's reason string. Each read result comes with the value of
  \<^verbatim>\<open>SSL_pending\<close> before it.
\<close>

datatype ssl_read_res = SslData bytes | SslWant | SslZero | SslErr "string option"
datatype ssl_write_res = SslWrote nat | SslWWant | SslWErr "string option"

record net = world +
  tls :: bool
  ssl_reads :: "(nat \<times> ssl_read_res) list"
  ssl_writes :: "ssl_write_res list"
  read_buf :: bytes
  rng :: "nat \<Rightarrow> nat \<Rightarrow> byte"
  rand_ok :: "nat \<Rightarrow> bool"
  draws :: nat
  ws_open :: bool

definition RAND_bytes :: "nat \<Rightarrow> 'a net_scheme \<Rightarrow> bytes option \<times> 'a net_scheme" where
  "RAND_bytes n w = (if rand_ok w (draws w) then Some (map (rng w (draws w)) [0..<n]) else None, w\<lparr>draws := Suc (draws w)\<rparr>)"

definition SSL_read :: "nat \<Rightarrow> 'a net_scheme \<Rightarrow> ssl_read_res option \<times> 'a net_scheme" where
  "SSL_read n w = (case ssl_reads w of
      [] \<Rightarrow> (None, w)
    | (p, SslData bs) # rs \<Rightarrow>
        if length bs \<le> n then (Some (SslData bs), w\<lparr>ssl_reads := rs\<rparr>)
        else (Some (SslData (take n bs)), w\<lparr>ssl_reads := (length bs - n, SslData (drop n bs)) # rs\<rparr>)
    | (p, r) # rs \<Rightarrow> (Some r, w\<lparr>ssl_reads := rs\<rparr>))"

definition SSL_pending :: "'a net_scheme \<Rightarrow> nat" where
  "SSL_pending w = (case ssl_reads w of [] \<Rightarrow> 0 | (p, r) # rs \<Rightarrow> p)"

definition SSL_write :: "bytes \<Rightarrow> 'a net_scheme \<Rightarrow> ssl_write_res option \<times> 'a net_scheme" where
  "SSL_write data w = (case ssl_writes w of
      [] \<Rightarrow> (None, w)
    | SslWrote k # ws \<Rightarrow> (Some (SslWrote (min k (length data))), w\<lparr>ssl_writes := ws, sent := sent w @ take k data\<rparr>)
    | r # ws \<Rightarrow> (Some r, w\<lparr>ssl_writes := ws\<rparr>))"

definition throw_ws_io :: "string \<Rightarrow> string option \<Rightarrow> vyn_error" where
  "throw_ws_io m reason = VynkorIoError (case reason of None \<Rightarrow> m | Some r \<Rightarrow> m @ '': '' @ r)"

section \<open>The byte stream\<close>

definition wait_writable :: "'a net_scheme \<Rightarrow> 'a net_scheme" where
  "wait_writable w = w\<lparr>polled := polled w @ [5000]\<rparr>"

lemma SSL_write_measure: "(Some r, w') = SSL_write d w \<Longrightarrow> length (ssl_writes w') < length (ssl_writes w) \<and> writes w' = writes w \<and> tls w' = tls w"
  by (auto simp: SSL_write_def split: list.splits ssl_write_res.splits)

lemma sys_write_net: "(Some r, w') = sys_write d w \<Longrightarrow>
    length (writes w') < length (writes w) \<and> ssl_writes w' = ssl_writes w \<and> tls w' = tls w"
  by (auto simp: sys_write_def split: list.splits write_res.splits)

function stream_write_all :: "bytes \<Rightarrow> 'a net_scheme \<Rightarrow> unit outcome \<times> 'a net_scheme" where
  "stream_write_all data w =
     (if data = [] then (Ret (), w)
      else if tls w then
        (case SSL_write data w of
           (None, w') \<Rightarrow> (Pending, w')
         | (Some SslWWant, w') \<Rightarrow> stream_write_all data (wait_writable w')
         | (Some (SslWErr reason), w') \<Rightarrow> (Throw (throw_ws_io ''websocket send failed'' reason), w')
         | (Some (SslWrote k), w') \<Rightarrow>
             if k = 0 then (Throw (throw_ws_io ''websocket send failed'' None), w')
             else stream_write_all (drop k data) w')
      else
        (case sys_write data w of
           (None, w') \<Rightarrow> (Pending, w')
         | (Some WIntr, w') \<Rightarrow> stream_write_all data w'
         | (Some WErr, w') \<Rightarrow> (Throw (VynkorIoError ''websocket send failed: write()''), w')
         | (Some (WCount k), w') \<Rightarrow>
             if k = 0 then (Throw (VynkorIoError ''websocket send failed: write()''), w')
             else stream_write_all (drop k data) w'))"
  by pat_completeness auto
termination
  by (relation "measure (\<lambda>(data, w). length (writes w) + length (ssl_writes w))")
    (auto simp: wait_writable_def dest!: SSL_write_measure sys_write_net)

declare stream_write_all.simps [simp del]

lemma sys_poll_net: "(Some p, w') = sys_poll t w \<Longrightarrow> length (polls w') < length (polls w) \<and> ssl_reads w' = ssl_reads w \<and> tls w' = tls w"
  by (auto simp: sys_poll_def Let_def split: list.splits)

text \<open>\<^verbatim>\<open>std::min\<close> with the largest \<^verbatim>\<open>int\<close> keeps the timeout of \<^verbatim>\<open>poll\<close> in range.\<close>

function poll_readable :: "int option \<Rightarrow> 'a net_scheme \<Rightarrow> unit outcome \<times> 'a net_scheme" where
  "poll_readable deadline w =
     (let t = fst (now w); w = snd (now w) in
      if (case deadline of None \<Rightarrow> False | Some d \<Rightarrow> t \<ge> d) then (Throw VynkorTimeout, w)
      else
        let remaining_ms = (case deadline of None \<Rightarrow> -1 | Some d \<Rightarrow> cast_int (min (ms_of_ns (d - t)) (2 ^ 31 - 1))) in
        (case sys_poll remaining_ms w of
           (None, w') \<Rightarrow> (Pending, w')
         | (Some PIntr, w') \<Rightarrow> poll_readable deadline w'
         | (Some PErr, w') \<Rightarrow> (Throw (VynkorIoError ''websocket poll failed''), w')
         | (Some PTimeout, w') \<Rightarrow> (if remaining_ms \<ge> 0 then Throw VynkorTimeout else Ret (), w')
         | (Some PReady, w') \<Rightarrow> (Ret (), w')))"
  by pat_completeness auto
termination
  by (relation "measure (\<lambda>(d, w). length (polls w))") (auto simp: now_def dest!: sys_poll_net)

declare poll_readable.simps [simp del]

lemma poll_readable_weight:
  "length (polls (snd (poll_readable d w))) \<le> length (polls w) \<and>
   (fst (poll_readable d w) = Ret u \<longrightarrow> length (polls (snd (poll_readable d w))) < length (polls w)) \<and>
   ssl_reads (snd (poll_readable d w)) = ssl_reads w \<and> tls (snd (poll_readable d w)) = tls w"
proof (induction "length (polls w)" arbitrary: w rule: less_induct)
  case less
  show ?case
  proof (cases "polls w")
    case Nil
    then show ?thesis
      by (subst (1 2 3 4 5) poll_readable.simps) (auto simp: Let_def sys_poll_def now_def split: option.splits)
  next
    case (Cons p ps)
    define w1 where "w1 = (snd (now w))\<lparr>polled := polled w @ [case d of None \<Rightarrow> -1 | Some d \<Rightarrow> cast_int (min (ms_of_ns (d - fst (now w))) (2 ^ 31 - 1))], polls := ps\<rparr>"
    have w1: "polls w1 = ps" "ssl_reads w1 = ssl_reads w" "tls w1 = tls w" by (simp_all add: w1_def now_def)
    have "poll_readable d w = (Throw VynkorTimeout, snd (now w)) \<or> poll_readable d w = poll_readable d w1 \<or>
      (\<exists>r. poll_readable d w = (r, w1))"
      using Cons by (subst (1 2 4) poll_readable.simps)
        (auto simp: Let_def sys_poll_def w1_def now_def split: option.splits poll_res.splits)
    then show ?thesis
    proof (elim disjE exE)
      assume "poll_readable d w = poll_readable d w1"
      with less [of w1] w1 Cons show ?thesis by auto
    qed (use w1 Cons in \<open>auto simp: now_def\<close>)
  qed
qed

text \<open>What is left of the read-side scripts, for the termination of the read loops.\<close>

definition net_weight :: "'a net_scheme \<Rightarrow> nat" where
  "net_weight w = length (polls w) +
     sum_list (map (\<lambda>(p, r). case r of SslData bs \<Rightarrow> Suc (length bs) | _ \<Rightarrow> 1) (ssl_reads w))"

lemma poll_readable_net_weight:
  "poll_readable d w = (r, w') \<Longrightarrow> net_weight w' \<le> net_weight w \<and> (r = Ret u \<longrightarrow> net_weight w' < net_weight w) \<and> tls w' = tls w"
  using poll_readable_weight [of d w u] by (auto simp: net_weight_def)

lemma SSL_read_weight:
  "SSL_read n w = (r, w') \<Longrightarrow> net_weight w' \<le> net_weight w \<and> (r \<noteq> None \<longrightarrow> r \<noteq> Some (SslData []) \<longrightarrow> 0 < n \<longrightarrow> net_weight w' < net_weight w) \<and> tls w' = tls w"
  by (auto simp: SSL_read_def net_weight_def split: list.splits ssl_read_res.splits if_splits)

lemma sys_read_weight: "sys_read n w = (r, w') \<Longrightarrow> net_weight w' = net_weight w \<and> tls w' = tls w"
  by (auto simp: sys_read_def net_weight_def split: list.splits read_res.splits if_splits)

lemma andthen_cong [fundef_cong]:
  "r = r' \<Longrightarrow> (\<And>a s. r' = (Ret a, s) \<Longrightarrow> f a s = g a s) \<Longrightarrow> andthen r f = andthen r' g"
  by (cases r'; cases "fst r'") (auto simp: andthen_def)

function stream_fill :: "int option \<Rightarrow> 'a net_scheme \<Rightarrow> unit outcome \<times> 'a net_scheme" where
  "stream_fill deadline w =
     (if tls w then
        andthen (if SSL_pending w = 0 then poll_readable deadline w else (Ret (), w)) (\<lambda>_ w1.
          case SSL_read 4096 w1 of
            (None, w2) \<Rightarrow> (Pending, w2)
          | (Some SslWant, w2) \<Rightarrow> stream_fill deadline w2
          | (Some SslZero, w2) \<Rightarrow> (Throw (VynkorIoError ''websocket connection closed''), w2)
          | (Some (SslErr reason), w2) \<Rightarrow> (Throw (throw_ws_io ''websocket read failed'' reason), w2)
          | (Some (SslData bs), w2) \<Rightarrow>
              if bs = [] then (Throw (throw_ws_io ''websocket read failed'' None), w2)
              else (Ret (), w2\<lparr>read_buf := read_buf w2 @ bs\<rparr>))
      else
        andthen (poll_readable deadline w) (\<lambda>_ w1.
          case sys_read 4096 w1 of
            (None, w2) \<Rightarrow> (Pending, w2)
          | (Some RIntr, w2) \<Rightarrow> stream_fill deadline w2
          | (Some RErr, w2) \<Rightarrow> (Throw (VynkorIoError ''websocket connection closed''), w2)
          | (Some (RData bs), w2) \<Rightarrow>
              if bs = [] then (Throw (VynkorIoError ''websocket connection closed''), w2)
              else (Ret (), w2\<lparr>read_buf := read_buf w2 @ bs\<rparr>)))"
  by pat_completeness auto
termination
proof (relation "measure (\<lambda>(d, w). net_weight w)", goal_cases)
  case 1
  show ?case by simp
next
  case (2 d w a w1 r w2 x)
  then have "net_weight w1 \<le> net_weight w" using poll_readable_net_weight [of d w "Ret a" w1] by (auto split: if_splits)
  moreover have "net_weight w2 < net_weight w1" using 2 SSL_read_weight [of 4096 w1 r w2] by (auto dest: sym)
  ultimately show ?case by simp
next
  case (3 d w a w1 r w2 x)
  then have "net_weight w1 < net_weight w" using poll_readable_net_weight [of d w "Ret a" w1 a] by simp
  moreover have "net_weight w2 = net_weight w1" using 3 sys_read_weight [of 4096 w1 r w2] by (auto dest: sym)
  ultimately show ?case by simp
qed

declare stream_fill.simps [simp del]

lemma net_weight_read_buf [simp]: "net_weight (w\<lparr>read_buf := b\<rparr>) = net_weight w"
  by (simp add: net_weight_def)

lemma stream_fill_weight: "stream_fill d w = (Ret u, w') \<Longrightarrow> net_weight w' < net_weight w"
proof (induction d w rule: stream_fill.induct)
  case (1 d w)
  show ?case
  proof (cases "tls w")
    case True
    obtain p w1 where p: "(if SSL_pending w = 0 then poll_readable d w else (Ret (), w)) = (p, w1)" by fastforce
    with True "1.prems" have pr: "p = Ret ()" by (cases p) (auto simp: stream_fill.simps [of d w])
    then have le: "net_weight w1 \<le> net_weight w"
      using p poll_readable_net_weight [of d w p w1] by (auto split: if_splits)
    obtain r w2 where r: "SSL_read 4096 w1 = (r, w2)" by fastforce
    note rw = SSL_read_weight [OF r]
    have eq: "(case (r, w2) of (None, w2) \<Rightarrow> (Pending, w2)
        | (Some SslWant, w2) \<Rightarrow> stream_fill d w2
        | (Some SslZero, w2) \<Rightarrow> (Throw (VynkorIoError ''websocket connection closed''), w2)
        | (Some (SslErr reason), w2) \<Rightarrow> (Throw (throw_ws_io ''websocket read failed'' reason), w2)
        | (Some (SslData bs), w2) \<Rightarrow> if bs = [] then (Throw (throw_ws_io ''websocket read failed'' None), w2)
            else (Ret (), w2\<lparr>read_buf := read_buf w2 @ bs\<rparr>)) = (Ret u, w')"
      using "1.prems" True p pr r by (simp add: stream_fill.simps [of d w])
    have ih: "stream_fill d w2 = (Ret u, w') \<Longrightarrow> r = Some SslWant \<Longrightarrow> net_weight w' < net_weight w2"
      using "1.IH"(1) [OF True p [unfolded pr]] r by auto
    show ?thesis using eq ih rw le
      by (auto split: option.splits ssl_read_res.splits if_splits)
  next
    case False
    obtain p w1 where p: "poll_readable d w = (p, w1)" by fastforce
    with False "1.prems" have pr: "p = Ret ()" by (cases p) (auto simp: stream_fill.simps [of d w])
    then have lt: "net_weight w1 < net_weight w"
      using p poll_readable_net_weight [of d w p w1 "()"] by auto
    obtain r w2 where r: "sys_read 4096 w1 = (r, w2)" by fastforce
    note rw = sys_read_weight [OF r]
    have eq: "(case (r, w2) of (None, w2) \<Rightarrow> (Pending, w2)
        | (Some RIntr, w2) \<Rightarrow> stream_fill d w2
        | (Some RErr, w2) \<Rightarrow> (Throw (VynkorIoError ''websocket connection closed''), w2)
        | (Some (RData bs), w2) \<Rightarrow> if bs = [] then (Throw (VynkorIoError ''websocket connection closed''), w2)
            else (Ret (), w2\<lparr>read_buf := read_buf w2 @ bs\<rparr>)) = (Ret u, w')"
      using "1.prems" False p pr r by (simp add: stream_fill.simps [of d w])
    have ih: "stream_fill d w2 = (Ret u, w') \<Longrightarrow> r = Some RIntr \<Longrightarrow> net_weight w' < net_weight w2"
      using "1.IH"(2) [OF False p [unfolded pr]] r by auto
    show ?thesis using eq ih rw lt
      by (auto split: option.splits read_res.splits if_splits)
  qed
qed

section \<open>Messages\<close>

text \<open>Writing touches the write scripts, the bytes sent and the recorded poll timeouts only.\<close>

definition writes_only :: "'a net_scheme \<Rightarrow> 'a net_scheme \<Rightarrow> bool" where
  "writes_only w w' \<longleftrightarrow> net_weight w' = net_weight w \<and> reads w' = reads w \<and> polls w' = polls w \<and>
     ssl_reads w' = ssl_reads w \<and> read_buf w' = read_buf w \<and> tls w' = tls w \<and> clock w' = clock w \<and> ticks w' = ticks w \<and>
     rng w' = rng w \<and> rand_ok w' = rand_ok w \<and> ws_open w' = ws_open w \<and> net.more w' = net.more w"

lemma writes_only_refl [simp]: "writes_only w w"
  by (simp add: writes_only_def)

lemma writes_only_trans: "writes_only a b \<Longrightarrow> writes_only b c \<Longrightarrow> writes_only a c"
  by (simp add: writes_only_def)

lemma writes_only_SSL_write: "SSL_write d w = (r, w') \<Longrightarrow> writes_only w w'"
  by (auto simp: SSL_write_def writes_only_def net_weight_def split: list.splits ssl_write_res.splits)

lemma writes_only_sys_write: "sys_write d w = (r, w') \<Longrightarrow> writes_only w w'"
  by (auto simp: sys_write_def writes_only_def net_weight_def split: list.splits write_res.splits)

lemma writes_only_wait [simp]: "writes_only w (wait_writable w)"
  by (simp add: wait_writable_def writes_only_def net_weight_def)

lemma writes_only_stream_write_all: "writes_only w (snd (stream_write_all data w))"
proof (induction data w rule: stream_write_all.induct)
  case (1 data w)
  obtain r w1 where r: "SSL_write data w = (r, w1)" by fastforce
  obtain s w2 where s: "sys_write data w = (s, w2)" by fastforce
  note ro = writes_only_SSL_write [OF r] and so = writes_only_sys_write [OF s]
  have ih1: "data \<noteq> [] \<Longrightarrow> tls w \<Longrightarrow> r = Some (SslWrote k) \<Longrightarrow> k \<noteq> 0 \<Longrightarrow> writes_only w (snd (stream_write_all (drop k data) w1))" for k
    using "1.IH"(1) [of r w1 "SslWrote k" k] r writes_only_trans [OF ro] by auto
  have ih2: "data \<noteq> [] \<Longrightarrow> tls w \<Longrightarrow> r = Some SslWWant \<Longrightarrow> writes_only w (snd (stream_write_all data (wait_writable w1)))"
    using "1.IH"(2) [of r w1 SslWWant] r writes_only_trans [OF ro writes_only_trans [OF writes_only_wait]] by auto
  have ih3: "data \<noteq> [] \<Longrightarrow> \<not> tls w \<Longrightarrow> s = Some (WCount k) \<Longrightarrow> k \<noteq> 0 \<Longrightarrow> writes_only w (snd (stream_write_all (drop k data) w2))" for k
    using "1.IH"(3) [of s w2 "WCount k" k] s writes_only_trans [OF so] by auto
  have ih4: "data \<noteq> [] \<Longrightarrow> \<not> tls w \<Longrightarrow> s = Some WIntr \<Longrightarrow> writes_only w (snd (stream_write_all data w2))"
    using "1.IH"(4) [of s w2 WIntr] s writes_only_trans [OF so] by auto
  show ?case
    using ro so ih1 ih2 ih3 ih4 r s
    by (subst stream_write_all.simps) (auto split: option.splits ssl_write_res.splits write_res.splits)
qed

text \<open>One frame: fresh mask, encoding, write.\<close>

definition ws_send_frame :: "byte \<Rightarrow> bytes \<Rightarrow> 'a net_scheme \<Rightarrow> unit outcome \<times> 'a net_scheme" where
  "ws_send_frame opcode payload w =
     (let (rand, w) = RAND_bytes 4 w in
      case ws_encode_client_frame rand opcode payload of
        Inl e \<Rightarrow> (Throw e, w)
      | Inr frame \<Rightarrow> stream_write_all frame w)"

definition send_binary :: "bytes \<Rightarrow> 'a net_scheme \<Rightarrow> unit outcome \<times> 'a net_scheme" where
  "send_binary data w = ws_send_frame OP_BINARY data w"

text \<open>
  The switch over the opcode. \<open>Inl\<close> is the loop state (\<^verbatim>\<open>in_message\<close>, \<^verbatim>\<open>message\<close>) of the next
  iteration, \<open>Inr\<close> the message that is returned. A failing reply to a close frame is ignored.
\<close>

definition ws_handle_frame ::
    "bool \<Rightarrow> bytes \<Rightarrow> WsIncomingFrame \<Rightarrow> 'a net_scheme \<Rightarrow> (bool \<times> bytes + bytes) outcome \<times> 'a net_scheme" where
  "ws_handle_frame in_message message frame w =
     (if wf_opcode frame = OP_BINARY then
        if in_message then (Throw (VynkorInternal ''websocket: unexpected binary fragment start''), w)
        else if wf_fin frame then (Ret (Inr (wf_payload frame)), w)
        else (Ret (Inl (True, wf_payload frame)), w)
      else if wf_opcode frame = OP_CONT then
        if \<not> in_message then (Throw (VynkorInternal ''websocket: continuation without a started message''), w)
        else
          let message = message @ wf_payload frame in
          if length message > WS_MAX_MESSAGE_SIZE then (Throw (VynkorPayloadTooLarge (length message)), w)
          else if wf_fin frame then (Ret (Inr message), w)
          else (Ret (Inl (in_message, message)), w)
      else if wf_opcode frame = OP_TEXT then (Ret (Inl (in_message, message)), w)
      else if wf_opcode frame = OP_PING then
        andthen (ws_send_frame OP_PONG (wf_payload frame) w) (\<lambda>_ w. (Ret (Inl (in_message, message)), w))
      else if wf_opcode frame = OP_PONG then (Ret (Inl (in_message, message)), w)
      else if wf_opcode frame = OP_CLOSE then
        (case ws_send_frame OP_CLOSE (take (min (length (wf_payload frame)) 125) (wf_payload frame)) w of
           (Pending, w) \<Rightarrow> (Pending, w)
         | (_, w) \<Rightarrow> (Throw (VynkorIoError ''websocket connection closed''), w))
      else (Throw (VynkorInternal (''websocket: unknown opcode '' @ to_string (unat (wf_opcode frame)))), w))"

lemma ws_send_frame_only: "writes_only w (snd (ws_send_frame opcode payload w))"
proof -
  have "writes_only w (w\<lparr>draws := Suc (draws w)\<rparr>)" by (simp add: writes_only_def net_weight_def)
  then show ?thesis
    using writes_only_trans [OF _ writes_only_stream_write_all]
    by (auto simp: ws_send_frame_def RAND_bytes_def Let_def split: sum.split)
qed

lemma ws_handle_frame_only: "ws_handle_frame im m f w = (r, w') \<Longrightarrow> writes_only w w'"
proof -
  assume h: "ws_handle_frame im m f w = (r, w')"
  obtain a v where a: "ws_send_frame OP_PONG (wf_payload f) w = (a, v)" by fastforce
  obtain b u where b: "ws_send_frame OP_CLOSE (take (min (length (wf_payload f)) 125) (wf_payload f)) w = (b, u)" by fastforce
  have "writes_only w v" "writes_only w u" using ws_send_frame_only a b by (metis snd_conv)+
  with h a b show ?thesis
    by (auto simp: ws_handle_frame_def Let_def andthen_def split: if_splits outcome.splits)
qed

lemma decode_consumed:
  "ws_try_decode_server_frame buf = Inr (Some (f, k)) \<Longrightarrow> 2 \<le> k \<and> k \<le> length buf"
  by (auto simp: ws_try_decode_server_frame_def Let_def split: if_splits)

function receive_loop :: "int option \<Rightarrow> bool \<Rightarrow> bytes \<Rightarrow> 'a net_scheme \<Rightarrow> bytes outcome \<times> 'a net_scheme" where
  "receive_loop deadline in_message message w =
     (case ws_try_decode_server_frame (read_buf w) of
        Inl e \<Rightarrow> (Throw e, w)
      | Inr None \<Rightarrow>
          if length (read_buf w) > WS_MAX_MESSAGE_SIZE then (Throw (VynkorPayloadTooLarge (WS_MAX_MESSAGE_SIZE + 1)), w)
          else (case stream_fill deadline w of
             (Ret _, w') \<Rightarrow> receive_loop deadline in_message message w'
           | (Throw e, w') \<Rightarrow> (Throw e, w')
           | (Pending, w') \<Rightarrow> (Pending, w'))
      | Inr (Some (frame, consumed)) \<Rightarrow>
          (case ws_handle_frame in_message message frame (w\<lparr>read_buf := drop consumed (read_buf w)\<rparr>) of
             (Ret (Inr m), w') \<Rightarrow> (Ret m, w')
           | (Ret (Inl (im, m)), w') \<Rightarrow> receive_loop deadline im m w'
           | (Throw e, w') \<Rightarrow> (Throw e, w')
           | (Pending, w') \<Rightarrow> (Pending, w')))"
  by pat_completeness auto
termination
proof (relation "(\<lambda>(d, im, m, w). net_weight w) <*mlex*> measure (\<lambda>(d, im, m, w). length (read_buf w))", goal_cases)
  case 1
  show ?case by (intro wf_mlex) simp
next
  case 2
  then show ?case by (intro mlex_less) (auto dest: stream_fill_weight sym)
next
  case (3 d im m w r x frame consumed y w' z p im' m')
  then have "ws_try_decode_server_frame (read_buf w) = Inr (Some (frame, consumed))" by simp
  from decode_consumed [OF this] have k: "2 \<le> consumed" "consumed \<le> length (read_buf w)" by simp_all
  have "writes_only (w\<lparr>read_buf := drop consumed (read_buf w)\<rparr>) w'" using 3 ws_handle_frame_only by metis
  then have "net_weight w' = net_weight w" "length (read_buf w') < length (read_buf w)"
    using k by (auto simp: writes_only_def)
  then show ?case by (intro mlex_leq) auto
qed

declare receive_loop.simps [simp del]

definition receive_binary_deadline :: "int option \<Rightarrow> 'a net_scheme \<Rightarrow> bytes outcome \<times> 'a net_scheme" where
  "receive_binary_deadline deadline w = receive_loop deadline False [] w"

definition receive_binary :: "'a net_scheme \<Rightarrow> bytes outcome \<times> 'a net_scheme" where
  "receive_binary w = receive_binary_deadline None w"

definition teardown :: "'a net_scheme \<Rightarrow> 'a net_scheme" where
  "teardown w = w\<lparr>tls := False, ws_open := False\<rparr>"

text \<open>The destructor of a connection.\<close>

definition ws_destroy :: "'a net_scheme \<Rightarrow> 'a net_scheme" where
  "ws_destroy w = teardown w"

text \<open>\<open>WsConnection::close\<close>: a best-effort close frame, then the teardown. It never throws.\<close>

definition ws_close :: "'a net_scheme \<Rightarrow> unit outcome \<times> 'a net_scheme" where
  "ws_close w = (case ws_send_frame OP_CLOSE [] w of
      (Pending, w) \<Rightarrow> (Pending, w)
    | (_, w) \<Rightarrow> (Ret (), teardown w))"

section \<open>The opening handshake\<close>

definition kWsGuid :: string where "kWsGuid = ''258EAFA5-E914-47DA-95CA-C5AB0DC85B11''"

definition CRLF :: string where "CRLF = [CHR 0x0D, CHR 0x0A]"

record wslib = extlib +
  EVP_sha1 :: "bytes \<Rightarrow> bytes option"
  EVP_EncodeBlock :: "bytes \<Rightarrow> string"

definition base64_encode :: "'l wslib_scheme \<Rightarrow> bytes \<Rightarrow> string" where
  "base64_encode L data = EVP_EncodeBlock L data"

definition sha1_base64 :: "'l wslib_scheme \<Rightarrow> string \<Rightarrow> string result" where
  "sha1_base64 L input = (case EVP_sha1 L (bytes_of input) of
      None \<Rightarrow> Inl (VynkorInternal ''EVP_Digest(SHA-1) failed'')
    | Some digest \<Rightarrow> Inr (base64_encode L digest))"

text \<open>Outcomes of the address loop and of the OpenSSL set-up calls.\<close>

datatype conn_res = SockFail string | ConnFail string | ConnOk
datatype ssl_setup_res = SetupOk | CtxNewFail "string option" | PathsFail "string option"
  | SslNewFail "string option" | HandshakeFail "string option"

record ws_env =
  addrinfo :: "conn_res list option"
  ssl_setup :: ssl_setup_res

fun try_addrs :: "conn_res list \<Rightarrow> string option \<Rightarrow> bool \<times> string option" where
  "try_addrs [] last_errno = (False, last_errno)"
| "try_addrs (SockFail e # ai) last_errno = try_addrs ai (Some e)"
| "try_addrs (ConnFail e # ai) last_errno = try_addrs ai (Some e)"
| "try_addrs (ConnOk # ai) last_errno = (True, None)"

definition handshake_request :: "WsUrl \<Rightarrow> string \<Rightarrow> string \<Rightarrow> string \<Rightarrow> string" where
  "handshake_request url port_str key protocol =
     ''GET '' @ url_path url @ '' HTTP/1.1'' @ CRLF @
     ''Host: '' @ url_host url @ '':'' @ port_str @ CRLF @
     ''Upgrade: websocket'' @ CRLF @
     ''Connection: Upgrade'' @ CRLF @
     ''Sec-WebSocket-Key: '' @ key @ CRLF @
     ''Sec-WebSocket-Version: 13'' @ CRLF @
     (if protocol \<noteq> [] then ''Sec-WebSocket-Protocol: '' @ protocol @ CRLF else []) @
     CRLF"

text \<open>\<^verbatim>\<open>std::search\<close>: the position of the first occurrence.\<close>

fun find_sub :: "'a list \<Rightarrow> 'a list \<Rightarrow> nat option" where
  "find_sub pat [] = (if pat = [] then Some 0 else None)"
| "find_sub pat (x # xs) = (if take (length pat) (x # xs) = pat then Some 0 else map_option Suc (find_sub pat xs))"

function read_head :: "'a net_scheme \<Rightarrow> nat outcome \<times> 'a net_scheme" where
  "read_head w = (case find_sub (bytes_of (CRLF @ CRLF)) (read_buf w) of
      Some i \<Rightarrow> (Ret i, w)
    | None \<Rightarrow>
        if length (read_buf w) > 16384 then (Throw (VynkorInternal ''websocket handshake response too large''), w)
        else (case stream_fill (Some (fst (now w) + 30 * 1000000000)) (snd (now w)) of
           (Ret _, w') \<Rightarrow> read_head w'
         | (Throw e, w') \<Rightarrow> (Throw e, w')
         | (Pending, w') \<Rightarrow> (Pending, w')))"
  by pat_completeness auto
termination
proof (relation "measure net_weight", goal_cases)
  case (2 w r w' x)
  then have "net_weight w' < net_weight (snd (now w))" using stream_fill_weight by metis
  moreover have "net_weight (snd (now w)) = net_weight w" by (simp add: now_def net_weight_def)
  ultimately show ?case by simp
qed simp

declare read_head.simps [simp del]

text \<open>\<^verbatim>\<open>std::getline\<close> until the end of the stream.\<close>

function getlines :: "string \<Rightarrow> string list" where
  "getlines s = (if s = [] then [] else
     takeWhile (\<lambda>c. c \<noteq> CHR 0x0A) s # getlines (drop 1 (dropWhile (\<lambda>c. c \<noteq> CHR 0x0A) s)))"
  by pat_completeness auto
termination
proof (relation "measure length", goal_cases)
  case (2 s)
  then have "0 < length s" by simp
  with length_dropWhile_le [of "\<lambda>c. c \<noteq> CHR 0x0A" s] show ?case by (simp del: length_greater_0_conv)
qed simp

declare getlines.simps [simp del]

definition trim :: "string \<Rightarrow> string" where
  "trim s = (let blank = (\<lambda>c. c = CHR '' '' \<or> c = CHR 0x09) in rev (dropWhile blank (rev (dropWhile blank s))))"

text \<open>A header line: its trimmed name and value.\<close>

definition header_line :: "string \<Rightarrow> (string \<times> string) option" where
  "header_line line = (let line = (if line \<noteq> [] \<and> last line = CHR 0x0D then butlast line else line) in
     case find_char CHR '':'' line of
       None \<Rightarrow> None
     | Some colon \<Rightarrow> Some (trim (take colon line), trim (drop (colon + 1) line)))"

fun scan_headers :: "string \<Rightarrow> string list \<Rightarrow> bool \<Rightarrow> bool \<Rightarrow> bool \<times> bool" where
  "scan_headers expected [] saw_upgrade accept_ok = (saw_upgrade, accept_ok)"
| "scan_headers expected (line # ls) saw_upgrade accept_ok = (case header_line line of
      None \<Rightarrow> scan_headers expected ls saw_upgrade accept_ok
    | Some (name, value) \<Rightarrow> scan_headers expected ls
        (saw_upgrade \<or> (iequal name ''upgrade'' \<and> iequal value ''websocket''))
        (accept_ok \<or> (iequal name ''sec-websocket-accept'' \<and> value = expected)))"

definition check_response :: "'l wslib_scheme \<Rightarrow> string \<Rightarrow> string \<Rightarrow> unit result" where
  "check_response L key head =
     (let ls = getlines head; status_line = (if ls = [] then [] else hd ls) in
      if find_sub '' 101 '' status_line = None \<and> \<not> starts_with ''HTTP/1.1 101'' status_line
      then Inl (VynkorInternal (''websocket handshake rejected: '' @ status_line))
      else bind_result (sha1_base64 L (key @ kWsGuid)) (\<lambda>expected_accept.
        let (saw_upgrade, accept_ok) = scan_headers expected_accept (drop 1 ls) False False in
        if \<not> saw_upgrade then Inl (VynkorInternal ''websocket handshake: missing Upgrade header'')
        else if \<not> accept_ok then Inl (VynkorInternal ''websocket handshake: Sec-WebSocket-Accept mismatch'')
        else Inr ()))"

text \<open>The TCP connection, then TLS when the URL asks for it.\<close>

definition ws_open_socket :: "ws_env \<Rightarrow> WsUrl \<Rightarrow> unit result" where
  "ws_open_socket E url =
     (let port_str = to_string (unat (url_port url)) in
      case addrinfo E of
        None \<Rightarrow> Inl (VynkorIoError (''websocket connect: getaddrinfo failed for '' @ url_host url))
      | Some ai \<Rightarrow>
          (case try_addrs ai None of
             (False, last_errno) \<Rightarrow> Inl (VynkorIoError (''websocket connect failed: '' @ url_host url @ '':'' @ port_str @
               (case last_errno of None \<Rightarrow> [] | Some e \<Rightarrow> '' ('' @ e @ '')'')))
           | (True, _) \<Rightarrow>
               if url_tls url then
                 (case ssl_setup E of
                    SetupOk \<Rightarrow> Inr ()
                  | CtxNewFail r \<Rightarrow> Inl (throw_ws_io ''SSL_CTX_new failed'' r)
                  | PathsFail r \<Rightarrow> Inl (throw_ws_io ''SSL_CTX_set_default_verify_paths failed'' r)
                  | SslNewFail r \<Rightarrow> Inl (throw_ws_io ''SSL_new failed'' r)
                  | HandshakeFail r \<Rightarrow> Inl (throw_ws_io (''TLS handshake failed with '' @ url_host url) r))
               else Inr ()))"

text \<open>
  \<open>WsConnection::connect\<close>. An exception destroys the half-open connection, which tears it down.
\<close>

definition ws_connect :: "'l wslib_scheme \<Rightarrow> ws_env \<Rightarrow> WsUrl \<Rightarrow> string \<Rightarrow> 'a net_scheme \<Rightarrow> unit outcome \<times> 'a net_scheme" where
  "ws_connect L E url protocol w =
     (let r = (case ws_open_socket E url of
         Inl e \<Rightarrow> (Throw e, w)
       | Inr _ \<Rightarrow>
           let w = w\<lparr>ws_open := True, tls := url_tls url, read_buf := []\<rparr>;
               (rand, w) = RAND_bytes 16 w in
           (case rand of
              None \<Rightarrow> (Throw (VynkorInternal ''RAND_bytes failed''), w)
            | Some nonce \<Rightarrow>
                let key = base64_encode L nonce;
                    request = handshake_request url (to_string (unat (url_port url))) key protocol in
                andthen (stream_write_all (bytes_of request) w) (\<lambda>_ w.
                  andthen (read_head w) (\<lambda>head_end w.
                    let head = string_of (take head_end (read_buf w));
                        w = w\<lparr>read_buf := drop (head_end + 4) (read_buf w)\<rparr> in
                    (lift_result (check_response L key head), w))))) in
      case r of (Throw e, w) \<Rightarrow> (Throw e, ws_destroy w) | _ \<Rightarrow> r)"

end
