(* ===== verification/Vyn_Ws_Spec.thy ===== *)
theory Vyn_Ws_Spec
  imports Vyn_Ws_Connection
begin

text \<open>
  What the WebSocket connection promises: messages arrive whole however the server fragments them,
  however TCP segments the bytes and wherever calls are interrupted; pings between the fragments
  are answered; and closing never fails. All of it holds over TCP and over TLS.
\<close>

section \<open>The byte stream under a calm network\<close>

definition rweight :: "read_res list \<Rightarrow> nat" where
  "rweight rs = sum_list (map (\<lambda>r. case r of RData bs \<Rightarrow> Suc (length bs) | _ \<Rightarrow> 1) rs)"

lemma rweight_simps [simp]:
  "rweight [] = 0" "rweight (RData bs # rs) = Suc (length bs) + rweight rs"
  "rweight (RIntr # rs) = Suc (rweight rs)" "rweight (RErr # rs) = Suc (rweight rs)"
  by (simp_all add: rweight_def)

text \<open>The same for a TLS session: the results of \<^verbatim>\<open>SSL_read\<close> and the plaintext they deliver.\<close>

definition ssl_weight :: "(nat \<times> ssl_read_res) list \<Rightarrow> nat" where
  "ssl_weight rs = sum_list (map (\<lambda>(p, r). case r of SslData bs \<Rightarrow> Suc (length bs) | _ \<Rightarrow> 1) rs)"

lemma ssl_weight_simps [simp]:
  "ssl_weight [] = 0" "ssl_weight ((p, SslData bs) # rs) = Suc (length bs) + ssl_weight rs"
  "ssl_weight ((p, SslWant) # rs) = Suc (ssl_weight rs)" "ssl_weight ((p, SslZero) # rs) = Suc (ssl_weight rs)"
  "ssl_weight ((p, SslErr e) # rs) = Suc (ssl_weight rs)"
  by (simp_all add: ssl_weight_def)

fun ssl_stream_of :: "(nat \<times> ssl_read_res) list \<Rightarrow> bytes" where
  "ssl_stream_of [] = []"
| "ssl_stream_of ((p, SslData bs) # rs) = (if bs = [] then [] else bs @ ssl_stream_of rs)"
| "ssl_stream_of ((p, SslWant) # rs) = ssl_stream_of rs"
| "ssl_stream_of ((p, r) # rs) = []"

text \<open>
  What the connection, TCP or TLS, still delivers: the bytes behind the read buffer, the buffer
  included, and the number of calls it may take.
\<close>

definition unread :: "'a net_scheme \<Rightarrow> bytes" where
  "unread w = (if tls w then ssl_stream_of (ssl_reads w) else stream_of (reads w))"

definition incoming :: "'a net_scheme \<Rightarrow> bytes" where
  "incoming w = read_buf w @ unread w"

definition unread_weight :: "'a net_scheme \<Rightarrow> nat" where
  "unread_weight w = (if tls w then ssl_weight (ssl_reads w) else rweight (reads w))"

lemma unread_read_buf [simp]:
  "unread (w\<lparr>read_buf := x\<rparr>) = unread w" "unread_weight (w\<lparr>read_buf := x\<rparr>) = unread_weight w"
  "incoming (w\<lparr>read_buf := x\<rparr>) = x @ unread w"
  by (simp_all add: unread_def unread_weight_def incoming_def)

lemma incoming_writes_only: "writes_only w w' \<Longrightarrow> incoming w' = incoming w"
  by (simp add: writes_only_def incoming_def unread_def)

lemma unread_pos: "unread w \<noteq> [] \<Longrightarrow> 0 < unread_weight w"
proof (cases "tls w")
  case True
  assume "unread w \<noteq> []"
  with True show ?thesis
    by (cases "ssl_reads w" rule: ssl_stream_of.cases) (auto simp: unread_def unread_weight_def)
next
  case False
  assume "unread w \<noteq> []"
  with False show ?thesis
    by (cases "reads w" rule: stream_of.cases) (auto simp: unread_def unread_weight_def)
qed

text \<open>
  A connection with enough readiness reports for the bytes to come and a random source that works.
\<close>

definition ws_calm :: "'a net_scheme \<Rightarrow> bool" where
  "ws_calm w \<longleftrightarrow> calm (polls w) \<and> unread_weight w \<le> ready_count (polls w) \<and> (\<forall>i. rand_ok w i)"

text \<open>What reading leaves alone.\<close>

definition same_out :: "'a net_scheme \<Rightarrow> 'a net_scheme \<Rightarrow> bool" where
  "same_out w w' \<longleftrightarrow> writes w' = writes w \<and> ssl_writes w' = ssl_writes w \<and> sent w' = sent w \<and> tls w' = tls w \<and>
     rng w' = rng w \<and> rand_ok w' = rand_ok w \<and> draws w' = draws w \<and> ws_open w' = ws_open w \<and> net.more w' = net.more w"

lemma same_out_refl [simp]: "same_out w w"
  by (simp add: same_out_def)

lemma same_out_trans: "same_out a b \<Longrightarrow> same_out b c \<Longrightarrow> same_out a c"
  by (simp add: same_out_def)

text \<open>A deadline that no reading of the clock reaches.\<close>

definition far :: "int option \<Rightarrow> 'a world_scheme \<Rightarrow> bool" where
  "far d w \<longleftrightarrow> (case d of None \<Rightarrow> True | Some t \<Rightarrow> \<forall>i. clock w i < t)"

lemma far_cong: "clock w' = clock w \<Longrightarrow> far d w' = far d w"
  by (cases d) (simp_all add: far_def)

lemma poll_readable_calm:
  assumes "calm (polls w)" "0 < ready_count (polls w)" "far d w"
  obtains w' where "poll_readable d w = (Ret (), w')" "calm (polls w')" "Suc (ready_count (polls w')) = ready_count (polls w)"
    "reads w' = reads w" "ssl_reads w' = ssl_reads w" "read_buf w' = read_buf w" "clock w' = clock w" "same_out w w'"
  using assms
proof (induction "length (polls w)" arbitrary: w thesis rule: less_induct)
  case less
  from less.prems(3) obtain p ps where ps: "polls w = p # ps" by (cases "polls w") auto
  define t where "t = (case d of None \<Rightarrow> - 1 | Some d \<Rightarrow> cast_int (min (ms_of_ns (d - fst (now w))) (2 ^ 31 - 1)))"
  define w1 where "w1 = (snd (now w))\<lparr>polled := polled w @ [t], polls := ps\<rparr>"
  have w1: "polls w1 = ps" "reads w1 = reads w" "ssl_reads w1 = ssl_reads w" "read_buf w1 = read_buf w" "clock w1 = clock w"
    "same_out w w1"
    by (simp_all add: w1_def now_def same_out_def)
  have far: "far d w1" using less.prems(4) far_cong [OF w1(5)] by blast
  have late: "\<not> (case d of None \<Rightarrow> False | Some d \<Rightarrow> fst (now w) \<ge> d)"
    using less.prems(4) by (auto simp: far_def now_def split: option.splits) (meson leD)
  have step: "sys_poll t (snd (now w)) = (Some p, w1)" using ps by (simp add: sys_poll_def w1_def now_def)
  from less.prems(2) ps consider "p = PReady" | "p = PIntr" by auto
  then show ?case
  proof cases
    case 1
    then have "poll_readable d w = (Ret (), w1)"
      using late step by (subst poll_readable.simps) (simp add: Let_def t_def)
    with less.prems ps 1 w1 show ?thesis by (intro less.prems(1) [of w1]) simp_all
  next
    case 2
    then have eq: "poll_readable d w = poll_readable d w1"
      using late step by (subst poll_readable.simps) (simp add: Let_def t_def)
    obtain w' where w': "poll_readable d w1 = (Ret (), w')" "calm (polls w')" "Suc (ready_count (polls w')) = ready_count (polls w1)"
      "reads w' = reads w1" "ssl_reads w' = ssl_reads w1" "read_buf w' = read_buf w1" "clock w' = clock w1" "same_out w1 w'"
      using less.hyps [of w1] less.prems(2,3) ps 2 w1(1) far by auto
    show ?thesis
      by (rule less.prems(1) [of w']) (use w' eq w1 ps 2 same_out_trans in auto)
  qed
qed

text \<open>One call that fetches bytes: \<^verbatim>\<open>SSL_read\<close> or \<^verbatim>\<open>read\<close>, after the poll it needs.\<close>

lemma poll_then_read:
  assumes "ws_calm w" "unread w \<noteq> []" "far d w"
  obtains w1 where "(if \<not> tls w \<or> SSL_pending w = 0 then poll_readable d w else (Ret (), w)) = (Ret (), w1)"
    "calm (polls w1)" "unread_weight w1 \<le> Suc (ready_count (polls w1))" "reads w1 = reads w" "ssl_reads w1 = ssl_reads w"
    "read_buf w1 = read_buf w" "clock w1 = clock w" "same_out w w1"
proof (cases "\<not> tls w \<or> SSL_pending w = 0")
  case True
  have "calm (polls w)" "0 < ready_count (polls w)" using assms(1) unread_pos [OF assms(2)] by (auto simp: ws_calm_def)
  then obtain w1 where "poll_readable d w = (Ret (), w1)" "calm (polls w1)" "Suc (ready_count (polls w1)) = ready_count (polls w)"
    "reads w1 = reads w" "ssl_reads w1 = ssl_reads w" "read_buf w1 = read_buf w" "clock w1 = clock w" "same_out w w1"
    using poll_readable_calm assms(3) by blast
  with True assms(1) show thesis by (intro that [of w1]) (auto simp: ws_calm_def unread_weight_def same_out_def)
next
  case False
  with assms(1) show thesis by (intro that [of w]) (auto simp: ws_calm_def)
qed

text \<open>What one filling of the buffer achieves: some bytes move from the network into the buffer.\<close>

definition filled :: "'a net_scheme \<Rightarrow> 'a net_scheme \<Rightarrow> bool" where
  "filled w w' \<longleftrightarrow> (\<exists>bs. bs \<noteq> [] \<and> read_buf w' = read_buf w @ bs \<and> unread w = bs @ unread w') \<and>
     ws_calm w' \<and> clock w' = clock w \<and> same_out w w'"

text \<open>
  One round of \<open>stream_fill\<close> on a connection that delivers: it has taken something from the stream,
  or it starts over with less to go.
\<close>

definition starts_over :: "int option \<Rightarrow> 'a net_scheme \<Rightarrow> 'a net_scheme \<Rightarrow> bool" where
  "starts_over d w v \<longleftrightarrow> stream_fill d w = stream_fill d v \<and> unread_weight v < unread_weight w \<and> ws_calm v \<and> unread v = unread w \<and>
     read_buf v = read_buf w \<and> clock v = clock w \<and> same_out w v"

lemma stream_fill_round_tls:
  assumes "ws_calm w" "unread w \<noteq> []" "far d w" "tls w"
  shows "(\<exists>w'. stream_fill d w = (Ret (), w') \<and> filled w w') \<or> (\<exists>v. starts_over d w v)"
proof -
  obtain w1 where w1: "(if \<not> tls w \<or> SSL_pending w = 0 then poll_readable d w else (Ret (), w)) = (Ret (), w1)"
    "calm (polls w1)" "unread_weight w1 \<le> Suc (ready_count (polls w1))" "reads w1 = reads w" "ssl_reads w1 = ssl_reads w"
    "read_buf w1 = read_buf w" "clock w1 = clock w" "same_out w w1"
    by (rule poll_then_read [OF assms(1-3)])
  note so = w1(8) [unfolded same_out_def]
  have rok: "\<forall>i. rand_ok w i" using assms(1) by (simp add: ws_calm_def)
  have p: "(if SSL_pending w = 0 then poll_readable d w else (Ret (), w)) = (Ret (), w1)" using w1(1) assms(4) by simp
  from assms(2,4) obtain q r rs where rs: "ssl_reads w = (q, r) # rs" by (cases "ssl_reads w") (auto simp: unread_def)
  from assms(2,4) rs consider bs where "r = SslData bs" "bs \<noteq> []" | "r = SslWant"
    by (cases r) (auto simp: unread_def split: if_splits)
  then show ?thesis
  proof cases
    case (1 bs)
    let ?v = "w1\<lparr>ssl_reads := (if length bs \<le> 4096 then rs else (length bs - 4096, SslData (drop 4096 bs)) # rs),
        read_buf := read_buf w @ take 4096 bs\<rparr>"
    have ne: "take 4096 bs \<noteq> []" using 1 by simp
    then have "stream_fill d w = (Ret (), ?v)"
      using p assms(4) rs 1 w1(5,6) by (subst stream_fill.simps) (auto simp: SSL_read_def)
    moreover have "filled w ?v"
      using 1 rs assms(4) w1 so rok ne
      by (auto simp: filled_def ws_calm_def unread_weight_def unread_def same_out_def intro!: exI [of _ "take 4096 bs"])
    ultimately show ?thesis by blast
  next
    case 2
    let ?v = "w1\<lparr>ssl_reads := rs\<rparr>"
    have "stream_fill d w = stream_fill d ?v"
      using p assms(4) rs 2 w1(5) by (subst stream_fill.simps) (auto simp: SSL_read_def)
    then have "starts_over d w ?v"
      using 2 rs assms(4) w1 so rok by (auto simp: starts_over_def ws_calm_def unread_weight_def unread_def same_out_def)
    then show ?thesis by blast
  qed
qed

lemma stream_fill_round_plain:
  assumes "ws_calm w" "unread w \<noteq> []" "far d w" "\<not> tls w"
  shows "(\<exists>w'. stream_fill d w = (Ret (), w') \<and> filled w w') \<or> (\<exists>v. starts_over d w v)"
proof -
  obtain w1 where w1: "(if \<not> tls w \<or> SSL_pending w = 0 then poll_readable d w else (Ret (), w)) = (Ret (), w1)"
    "calm (polls w1)" "unread_weight w1 \<le> Suc (ready_count (polls w1))" "reads w1 = reads w" "ssl_reads w1 = ssl_reads w"
    "read_buf w1 = read_buf w" "clock w1 = clock w" "same_out w w1"
    by (rule poll_then_read [OF assms(1-3)])
  note so = w1(8) [unfolded same_out_def]
  have rok: "\<forall>i. rand_ok w i" using assms(1) by (simp add: ws_calm_def)
  have p: "poll_readable d w = (Ret (), w1)" using w1(1) assms(4) by simp
  from assms(2,4) obtain r rs where rs: "reads w = r # rs" by (cases "reads w") (auto simp: unread_def)
  from assms(2,4) rs consider bs where "r = RData bs" "bs \<noteq> []" | "r = RIntr"
    by (cases r) (auto simp: unread_def split: if_splits)
  then show ?thesis
  proof cases
    case (1 bs)
    let ?v = "w1\<lparr>reads := (if length bs \<le> 4096 then rs else RData (drop 4096 bs) # rs), read_buf := read_buf w @ take 4096 bs\<rparr>"
    have ne: "take 4096 bs \<noteq> []" using 1 by simp
    then have "stream_fill d w = (Ret (), ?v)"
      using p assms(4) rs 1 w1(4,6) by (subst stream_fill.simps) (auto simp: sys_read_def)
    moreover have "filled w ?v"
      using 1 rs assms(4) w1 so rok ne
      by (auto simp: filled_def ws_calm_def unread_weight_def unread_def same_out_def intro!: exI [of _ "take 4096 bs"])
    ultimately show ?thesis by blast
  next
    case 2
    let ?v = "w1\<lparr>reads := rs\<rparr>"
    have "stream_fill d w = stream_fill d ?v"
      using p assms(4) rs 2 w1(4) by (subst stream_fill.simps) (auto simp: sys_read_def)
    then have "starts_over d w ?v"
      using 2 rs assms(4) w1 so rok by (auto simp: starts_over_def ws_calm_def unread_weight_def unread_def same_out_def)
    then show ?thesis by blast
  qed
qed

lemma stream_fill_calm:
  assumes "ws_calm w" "unread w \<noteq> []" "far d w"
  obtains w' where "stream_fill d w = (Ret (), w')" "filled w w'"
  using assms
proof (induction "unread_weight w" arbitrary: w thesis rule: less_induct)
  case less
  from stream_fill_round_tls [OF less.prems(2-4)] stream_fill_round_plain [OF less.prems(2-4)]
  consider w' where "stream_fill d w = (Ret (), w')" "filled w w'" | v where "starts_over d w v" by blast
  then show ?case
  proof cases
    case 1
    then show ?thesis by (rule less.prems(1))
  next
    case (2 v)
    then have v: "stream_fill d w = stream_fill d v" "unread_weight v < unread_weight w" "ws_calm v" "unread v = unread w"
      "read_buf v = read_buf w" "clock v = clock w" "same_out w v" by (simp_all add: starts_over_def)
    have "far d v" using less.prems(4) far_cong [OF v(6)] by blast
    then obtain w' where "stream_fill d v = (Ret (), w')" "filled v w'" using less.hyps [OF v(2)] v(3,4) less.prems(3) by metis
    with v same_out_trans [OF v(7)] show ?thesis by (intro less.prems(1) [of w']) (auto simp: filled_def)
  qed
qed

text \<open>A TLS session that keeps taking bytes, and a connection of either kind that takes \<open>n\<close> more.\<close>

definition ssl_accepting :: "nat \<Rightarrow> ssl_write_res list \<Rightarrow> bool" where
  "ssl_accepting n ws \<longleftrightarrow> (\<forall>x \<in> set ws. x = SslWWant \<or> (\<exists>c > 0. x = SslWrote c)) \<and>
     n \<le> length (filter (\<lambda>x. x \<noteq> SslWWant) ws)"

definition ws_accepting :: "nat \<Rightarrow> 'a net_scheme \<Rightarrow> bool" where
  "ws_accepting n w \<longleftrightarrow> (if tls w then ssl_accepting n (ssl_writes w) else accepting n (writes w))"

lemma ws_accepting_less: "ws_accepting n w \<Longrightarrow> m \<le> n \<Longrightarrow> ws_accepting m w"
  by (simp add: ws_accepting_def ssl_accepting_def accepting_def split: if_splits)

lemma ws_accepting_tls:
  assumes "ws_accepting (length data + m) w" "data \<noteq> []" "tls w"
  obtains (want) xs where "ssl_writes w = SslWWant # xs" "ws_accepting (length data + m) (wait_writable (w\<lparr>ssl_writes := xs\<rparr>))"
  | (wrote) c xs where "ssl_writes w = SslWrote c # xs" "0 < c"
      "ws_accepting (length (drop (min c (length data)) data) + m) (w\<lparr>ssl_writes := xs, sent := sent w @ take c data\<rparr>)"
proof -
  from assms obtain x xs where x: "ssl_writes w = x # xs" by (cases "ssl_writes w") (auto simp: ws_accepting_def ssl_accepting_def)
  from assms(1,3) x consider "x = SslWWant" | c where "x = SslWrote c" "0 < c" by (auto simp: ws_accepting_def ssl_accepting_def)
  then show thesis
  proof cases
    case 1
    then show thesis using assms x by (intro want [of xs]) (simp_all add: ws_accepting_def ssl_accepting_def wait_writable_def)
  next
    case (2 c)
    then show thesis using assms x by (intro wrote [of c xs]) (cases data; auto simp: ws_accepting_def ssl_accepting_def)+
  qed
qed

lemma ws_accepting_plain:
  assumes "ws_accepting (length data + m) w" "data \<noteq> []" "\<not> tls w"
  obtains (intr) xs where "writes w = WIntr # xs" "ws_accepting (length data + m) (w\<lparr>writes := xs\<rparr>)"
  | (wrote) c xs where "writes w = WCount c # xs" "0 < c"
      "ws_accepting (length (drop (min c (length data)) data) + m) (w\<lparr>writes := xs, sent := sent w @ take c data\<rparr>)"
proof -
  from assms obtain x xs where x: "writes w = x # xs" by (cases "writes w") (auto simp: ws_accepting_def accepting_def)
  from assms(1,3) x consider "x = WIntr" | c where "x = WCount c" "0 < c" by (auto simp: ws_accepting_def accepting_def)
  then show thesis
  proof cases
    case 1
    then show thesis using assms x by (intro intr [of xs]) (simp_all add: ws_accepting_def accepting_def)
  next
    case (2 c)
    then show thesis using assms x by (intro wrote [of c xs]) (cases data; auto simp: ws_accepting_def accepting_def)+
  qed
qed

lemma stream_write_all_accepting:
  assumes "ws_accepting (length data + m) w"
  shows "\<exists>w'. stream_write_all data w = (Ret (), w') \<and> ws_accepting m w'"
  using assms
proof (induction data w rule: stream_write_all.induct)
  case (1 data w)
  note step = stream_write_all.simps [of data w]
  consider "data = []" | "data \<noteq> []" "tls w" | "data \<noteq> []" "\<not> tls w" by blast
  then show ?case
  proof cases
    case 1
    then show ?thesis using "1.prems" by (simp add: stream_write_all.simps)
  next
    case 2
    with "1.prems" show ?thesis
    proof (cases rule: ws_accepting_tls)
      case (want xs)
      from "1.IH"(2) [OF 2(1,2) _ _ _ want(2)] want 2 show ?thesis by (simp add: step SSL_write_def)
    next
      case (wrote c xs)
      from "1.IH"(1) [OF 2(1,2) _ _ _ _ wrote(3)] wrote 2 show ?thesis by (simp add: step SSL_write_def)
    qed
  next
    case 3
    with "1.prems" show ?thesis
    proof (cases rule: ws_accepting_plain)
      case (intr xs)
      from "1.IH"(4) [OF 3(1,2) _ _ _ intr(2)] intr 3 show ?thesis by (simp add: step sys_write_def)
    next
      case (wrote c xs)
      from "1.IH"(3) [OF 3(1,2) _ _ _ _ wrote(3)] wrote 3 show ?thesis by (simp add: step sys_write_def)
    qed
  qed
qed

text \<open>A write that returned has handed over all its bytes, over TCP and over TLS.\<close>

lemma stream_write_all_sent:
  "stream_write_all data w = (Ret (), w') \<Longrightarrow> sent w' = sent w @ data"
proof (induction data w rule: stream_write_all.induct)
  case (1 data w)
  note ih = 1(1-4)
  note run = 1(5) [unfolded stream_write_all.simps [of data w]]
  show ?case
  proof (cases "data = []")
    case False
    have cut: "sent w @ take k data @ drop (min k (length data)) data = sent w @ data" for k
      by (cases "k \<le> length data") (simp_all add: min_def)
    show ?thesis
    proof (cases "tls w")
      case True
      obtain r w1 where s: "SSL_write data w = (r, w1)" by fastforce
      then show ?thesis using run True False ih(1,2) s cut
        by (auto simp: SSL_write_def wait_writable_def split: list.splits ssl_write_res.splits option.splits if_splits)
    next
      case plain: False
      obtain r w1 where s: "sys_write data w = (r, w1)" by fastforce
      then show ?thesis using run plain False ih(3,4) s cut
        by (auto simp: sys_write_def split: list.splits write_res.splits option.splits if_splits)
    qed
  qed (use run in simp)
qed

section \<open>Frames\<close>

definition valid_frame :: "WsIncomingFrame \<Rightarrow> bool" where
  "valid_frame f \<longleftrightarrow> wf_opcode f < 16 \<and> length (rfc_server_frame f) \<le> WS_MAX_MESSAGE_SIZE"

lemma valid_frame_decode:
  assumes "valid_frame f"
  shows "ws_try_decode_server_frame (rfc_server_frame f @ rest) = Inr (Some (f, length (rfc_server_frame f)))"
    "n < length (rfc_server_frame f) \<Longrightarrow> ws_try_decode_server_frame (take n (rfc_server_frame f)) = Inr None"
proof -
  have "length (wf_payload f) \<le> length (rfc_server_frame f)" by (simp add: rfc_server_frame_def)
  with assms have a: "length (wf_payload f) \<le> WS_MAX_MESSAGE_SIZE" "wf_opcode f < 16" by (auto simp: valid_frame_def)
  show "ws_try_decode_server_frame (rfc_server_frame f @ rest) = Inr (Some (f, length (rfc_server_frame f)))"
    by (rule decode_server_frame [OF a])
  show "n < length (rfc_server_frame f) \<Longrightarrow> ws_try_decode_server_frame (take n (rfc_server_frame f)) = Inr None"
    by (rule decode_prefix [OF a])
qed

text \<open>The loop reads until the next frame is complete.\<close>

lemma receive_loop_fill:
  assumes "ws_calm w" "valid_frame f" "incoming w = rfc_server_frame f @ rest"
  obtains w' x where "receive_loop None im m w = receive_loop None im m w'" "read_buf w' = rfc_server_frame f @ x"
    "x @ unread w' = rest" "ws_calm w'" "same_out w w'"
  using assms
proof (induction "length (unread w)" arbitrary: w thesis rule: less_induct)
  case less
  let ?fr = "rfc_server_frame f"
  note inc = less.prems(4) [unfolded incoming_def]
  show ?case
  proof (cases "length ?fr \<le> length (read_buf w)")
    case True
    with inc have "read_buf w = ?fr @ drop (length ?fr) (read_buf w)"
      by (metis append_eq_append_conv_if append_take_drop_id)
    with inc have "drop (length ?fr) (read_buf w) @ unread w = rest"
      by (metis append.assoc same_append_eq)
    with \<open>read_buf w = _\<close> show ?thesis by (intro less.prems(1) [OF refl _ _ less.prems(2) same_out_refl])
  next
    case False
    then have buf: "read_buf w = take (length (read_buf w)) ?fr"
      using inc by (metis append_eq_append_conv_if nat_le_linear)
    with False valid_frame_decode(2) [OF less.prems(3)] have dec: "ws_try_decode_server_frame (read_buf w) = Inr None"
      by (metis linorder_not_le)
    have small: "\<not> length (read_buf w) > WS_MAX_MESSAGE_SIZE" using False less.prems(3) by (simp add: valid_frame_def)
    have "unread w \<noteq> []" using inc False by auto
    then obtain w1 where w1: "stream_fill None w = (Ret (), w1)" "filled w w1"
      using stream_fill_calm [OF less.prems(2), of None] by (auto simp: far_def)
    have eq: "receive_loop None im m w = receive_loop None im m w1"
      using dec small w1(1) by (simp add: receive_loop.simps [of None im m w])
    have "length (unread w1) < length (unread w)" "incoming w1 = ?fr @ rest" "ws_calm w1" "same_out w w1"
      using w1(2) inc by (auto simp: filled_def incoming_def)
    then obtain w' x where "receive_loop None im m w1 = receive_loop None im m w'" "read_buf w' = ?fr @ x"
      "x @ unread w' = rest" "ws_calm w'" "same_out w1 w'"
      using less.hyps [of w1] less.prems(3) by blast
    with eq \<open>same_out w w1\<close> same_out_trans show ?thesis by (intro less.prems(1) [of w' x]) auto
  qed
qed

text \<open>A ping is answered with a pong that carries its payload.\<close>

definition is_pong_for :: "bytes \<Rightarrow> bytes \<Rightarrow> bool" where
  "is_pong_for payload w \<longleftrightarrow> rfc_read_client_frame w = Some (True, OP_PONG, payload, length w)"

lemma client_frame_length:
  "ws_encode_client_frame (Some mk) opc payload = Inr w \<Longrightarrow> length mk = 4 \<Longrightarrow> length w \<le> length payload + 14"
  by (auto simp: ws_encode_client_frame_def Let_def split: if_splits)

text \<open>
  A frame that was sent, read by the server as RFC 6455 prescribes; and a connection that takes the
  bytes, on which sending returns.
\<close>

lemma ws_send_frame_sent:
  assumes "ws_send_frame opc payload w = (Ret (), w')" "opc < 16" "length payload < 2 ^ 64"
  obtains fr where "sent w' = sent w @ fr" "rfc_read_client_frame fr = Some (True, opc, payload, length fr)"
proof -
  let ?mk = "map (rng w (draws w)) [0..<4]"
  from assms(1) obtain fr where fr: "ws_encode_client_frame (Some ?mk) opc payload = Inr fr"
    and w: "stream_write_all fr (w\<lparr>draws := Suc (draws w)\<rparr>) = (Ret (), w')"
    by (auto simp: ws_send_frame_def RAND_bytes_def ws_encode_client_frame_def split: sum.splits if_splits)
  have "length ?mk = 4" by simp
  from encode_client_frame [OF this assms(2,3)] fr have "rfc_read_client_frame (fr @ []) = Some (True, opc, payload, length fr)"
    by (metis sum.inject(2))
  moreover from stream_write_all_sent [OF w] have "sent w' = sent w @ fr" by simp
  ultimately show thesis using that by simp
qed

lemma ws_send_accepting:
  assumes "\<forall>i. rand_ok w i" "ws_accepting (length payload + 14 + n) w"
  shows "\<exists>w'. ws_send_frame opc payload w = (Ret (), w') \<and> ws_accepting n w'"
proof -
  let ?mk = "map (rng w (draws w)) [0..<4]"
  let ?w = "w\<lparr>draws := Suc (draws w)\<rparr>"
  obtain fr where fr: "ws_encode_client_frame (Some ?mk) opc payload = Inr fr" by (simp add: ws_encode_client_frame_def Let_def)
  have "length fr \<le> length payload + 14" using client_frame_length [OF fr] by simp
  moreover have "ws_accepting (length payload + 14 + n) ?w" using assms(2) by (simp add: ws_accepting_def)
  ultimately have "ws_accepting (length fr + n) ?w" using ws_accepting_less by fastforce
  then obtain w' where "stream_write_all fr ?w = (Ret (), w')" "ws_accepting n w'"
    using stream_write_all_accepting by blast
  with fr assms(1) show ?thesis by (simp add: ws_send_frame_def RAND_bytes_def)
qed

lemma ws_calm_writes_only: "writes_only w w' \<Longrightarrow> ws_calm w' = ws_calm w"
  by (simp add: writes_only_def ws_calm_def unread_weight_def)

lemma ws_send_pong:
  assumes "ws_calm w" "length payload < 2 ^ 64" "ws_accepting (length payload + 14 + n) w"
  obtains w' fr where "ws_send_frame OP_PONG payload w = (Ret (), w')" "writes_only w w'" "ws_accepting n w'"
    "sent w' = sent w @ fr" "is_pong_for payload fr"
proof -
  have "\<forall>i. rand_ok w i" using assms(1) by (simp add: ws_calm_def)
  then obtain w' where w': "ws_send_frame OP_PONG payload w = (Ret (), w')" "ws_accepting n w'"
    using ws_send_accepting assms(3) by blast
  have "writes_only w w'" using ws_send_frame_only [of w OP_PONG payload] w'(1) by simp
  moreover obtain fr where "sent w' = sent w @ fr" "rfc_read_client_frame fr = Some (True, OP_PONG, payload, length fr)"
    by (rule ws_send_frame_sent [OF w'(1) _ assms(2)]) (simp_all add: OP_PONG_def)
  ultimately show thesis using that w' by (simp add: is_pong_for_def)
qed

section \<open>Messages\<close>

text \<open>
  The frames of one message as RFC 6455 allows them: a binary frame, then continuation frames, the
  last one final, with text, ping and pong frames anywhere before the last.
\<close>

fun one_message :: "bool \<Rightarrow> WsIncomingFrame list \<Rightarrow> bool" where
  "one_message started [] \<longleftrightarrow> False"
| "one_message started (f # fs) \<longleftrightarrow>
     (if wf_opcode f = (if started then OP_CONT else OP_BINARY)
      then (if wf_fin f then fs = [] else one_message True fs)
      else wf_opcode f \<in> {OP_TEXT, OP_PING, OP_PONG} \<and> one_message started fs)"

definition body :: "WsIncomingFrame list \<Rightarrow> bytes" where
  "body fs = concat (map wf_payload (filter (\<lambda>f. wf_opcode f \<in> {OP_BINARY, OP_CONT}) fs))"

definition pings :: "WsIncomingFrame list \<Rightarrow> bytes list" where
  "pings fs = map wf_payload (filter (\<lambda>f. wf_opcode f = OP_PING) fs)"

definition pong_cost :: "WsIncomingFrame list \<Rightarrow> nat" where
  "pong_cost fs = sum_list (map (\<lambda>p. length p + 14) (pings fs))"

lemma body_simps [simp]:
  "body [] = []" "body (f # fs) = (if wf_opcode f \<in> {OP_BINARY, OP_CONT} then wf_payload f @ body fs else body fs)"
  by (simp_all add: body_def)

lemma pings_simps [simp]:
  "pings [] = []" "pings (f # fs) = (if wf_opcode f = OP_PING then wf_payload f # pings fs else pings fs)"
  by (simp_all add: pings_def)

lemma pong_cost_simps [simp]:
  "pong_cost [] = 0" "pong_cost (f # fs) = (if wf_opcode f = OP_PING then length (wf_payload f) + 14 + pong_cost fs else pong_cost fs)"
  by (simp_all add: pong_cost_def)

lemmas op_codes = OP_CONT_def OP_TEXT_def OP_BINARY_def OP_CLOSE_def OP_PING_def OP_PONG_def

text \<open>The loop takes one frame off the buffer and continues, or returns.\<close>

lemma receive_loop_frame:
  assumes "valid_frame f" "read_buf w = rfc_server_frame f @ x"
  shows "receive_loop None im m w =
    (case ws_handle_frame im m f (w\<lparr>read_buf := x\<rparr>) of
       (Ret (Inr m), w') \<Rightarrow> (Ret m, w')
     | (Ret (Inl (im, m)), w') \<Rightarrow> receive_loop None im m w'
     | (Throw e, w') \<Rightarrow> (Throw e, w')
     | (Pending, w') \<Rightarrow> (Pending, w'))"
  using assms valid_frame_decode(1) [OF assms(1), of x] by (subst receive_loop.simps) simp

definition received_message :: "bool \<Rightarrow> bytes \<Rightarrow> WsIncomingFrame list \<Rightarrow> bytes \<Rightarrow> 'a net_scheme \<Rightarrow> bytes outcome \<times> 'a net_scheme \<Rightarrow> bool" where
  "received_message im m fs rest w r \<longleftrightarrow>
     (\<exists>prs. fst r = Ret ((if im then m else []) @ body fs) \<and> incoming (snd r) = rest \<and>
       sent (snd r) = sent w @ concat prs \<and> list_all2 is_pong_for (pings fs) prs \<and> ws_calm (snd r))"

lemma handle_ping:
  assumes "valid_frame f" "wf_opcode f = OP_PING" "ws_calm w" "ws_accepting (length (wf_payload f) + 14 + k) w"
  obtains v fr where "ws_handle_frame im m f w = (Ret (Inl (im, m)), v)" "writes_only w v" "ws_accepting k v"
    "sent v = sent w @ fr" "is_pong_for (wf_payload f) fr"
proof -
  have "length (wf_payload f) \<le> length (rfc_server_frame f)" by (simp add: rfc_server_frame_def)
  with assms(1) have "length (wf_payload f) < 2 ^ 64" by (simp add: valid_frame_def WS_MAX_MESSAGE_SIZE_def)
  then obtain v fr where pong: "ws_send_frame OP_PONG (wf_payload f) w = (Ret (), v)" "writes_only w v"
    "ws_accepting k v" "sent v = sent w @ fr" "is_pong_for (wf_payload f) fr"
    using ws_send_pong [OF assms(3)] assms(4) by metis
  moreover have "ws_handle_frame im m f w = (Ret (Inl (im, m)), v)"
    using assms(2) pong(1) by (simp add: ws_handle_frame_def op_codes)
  ultimately show thesis using that by blast
qed

lemma receive_loop_message:
  assumes "one_message im fs" "list_all valid_frame fs" "ws_calm w"
    "incoming w = concat (map rfc_server_frame fs) @ rest"
    "length ((if im then m else []) @ body fs) \<le> WS_MAX_MESSAGE_SIZE" "ws_accepting (pong_cost fs) w"
  shows "received_message im m fs rest w (receive_loop None im m w)"
  using assms
proof (induction fs arbitrary: im m w)
  case Nil
  then show ?case by simp
next
  case (Cons f fs)
  have v: "valid_frame f" using Cons.prems(2) by simp
  have str: "incoming w = rfc_server_frame f @ (concat (map rfc_server_frame fs) @ rest)"
    using Cons.prems(4) by simp
  obtain w1 x where w1: "receive_loop None im m w = receive_loop None im m w1" "read_buf w1 = rfc_server_frame f @ x"
    "x @ unread w1 = concat (map rfc_server_frame fs) @ rest" "ws_calm w1" "same_out w w1"
    using receive_loop_fill [OF Cons.prems(3) v str] by metis
  let ?w = "w1\<lparr>read_buf := x\<rparr>"
  note eq = w1(1) [unfolded receive_loop_frame [OF v w1(2)]]
  have calm: "ws_calm ?w" using w1(4) by (simp add: ws_calm_def)
  have inc: "incoming ?w = concat (map rfc_server_frame fs) @ rest" using w1(3) by simp
  have out: "sent ?w = sent w" "ws_accepting n ?w = ws_accepting n w" for n
    using w1(5) by (simp_all add: same_out_def ws_accepting_def)
  have next_eq: "received_message im m (f # fs) rest w (receive_loop None im' m' ?w)"
    if "one_message im' fs" "ws_handle_frame im m f ?w = (Ret (Inl (im', m')), ?w)"
      "(if im' then m' else []) @ body fs = (if im then m else []) @ body (f # fs)" "wf_opcode f \<noteq> OP_PING" for im' m'
  proof -
    have "received_message im' m' fs rest ?w (receive_loop None im' m' ?w)"
      using Cons.prems(2,5,6) calm inc out that by (intro Cons.IH) auto
    with that out show ?thesis by (auto simp: received_message_def)
  qed
  consider (final) "wf_opcode f = (if im then OP_CONT else OP_BINARY)" "wf_fin f" "fs = []"
    | (more) "wf_opcode f = (if im then OP_CONT else OP_BINARY)" "\<not> wf_fin f" "one_message True fs"
    | (skip) "wf_opcode f = OP_TEXT \<or> wf_opcode f = OP_PONG" "one_message im fs"
    | (ping) "wf_opcode f = OP_PING" "one_message im fs"
    using Cons.prems(1) by (auto split: if_splits)
  then show ?case
  proof cases
    case final
    have "ws_handle_frame im m f ?w = (Ret (Inr ((if im then m else []) @ wf_payload f)), ?w)"
      using final Cons.prems(5) by (cases im) (auto simp: ws_handle_frame_def Let_def op_codes)
    with final eq inc out calm show ?thesis by (auto simp: received_message_def op_codes)
  next
    case more
    have h: "ws_handle_frame im m f ?w = (Ret (Inl (True, (if im then m else []) @ wf_payload f)), ?w)"
      using more Cons.prems(5) by (cases im) (auto simp: ws_handle_frame_def Let_def op_codes)
    with next_eq [OF more(3) h] more eq show ?thesis by (auto simp: op_codes)
  next
    case skip
    have h: "ws_handle_frame im m f ?w = (Ret (Inl (im, m)), ?w)"
      using skip by (auto simp: ws_handle_frame_def op_codes)
    with next_eq [OF skip(2) h] skip eq show ?thesis by (auto simp: op_codes)
  next
    case ping
    obtain v fr where pong: "ws_handle_frame im m f ?w = (Ret (Inl (im, m)), v)" "writes_only ?w v"
      "ws_accepting (pong_cost fs) v" "sent v = sent ?w @ fr" "is_pong_for (wf_payload f) fr"
      by (rule handle_ping [OF v ping(1) calm]) (use Cons.prems(6) ping out in simp_all)
    have "incoming v = concat (map rfc_server_frame fs) @ rest"
      using inc incoming_writes_only [OF pong(2)] by simp
    then have "received_message im m fs rest v (receive_loop None im m v)"
      using Cons.prems(2,5) ws_calm_writes_only [OF pong(2)] calm pong(3) ping by (intro Cons.IH) (auto simp: op_codes)
    then show ?thesis using eq ping pong(1,4,5) out
      by (auto simp: received_message_def op_codes) (metis append.assoc concat.simps(2) list_all2_Cons)
  qed
qed

section \<open>Properties\<close>

text \<open>
  C8: a message that the server sends in any number of fragments, with text, ping and pong frames
  between them, is delivered whole by \<open>receive_binary\<close>: whatever the segmentation of the
  stream and wherever calls are interrupted, it returns the concatenated payloads, answers every
  ping in order with a pong that carries the same payload, sends nothing else, and leaves exactly
  the bytes after the message for the next call. This holds over TCP and over TLS, where records
  and \<^verbatim>\<open>WANT\<close> results take the place of segments and interruptions.
\<close>

theorem receive_binary_delivers:
  assumes "one_message False fs" and "list_all valid_frame fs" and "ws_calm w"
    and "incoming w = concat (map rfc_server_frame fs) @ rest"
    and "length (body fs) \<le> WS_MAX_MESSAGE_SIZE" and "ws_accepting (pong_cost fs) w"
  shows "\<exists>w' prs. receive_binary w = (Ret (body fs), w') \<and> incoming w' = rest \<and>
    sent w' = sent w @ concat prs \<and> list_all2 is_pong_for (pings fs) prs"
proof -
  have "length ((if False then [] else []) @ body fs) \<le> WS_MAX_MESSAGE_SIZE" using assms(5) by simp
  from receive_loop_message [OF assms(1-4) this assms(6)]
  have "received_message False [] fs rest w (receive_binary w)"
    by (simp add: receive_binary_def receive_binary_deadline_def)
  then show ?thesis by (auto simp: received_message_def prod_eq_iff)
qed

text \<open>Witness: a message in two fragments with a ping between them, over TLS, the bytes arriving one by one.\<close>

theorem receive_binary_delivers_witness:
  "let fs = [\<lparr>wf_fin = False, wf_opcode = OP_BINARY, wf_payload = [1]\<rparr>, \<lparr>wf_fin = True, wf_opcode = OP_PING, wf_payload = [9]\<rparr>,
             \<lparr>wf_fin = True, wf_opcode = OP_CONT, wf_payload = [2]\<rparr>];
       w = \<lparr>reads = [], polls = replicate 20 PReady, polled = [], writes = [], sent = [], clock = (\<lambda>i. 0), ticks = 0, tls = True,
            ssl_reads = (0, SslWant) # map (\<lambda>b. (0, SslData [b])) (concat (map rfc_server_frame fs)),
            ssl_writes = SslWWant # replicate 20 (SslWrote 1),
            read_buf = [], rng = (\<lambda>i j. 0), rand_ok = (\<lambda>i. True), draws = 0, ws_open = True\<rparr>
   in \<exists>w' pong. receive_binary w = (Ret [1, 2], w') \<and> sent w' = pong \<and> is_pong_for [9] pong"
proof -
  define fs where "fs = [\<lparr>wf_fin = False, wf_opcode = OP_BINARY, wf_payload = [1]\<rparr>, \<lparr>wf_fin = True, wf_opcode = OP_PING, wf_payload = [9]\<rparr>,
             \<lparr>wf_fin = True, wf_opcode = OP_CONT, wf_payload = [2]\<rparr>]"
  define w where "w = \<lparr>reads = [], polls = replicate 20 PReady, polled = [], writes = [], sent = [], clock = (\<lambda>i. 0), ticks = 0, tls = True,
            ssl_reads = (0, SslWant) # map (\<lambda>b. (0, SslData [b])) (concat (map rfc_server_frame fs)),
            ssl_writes = SslWWant # replicate 20 (SslWrote 1),
            read_buf = [], rng = (\<lambda>i j. 0 :: byte), rand_ok = (\<lambda>i. True), draws = 0, ws_open = True\<rparr>"
  have st: "ssl_stream_of (map (\<lambda>b. (0, SslData [b])) bs) = bs" "ssl_weight (map (\<lambda>b. (0, SslData [b])) bs) = 2 * length bs" for bs
    by (induction bs) simp_all
  have len: "length (concat (map rfc_server_frame fs)) = 9" by (simp add: fs_def rfc_server_frame_def rfc_length_def)
  have 1: "one_message False fs" "list_all valid_frame fs" "body fs = [1, 2]" "pings fs = [[9]]" "pong_cost fs = 15"
    by (simp_all add: fs_def op_codes valid_frame_def rfc_server_frame_def rfc_length_def WS_MAX_MESSAGE_SIZE_def)
  have 2: "ws_calm w" "incoming w = concat (map rfc_server_frame fs) @ []" "ws_accepting (pong_cost fs) w"
    using len by (simp_all add: w_def ws_calm_def incoming_def unread_def unread_weight_def st 1 ws_accepting_def ssl_accepting_def
        calm_def ready_count_def)
  from receive_binary_delivers [OF 1(1,2) 2(1,2) _ 2(3)] 1 obtain w' prs where
    "receive_binary w = (Ret [1, 2], w')" "sent w' = sent w @ concat prs" "list_all2 is_pong_for [[9]] prs"
    by (auto simp: WS_MAX_MESSAGE_SIZE_def)
  then show ?thesis unfolding Let_def fs_def [symmetric] w_def [symmetric]
    by (auto simp: w_def list_all2_Cons1)
qed

text \<open>
  C18: the size limit of an incoming message depends on how TCP cuts the stream. A binary frame whose
  payload is exactly the 4 MiB limit is delivered when it is buffered completely, but refused as too
  large when one byte more than the limit is buffered while its last bytes are still on the way.
\<close>

theorem ws_limit_depends_on_segmentation:
  assumes "length payload = WS_MAX_MESSAGE_SIZE" and "f = \<lparr>wf_fin = True, wf_opcode = OP_BINARY, wf_payload = payload\<rparr>"
  shows "receive_binary (w\<lparr>read_buf := rfc_server_frame f\<rparr>) = (Ret payload, w\<lparr>read_buf := []\<rparr>) \<and>
    receive_binary (w\<lparr>read_buf := take (WS_MAX_MESSAGE_SIZE + 1) (rfc_server_frame f)\<rparr>) =
      (Throw (VynkorPayloadTooLarge (WS_MAX_MESSAGE_SIZE + 1)), w\<lparr>read_buf := take (WS_MAX_MESSAGE_SIZE + 1) (rfc_server_frame f)\<rparr>)"
proof -
  have a: "length (wf_payload f) \<le> WS_MAX_MESSAGE_SIZE" "wf_opcode f < 16" using assms by (simp_all add: OP_BINARY_def)
  have len: "length (rfc_server_frame f) = WS_MAX_MESSAGE_SIZE + 10"
    using assms by (simp add: rfc_server_frame_def rfc_length_def WS_MAX_MESSAGE_SIZE_def)
  have 1: "ws_try_decode_server_frame (rfc_server_frame f) = Inr (Some (f, length (rfc_server_frame f)))"
    using decode_server_frame [OF a, of "[]"] by simp
  have 2: "ws_try_decode_server_frame (take (WS_MAX_MESSAGE_SIZE + 1) (rfc_server_frame f)) = Inr None"
    by (rule decode_prefix [OF a]) (simp add: len)
  show ?thesis
    using 1 2 len assms(2)
    by (simp add: receive_binary_def receive_binary_deadline_def receive_loop.simps [of None False "[]" "w\<lparr>read_buf := _\<rparr>"]
        ws_handle_frame_def)
qed

text \<open>Witness: a payload of zeros.\<close>

theorem ws_limit_depends_on_segmentation_witness:
  "let f = \<lparr>wf_fin = True, wf_opcode = OP_BINARY, wf_payload = replicate WS_MAX_MESSAGE_SIZE 0\<rparr>;
       w = \<lparr>reads = [], polls = [], polled = [], writes = [], sent = [], clock = (\<lambda>i. 0), ticks = 0, tls = False,
            ssl_reads = [], ssl_writes = [], read_buf = [], rng = (\<lambda>i j. 0), rand_ok = (\<lambda>i. True), draws = 0, ws_open = True\<rparr>
   in fst (receive_binary (w\<lparr>read_buf := rfc_server_frame f\<rparr>)) = Ret (replicate WS_MAX_MESSAGE_SIZE 0) \<and>
      fst (receive_binary (w\<lparr>read_buf := take (WS_MAX_MESSAGE_SIZE + 1) (rfc_server_frame f)\<rparr>)) =
        Throw (VynkorPayloadTooLarge (WS_MAX_MESSAGE_SIZE + 1))"
  using ws_limit_depends_on_segmentation [OF length_replicate refl] unfolding Let_def by (metis fst_conv)

text \<open>
  Closing never throws: when \<open>close\<close> returns, the connection is torn down, even if the close
  frame could not be built or sent; it waits only while the write of the close frame waits.
\<close>

lemma ws_close_total:
  "case ws_close w of
     (Ret _, w') \<Rightarrow> \<not> ws_open w' \<and> \<not> tls w' \<and> reads w' = reads w
   | (Throw e, w') \<Rightarrow> False
   | (Pending, w') \<Rightarrow> fst (ws_send_frame OP_CLOSE [] w) = Pending"
  using ws_send_frame_only [of w OP_CLOSE "[]"]
  by (auto simp: ws_close_def teardown_def writes_only_def split: prod.splits outcome.splits)

end
