(* ===== verification/Vyn_Ws_Handshake.thy ===== *)
theory Vyn_Ws_Handshake
  imports Vyn_Ws_Spec
begin

text \<open>
  The opening handshake of \<open>WsConnection::connect\<close>: what a connection that was returned has
  established, which responses are accepted, and that an acceptable response of the server is read
  to its end and no further, however it is segmented.
\<close>

section \<open>The end of the response head\<close>

lemma find_sub_Some_iff:
  "find_sub pat s = Some i \<longleftrightarrow> i + length pat \<le> length s \<and> take (length pat) (drop i s) = pat \<and>
     (\<forall>j < i. take (length pat) (drop j s) \<noteq> pat)"
proof (induction s arbitrary: i)
  case Nil
  then show ?case by auto
next
  case (Cons x xs)
  show ?case
  proof (cases "take (length pat) (x # xs) = pat")
    case True
    then have "length pat \<le> Suc (length xs)" by (metis length_Cons length_take min.cobounded1)
    with True show ?thesis by (cases i) auto
  next
    case False
    show ?thesis
    proof (cases i)
      case (Suc k)
      have "(\<forall>j < Suc k. take (length pat) (drop j (x # xs)) \<noteq> pat) \<longleftrightarrow> (\<forall>j < k. take (length pat) (drop j xs) \<noteq> pat)"
        using False by (auto simp: less_Suc_eq_0_disj)
      with Suc False Cons [of k] show ?thesis by simp
    qed (use False in auto)
  qed
qed

lemma find_sub_prefix:
  assumes "find_sub pat (xs @ pat) = Some (length xs)"
  shows "find_sub pat (xs @ pat @ ys) = Some (length xs)"
    "n < length xs + length pat \<Longrightarrow> find_sub pat (take n (xs @ pat @ ys)) = None"
proof -
  note first = assms [unfolded find_sub_Some_iff, THEN conjunct2, THEN conjunct2, rule_format]
  have cut: "take (length pat) (drop j (xs @ pat @ ys)) = take (length pat) (drop j (xs @ pat))" if "j \<le> length xs" for j
    using that by simp
  show "find_sub pat (xs @ pat @ ys) = Some (length xs)"
    using first cut by (auto simp: find_sub_Some_iff)
  assume n: "n < length xs + length pat"
  show "find_sub pat (take n (xs @ pat @ ys)) = None"
  proof (rule ccontr)
    assume "\<not> ?thesis"
    then obtain i where "find_sub pat (take n (xs @ pat @ ys)) = Some i" by blast
    then have i: "i + length pat \<le> n" "take (length pat) (drop i (take n (xs @ pat @ ys))) = pat"
      by (auto simp: find_sub_Some_iff)
    have "take k (drop i (take n s)) = take k (drop i s)" if "i + k \<le> n" for k and s :: "'a list"
      using that by (simp add: drop_take min_absorb1)
    with i have "take (length pat) (drop i (xs @ pat @ ys)) = pat" by metis
    moreover have "i < length xs" using i(1) n by simp
    ultimately show False using first [of i] cut [of i] by simp
  qed
qed

lemma find_sub_bytes: "find_sub (bytes_of pat) (bytes_of s) = find_sub pat s"
proof -
  have eq: "take n (bytes_of t) = bytes_of pat \<longleftrightarrow> take n t = pat" for n t
    using bytes_of_inj [of "take n t" pat] by (auto simp: bytes_of_def take_map)
  show ?thesis
  proof (induction s)
    case Nil
    then show ?case by (simp add: bytes_of_def)
  next
    case (Cons x xs)
    have "bytes_of (x # xs) = word_of_nat (of_char x) # bytes_of xs" by (simp add: bytes_of_def)
    with Cons eq [of "length pat" "x # xs"] show ?case by (metis find_sub.simps(2) length_bytes_of)
  qed
qed

lemma find_sub_cut:
  assumes "find_sub pat s = Some n"
  shows "s = take n s @ pat @ drop (n + length pat) s" "length (take n s) = n"
proof -
  have "take (length pat) (drop n s) = pat" "n + length pat \<le> length s" using assms by (simp_all add: find_sub_Some_iff)
  then show "s = take n s @ pat @ drop (n + length pat) s" "length (take n s) = n"
    by (metis add.commute append_take_drop_id drop_drop, simp)
qed

section \<open>Bytes are neither lost nor reordered\<close>

lemma poll_readable_keeps:
  "poll_readable d w = (r, w') \<Longrightarrow> reads w' = reads w \<and> ssl_reads w' = ssl_reads w \<and> read_buf w' = read_buf w \<and> same_out w w'"
proof (induction "length (polls w)" arbitrary: w rule: less_induct)
  case less
  define t where "t = (case d of None \<Rightarrow> - 1 | Some d \<Rightarrow> cast_int (min (ms_of_ns (d - fst (now w))) (2 ^ 31 - 1)))"
  obtain p w1 where p: "sys_poll t (snd (now w)) = (p, w1)" by fastforce
  have w1: "reads w1 = reads w" "ssl_reads w1 = ssl_reads w" "read_buf w1 = read_buf w" "same_out w w1" "p \<noteq> None \<Longrightarrow> length (polls w1) < length (polls w)"
    using p by (auto simp: sys_poll_def now_def same_out_def Let_def split: list.splits)
  have now: "reads (snd (now w)) = reads w \<and> ssl_reads (snd (now w)) = ssl_reads w \<and> read_buf (snd (now w)) = read_buf w \<and> same_out w (snd (now w))"
    by (simp add: now_def same_out_def)
  from less.prems p t_def consider "w' = snd (now w)" | "w' = w1" | "p = Some PIntr" "poll_readable d w1 = (r, w')"
    by (subst (asm) poll_readable.simps) (auto simp: Let_def split: if_splits option.splits poll_res.splits)
  then show ?case
  proof cases
    case 3
    with less.hyps [OF w1(5) 3(2)] w1(1-4) same_out_trans show ?thesis by auto
  qed (use now w1 in auto)
qed

lemma SSL_read_conserves:
  assumes "SSL_read n w = (r, w')" "tls w"
  shows "same_out w w'" "r = Some (SslData bs) \<Longrightarrow> bs \<noteq> [] \<Longrightarrow> read_buf w' @ bs @ unread w' = incoming w" "r = Some SslWant \<Longrightarrow> incoming w' = incoming w"
  using assms by (auto simp: SSL_read_def incoming_def unread_def same_out_def split: list.splits ssl_read_res.splits if_splits)

lemma sys_read_conserves:
  assumes "sys_read n w = (r, w')" "\<not> tls w"
  shows "same_out w w'" "r = Some (RData bs) \<Longrightarrow> bs \<noteq> [] \<Longrightarrow> read_buf w' @ bs @ unread w' = incoming w" "r = Some RIntr \<Longrightarrow> incoming w' = incoming w"
  using assms by (auto simp: sys_read_def incoming_def unread_def same_out_def split: list.splits read_res.splits if_splits)

lemma stream_fill_conserves:
  "stream_fill d w = (Ret (), w') \<Longrightarrow> incoming w' = incoming w \<and> same_out w w'"
proof (induction d w rule: stream_fill.induct)
  case (1 d w)
  obtain p w1 where p: "(if \<not> tls w \<or> SSL_pending w = 0 then poll_readable d w else (Ret (), w)) = (p, w1)" by fastforce
  then have w1: "reads w1 = reads w" "ssl_reads w1 = ssl_reads w" "read_buf w1 = read_buf w" "same_out w w1"
    using poll_readable_keeps by (auto split: if_splits)
  then have inc: "incoming w1 = incoming w" "tls w1 = tls w" by (simp_all add: incoming_def unread_def same_out_def)
  show ?case
  proof (cases "tls w")
    case True
    obtain r w2 where r: "SSL_read 4096 w1 = (r, w2)" by fastforce
    have p': "(if SSL_pending w = 0 then poll_readable d w else (Ret (), w)) = (p, w1)" using p True by simp
    have pr: "p = Ret ()" using "1.prems" True p' by (cases p) (simp_all add: stream_fill.simps [of d w])
    note c = SSL_read_conserves [OF r] inc True same_out_trans [OF w1(4)]
    from "1.prems" True p' pr r consider bs where "r = Some (SslData bs)" "bs \<noteq> []" "w' = w2\<lparr>read_buf := read_buf w2 @ bs\<rparr>"
      | "r = Some SslWant" "stream_fill d w2 = (Ret (), w')"
      by (auto simp: stream_fill.simps [of d w] split: option.splits ssl_read_res.splits if_splits)
    then show ?thesis
    proof cases
      case 1
      then show ?thesis using c(1) c(2) [of bs] c(4-6) w1(4) by (auto simp: incoming_def unread_def same_out_def)
    next
      case 2
      with "1.IH"(1) [OF True p' [unfolded pr] r [unfolded 2(1), symmetric] refl refl 2(2)] c same_out_trans show ?thesis by metis
    qed
  next
    case False
    obtain r w2 where r: "sys_read 4096 w1 = (r, w2)" by fastforce
    have p': "poll_readable d w = (p, w1)" using p False by simp
    have pr: "p = Ret ()" using "1.prems" False p' by (cases p) (simp_all add: stream_fill.simps [of d w])
    note c = sys_read_conserves [OF r] inc False same_out_trans [OF w1(4)]
    from "1.prems" False p' pr r consider bs where "r = Some (RData bs)" "bs \<noteq> []" "w' = w2\<lparr>read_buf := read_buf w2 @ bs\<rparr>"
      | "r = Some RIntr" "stream_fill d w2 = (Ret (), w')"
      by (auto simp: stream_fill.simps [of d w] split: option.splits read_res.splits if_splits)
    then show ?thesis
    proof cases
      case 1
      then show ?thesis using c(1) c(2) [of bs] c(4-6) w1(4) by (auto simp: incoming_def unread_def same_out_def)
    next
      case 2
      with "1.IH"(2) [OF False p' [unfolded pr] r [unfolded 2(1), symmetric] refl refl 2(2)] c same_out_trans show ?thesis by metis
    qed
  qed
qed

section \<open>The response\<close>

text \<open>
  A response head that the code accepts for its key: the status line contains \<^verbatim>\<open> 101 \<close> anywhere or
  starts with \<^verbatim>\<open>HTTP/1.1 101\<close>, some header line is an \<^verbatim>\<open>Upgrade: websocket\<close>, and some
  \<^verbatim>\<open>Sec-WebSocket-Accept\<close> line carries the Base64 of the SHA-1 of the key and the protocol GUID.

  This is weaker than what RFC 6455 (section 4.1) demands of a client, \<open>rfc6455_response\<close> below: there
  the status code, the second field of the status line, has to be 101, and a \<^verbatim>\<open>Connection\<close> header
  with the token \<^verbatim>\<open>Upgrade\<close> (below, as its only one) has to be present.
\<close>

definition acceptable_response :: "'l wslib_scheme \<Rightarrow> string \<Rightarrow> string \<Rightarrow> bool" where
  "acceptable_response L key head \<longleftrightarrow>
     (let status_line = (case getlines head of [] \<Rightarrow> [] | s # _ \<Rightarrow> s); hs = set (drop 1 (getlines head)) in
      ((\<exists>i. find_sub '' 101 '' status_line = Some i) \<or> starts_with ''HTTP/1.1 101'' status_line) \<and>
      (\<exists>l \<in> hs. \<exists>n v. header_line l = Some (n, v) \<and> iequal n ''upgrade'' \<and> iequal v ''websocket'') \<and>
      (\<exists>digest. EVP_sha1 L (bytes_of (key @ kWsGuid)) = Some digest \<and>
        (\<exists>l \<in> hs. \<exists>n. header_line l = Some (n, EVP_EncodeBlock L digest) \<and> iequal n ''sec-websocket-accept'')))"

definition rfc6455_response :: "'l wslib_scheme \<Rightarrow> string \<Rightarrow> string \<Rightarrow> bool" where
  "rfc6455_response L key head \<longleftrightarrow>
     (\<exists>reason hs. getlines head = (''HTTP/1.1 101 '' @ reason) # hs \<and>
      (\<exists>l \<in> set hs. \<exists>n v. header_line l = Some (n, v) \<and> iequal n ''upgrade'' \<and> iequal v ''websocket'') \<and>
      (\<exists>l \<in> set hs. \<exists>n v. header_line l = Some (n, v) \<and> iequal n ''connection'' \<and> iequal v ''upgrade'') \<and>
      (\<exists>digest. EVP_sha1 L (bytes_of (key @ kWsGuid)) = Some digest \<and>
        (\<exists>l \<in> set hs. \<exists>n. header_line l = Some (n, EVP_EncodeBlock L digest) \<and> iequal n ''sec-websocket-accept'')))"

lemma rfc6455_acceptable: "rfc6455_response L key head \<Longrightarrow> acceptable_response L key head"
  unfolding rfc6455_response_def acceptable_response_def Let_def
  by (elim exE conjE) (simp add: starts_with_def; blast)

lemma scan_headers_iff:
  "scan_headers expected ls u a =
     (u \<or> (\<exists>l \<in> set ls. \<exists>n v. header_line l = Some (n, v) \<and> iequal n ''upgrade'' \<and> iequal v ''websocket''),
      a \<or> (\<exists>l \<in> set ls. \<exists>n v. header_line l = Some (n, v) \<and> iequal n ''sec-websocket-accept'' \<and> v = expected))"
  by (induction ls arbitrary: u a) (auto split: option.splits)

lemma check_response_iff: "check_response L key head = Inr () \<longleftrightarrow> acceptable_response L key head"
  by (cases "getlines head")
    (auto simp: acceptable_response_def check_response_def Let_def sha1_base64_def base64_encode_def bind_result_Inr scan_headers_iff
      split: option.splits if_splits)

section \<open>Reading the head\<close>

lemma draws_input [simp]:
  "unread (w\<lparr>draws := k\<rparr>) = unread w" "incoming (w\<lparr>draws := k\<rparr>) = incoming w" "unread_weight (w\<lparr>draws := k\<rparr>) = unread_weight w"
  by (simp_all add: unread_def incoming_def unread_weight_def)

lemma now_input [simp]:
  "unread (snd (now w)) = unread w" "incoming (snd (now w)) = incoming w" "ws_calm (snd (now w)) = ws_calm w"
  "same_out (snd (now w)) v = same_out w v"
  by (simp_all add: now_def unread_def incoming_def ws_calm_def unread_weight_def same_out_def)

lemma read_head_conserves:
  "read_head w = (Ret n, w') \<Longrightarrow> incoming w' = incoming w \<and> same_out w w' \<and> find_sub (bytes_of (CRLF @ CRLF)) (read_buf w') = Some n"
proof (induction w rule: read_head.induct)
  case (1 w)
  show ?case
  proof (cases "find_sub (bytes_of (CRLF @ CRLF)) (read_buf w)")
    case (Some i)
    then show ?thesis using "1.prems" by (simp add: read_head.simps [of w])
  next
    case None
    obtain r v where r: "stream_fill (Some (fst (now w) + 30 * 1000000000)) (snd (now w)) = (r, v)" by fastforce
    from "1.prems" None r have h: "r = Ret ()" "read_head v = (Ret n, w')" "\<not> length (read_buf w) > 16384"
      by (auto simp: read_head.simps [of w] split: if_splits outcome.splits)
    have "incoming v = incoming w" "same_out w v"
      using stream_fill_conserves [OF r [unfolded h(1)]] by simp_all
    with "1.IH" [OF None h(3) r [symmetric] h(1) h(2)] same_out_trans show ?thesis by auto
  qed
qed

lemma read_head_calm:
  assumes "ws_calm w" "\<forall>i j. clock w i < clock w j + 30 * 1000000000"
    "incoming w = head @ bytes_of (CRLF @ CRLF) @ rest" "find_sub (bytes_of (CRLF @ CRLF)) (head @ bytes_of (CRLF @ CRLF)) = Some (length head)"
    "length head \<le> 16380"
  shows "\<exists>w'. read_head w = (Ret (length head), w')"
  using assms(1-3)
proof (induction "length (unread w)" arbitrary: w rule: less_induct)
  case less
  let ?mk = "bytes_of (CRLF @ CRLF)"
  have mk: "length ?mk = 4" by (simp add: CRLF_def)
  note inc = less.prems(3) [unfolded incoming_def]
  show ?case
  proof (cases "length head + 4 \<le> length (read_buf w)")
    case True
    let ?fr = "head @ ?mk"
    have "read_buf w @ unread w = ?fr @ rest" "length ?fr \<le> length (read_buf w)" using inc True mk by simp_all
    then have "read_buf w = ?fr @ drop (length ?fr) (read_buf w)"
      by (metis append_eq_append_conv_if append_take_drop_id)
    then obtain x where "read_buf w = head @ ?mk @ x" by auto
    then show ?thesis using find_sub_prefix(1) [OF assms(4)] by (simp add: read_head.simps [of w])
  next
    case False
    then have "read_buf w = take (length (read_buf w)) (head @ ?mk @ rest)"
      by (metis append_eq_conv_conj inc)
    then have none: "find_sub ?mk (read_buf w) = None"
      using find_sub_prefix(2) [OF assms(4), of "length (read_buf w)" rest] False mk by simp
    define v where "v = snd (now w)"
    have v: "ws_calm v" "unread v = unread w" "clock v = clock w" "read_buf v = read_buf w" "unread v \<noteq> []"
      using less.prems(1) inc False mk by (auto simp: v_def) (simp_all add: now_def)
    have "far (Some (fst (now w) + 30 * 1000000000)) v"
      using less.prems(2) by (simp add: far_def v(3)) (simp add: now_def)
    from stream_fill_calm [OF v(1,5) this] obtain u where
      u: "stream_fill (Some (fst (now w) + 30 * 1000000000)) v = (Ret (), u)" "filled v u" by blast
    have "length (unread u) < length (unread w)" "ws_calm u" "clock u = clock w" "incoming u = head @ ?mk @ rest"
      using u(2) v inc by (auto simp: filled_def incoming_def)
    then obtain w' where "read_head u = (Ret (length head), w')" using less.hyps [of u] less.prems(2) by metis
    then show ?thesis using none u(1) False assms(5) by (simp add: read_head.simps [of w] v_def [symmetric])
  qed
qed

section \<open>The run of a handshake\<close>

text \<open>The state right after the socket is open: nothing is buffered.\<close>

definition opened :: "WsUrl \<Rightarrow> 'a net_scheme \<Rightarrow> 'a net_scheme" where
  "opened url w = w\<lparr>ws_open := True, tls := url_tls url, read_buf := []\<rparr>"

text \<open>The key of the next handshake: sixteen fresh random bytes in Base64; and the request that carries it.\<close>

definition next_key :: "'l wslib_scheme \<Rightarrow> 'a net_scheme \<Rightarrow> string" where
  "next_key L w = base64_encode L (map (rng w (draws w)) [0..<16])"

definition next_request :: "'l wslib_scheme \<Rightarrow> WsUrl \<Rightarrow> string \<Rightarrow> 'a net_scheme \<Rightarrow> string" where
  "next_request L url protocol w = handshake_request url (to_string (unat (url_port url))) (next_key L w) protocol"

lemma opened_simps [simp]:
  "sent (opened url w) = sent w" "rng (opened url w) = rng w" "draws (opened url w) = draws w"
  "rand_ok (opened url w) = rand_ok w" "ws_open (opened url w)" "tls (opened url w) = url_tls url" "clock (opened url w) = clock w"
  by (simp_all add: opened_def)

text \<open>The handshake on the open socket.\<close>

definition handshake :: "'l wslib_scheme \<Rightarrow> WsUrl \<Rightarrow> string \<Rightarrow> 'a net_scheme \<Rightarrow> unit outcome \<times> 'a net_scheme" where
  "handshake L url protocol w =
     andthen (stream_write_all (bytes_of (next_request L url protocol w)) ((opened url w)\<lparr>draws := Suc (draws w)\<rparr>)) (\<lambda>_ w1.
       andthen (read_head w1) (\<lambda>n w1. (lift_result (check_response L (next_key L w) (string_of (take n (read_buf w1)))),
         w1\<lparr>read_buf := drop (n + 4) (read_buf w1)\<rparr>)))"

lemma ws_connect_run:
  assumes "ws_open_socket E url = Inr ()" "rand_ok w (draws w)"
  shows "ws_connect L E url protocol w = (case handshake L url protocol w of (Throw e, w) \<Rightarrow> (Throw e, ws_destroy w) | r \<Rightarrow> r)"
proof -
  have "handshake L url protocol w = andthen (stream_write_all (bytes_of (handshake_request url (to_string (unat (url_port url)))
        (base64_encode L (map (rng w (draws w)) [0..<16])) protocol))
      (w\<lparr>ws_open := True, tls := url_tls url, read_buf := [], draws := Suc (draws w)\<rparr>)) (\<lambda>_ wa.
      andthen (read_head wa) (\<lambda>head_end wa. (lift_result (check_response L (base64_encode L (map (rng w (draws w)) [0..<16]))
        (string_of (take head_end (read_buf wa)))), wa\<lparr>read_buf := drop (head_end + 4) (read_buf wa)\<rparr>)))"
    by (simp add: handshake_def opened_def next_request_def next_key_def)
  then show ?thesis using assms
    by (simp add: ws_connect_def RAND_bytes_def Let_def) (auto split: prod.splits outcome.splits)
qed

lemma ws_connect_Ret:
  assumes "ws_connect L E url protocol w = (Ret (), w')"
  shows "handshake L url protocol w = (Ret (), w')"
proof -
  have o: "ws_open_socket E url = Inr ()"
    using assms by (cases "ws_open_socket E url") (auto simp: ws_connect_def Let_def)
  then have r: "rand_ok w (draws w)"
    using assms by (rule_tac ccontr) (simp add: ws_connect_def Let_def RAND_bytes_def)
  show ?thesis using assms ws_connect_run [OF o r, of L protocol] by (auto split: prod.splits outcome.splits)
qed

lemma ws_connect_calm:
  assumes "ws_open_socket E url = Inr ()" "ws_calm (opened url w)" "\<forall>i j. clock w i < clock w j + 30 * 1000000000"
    and "ws_accepting (length (next_request L url protocol w)) (opened url w)"
    and "incoming (opened url w) = bytes_of head @ bytes_of (CRLF @ CRLF) @ rest"
    and "find_sub (CRLF @ CRLF) (head @ CRLF @ CRLF) = Some (length head)" "length head \<le> 16380"
  shows "(if acceptable_response L (next_key L w) head
    then \<exists>w'. ws_connect L E url protocol w = (Ret (), w') \<and> incoming w' = rest
    else \<exists>e w'. ws_connect L E url protocol w = (Throw e, w') \<and> \<not> ws_open w' \<and> \<not> tls w')"
proof -
  let ?v = "(opened url w)\<lparr>draws := Suc (draws w)\<rparr>" and ?mk = "bytes_of (CRLF @ CRLF)"
  have mk: "length ?mk = 4" by (simp add: CRLF_def)
  let ?rq = "bytes_of (next_request L url protocol w)"
  have rnd: "rand_ok w (draws w)" using assms(2) by (simp add: ws_calm_def)
  have "ws_accepting (length ?rq + 0) ?v" using assms(4) by (simp add: ws_accepting_def)
  from stream_write_all_accepting [OF this] obtain w1 where w1: "stream_write_all ?rq ?v = (Ret (), w1)" by blast
  have wo: "writes_only ?v w1" using writes_only_stream_write_all [of ?v] w1 by (metis snd_conv)
  have v: "ws_calm ?v" "incoming ?v = incoming (opened url w)"
    using assms(2) by (simp_all add: ws_calm_def)
  have inc: "ws_calm w1" "incoming w1 = bytes_of head @ ?mk @ rest" "\<forall>i j. clock w1 i < clock w1 j + 30 * 1000000000"
    using v ws_calm_writes_only [OF wo] incoming_writes_only [OF wo] assms(3,5) wo by (simp_all add: writes_only_def)
  moreover have "find_sub ?mk (bytes_of head @ ?mk) = Some (length head)"
    using assms(6) find_sub_bytes [of "CRLF @ CRLF" "head @ CRLF @ CRLF"] by simp
  ultimately obtain w2 where w2: "read_head w1 = (Ret (length head), w2)"
    using read_head_calm [of w1 "bytes_of head" rest] assms(7) by auto
  note rh = read_head_conserves [OF w2]
  have buf: "take (length head) (read_buf w2) = bytes_of head" "incoming (w2\<lparr>read_buf := drop (length head + 4) (read_buf w2)\<rparr>) = rest"
  proof -
    let ?b = "take (length head) (read_buf w2)" and ?d = "drop (length head + 4) (read_buf w2)"
    have "read_buf w2 = ?b @ ?mk @ ?d" "length ?b = length (bytes_of head)"
      using find_sub_cut [of ?mk "read_buf w2" "length head"] rh mk by simp_all
    moreover have "read_buf w2 @ unread w2 = bytes_of head @ ?mk @ rest" using rh inc by (simp add: incoming_def)
    ultimately have "?b @ ?mk @ ?d @ unread w2 = bytes_of head @ ?mk @ rest" "length ?b = length (bytes_of head)" by (metis append.assoc)+
    then show "?b = bytes_of head" "incoming (w2\<lparr>read_buf := ?d\<rparr>) = rest" by simp_all
  qed
  have hs: "handshake L url protocol w = (lift_result (check_response L (next_key L w) head), w2\<lparr>read_buf := drop (length head + 4) (read_buf w2)\<rparr>)"
    by (simp add: handshake_def w1 w2 buf(1))
  show ?thesis
  proof (cases "check_response L (next_key L w) head")
    case (Inl e)
    then have "\<not> acceptable_response L (next_key L w) head" by (simp add: check_response_iff [symmetric])
    with Inl ws_connect_run [OF assms(1) rnd, of L protocol] hs show ?thesis by (simp add: ws_destroy_def teardown_def)
  next
    case (Inr u)
    then have "acceptable_response L (next_key L w) head" by (simp add: check_response_iff [symmetric])
    with Inr ws_connect_run [OF assms(1) rnd, of L protocol] hs buf(2) show ?thesis by simp
  qed
qed

section \<open>A demonstration\<close>

definition demo_wslib :: wslib where
  "demo_wslib = extlib.extend demo_lib \<lparr>EVP_sha1 = (\<lambda>d. Some d), EVP_EncodeBlock = string_of\<rparr>"

definition demo_url :: WsUrl where
  "demo_url = \<lparr>url_tls = False, url_host = ''kernel'', url_port = 80, url_path = ''/ws''\<rparr>"

definition demo_head :: string where
  "demo_head = ''HTTP/1.1 101 Switching Protocols'' @ CRLF @ ''Upgrade: WebSocket'' @ CRLF @
     ''Sec-WebSocket-Accept: '' @ replicate 16 CHR ''A'' @ kWsGuid"

definition demo_server :: "string \<Rightarrow> net" where
  "demo_server head = \<lparr>reads = [RIntr, RData (bytes_of head @ bytes_of (CRLF @ CRLF) @ [7])], polls = replicate 200 PReady, polled = [],
     writes = replicate 300 (WCount 1), sent = [], clock = (\<lambda>i. 0), ticks = 0, tls = False, ssl_reads = [], ssl_writes = [],
     read_buf = [], rng = (\<lambda>i j. 65), rand_ok = (\<lambda>i. True), draws = 0, ws_open = False\<rparr>"

abbreviation demo_net :: net where
  "demo_net \<equiv> demo_server demo_head"

abbreviation demo_ws_env :: ws_env where
  "demo_ws_env \<equiv> \<lparr>addrinfo = Some [ConnFail ''refused'', ConnOk], ssl_setup = SetupOk\<rparr>"

lemma demo_server_facts:
  assumes "length head \<le> 180"
  shows "next_key demo_wslib (demo_server head) = replicate 16 CHR ''A''"
    "ws_calm (opened demo_url (demo_server head))"
    "ws_accepting (length (next_request demo_wslib demo_url ''vynkor'' (demo_server head))) (opened demo_url (demo_server head))"
    "incoming (opened demo_url (demo_server head)) = bytes_of head @ bytes_of (CRLF @ CRLF) @ [7]"
    "length head \<le> 16380" "ws_open_socket demo_ws_env demo_url = Inr ()"
    "\<forall>i j. clock (demo_server head) i < clock (demo_server head) j + 30 * 1000000000"
proof -
  have "next_key demo_wslib (demo_server head) = next_key demo_wslib demo_net" by (simp add: next_key_def demo_server_def)
  also have "\<dots> = replicate 16 CHR ''A''" by code_simp
  finally show key: "next_key demo_wslib (demo_server head) = replicate 16 CHR ''A''" .
  have "next_request demo_wslib demo_url ''vynkor'' (demo_server head) = next_request demo_wslib demo_url ''vynkor'' demo_net"
    by (simp add: next_request_def next_key_def demo_server_def)
  moreover have "length (next_request demo_wslib demo_url ''vynkor'' demo_net) \<le> 300" by code_simp
  ultimately have len: "length (next_request demo_wslib demo_url ''vynkor'' (demo_server head)) \<le> 300" by simp
  show "ws_calm (opened demo_url (demo_server head))"
    using assms by (simp add: ws_calm_def unread_weight_def opened_def demo_url_def demo_server_def calm_def ready_count_def CRLF_def)
  show "ws_accepting (length (next_request demo_wslib demo_url ''vynkor'' (demo_server head))) (opened demo_url (demo_server head))"
    using len by (simp add: ws_accepting_def opened_def demo_url_def demo_server_def accepting_def)
  show "incoming (opened demo_url (demo_server head)) = bytes_of head @ bytes_of (CRLF @ CRLF) @ [7]"
    by (simp add: incoming_def unread_def opened_def demo_url_def demo_server_def)
  show "length head \<le> 16380" using assms by simp
  show "ws_open_socket demo_ws_env demo_url = Inr ()" by (simp add: ws_open_socket_def demo_url_def Let_def)
  show "\<forall>i j. clock (demo_server head) i < clock (demo_server head) j + 30 * 1000000000" by (simp add: demo_server_def)
qed

lemma demo_handshake_facts:
  "next_key demo_wslib demo_net = replicate 16 CHR ''A''"
  "acceptable_response demo_wslib (next_key demo_wslib demo_net) demo_head"
  "ws_open_socket demo_ws_env demo_url = Inr ()" "ws_calm (opened demo_url demo_net)"
  "ws_accepting (length (next_request demo_wslib demo_url ''vynkor'' demo_net)) (opened demo_url demo_net)"
  "incoming (opened demo_url demo_net) = bytes_of demo_head @ bytes_of (CRLF @ CRLF) @ [7]"
  "find_sub (CRLF @ CRLF) (demo_head @ CRLF @ CRLF) = Some (length demo_head)"
  "length demo_head \<le> 16380"
proof -
  have len: "length demo_head \<le> 180" by code_simp
  note facts = demo_server_facts [OF len]
  show key: "next_key demo_wslib demo_net = replicate 16 CHR ''A''" by (rule facts)
  have "check_response demo_wslib (replicate 16 CHR ''A'') demo_head = Inr ()" by code_simp
  then show "acceptable_response demo_wslib (next_key demo_wslib demo_net) demo_head"
    unfolding key by (simp add: check_response_iff)
  show "find_sub (CRLF @ CRLF) (demo_head @ CRLF @ CRLF) = Some (length demo_head)" by code_simp
  show "ws_open_socket demo_ws_env demo_url = Inr ()" "ws_calm (opened demo_url demo_net)"
    "ws_accepting (length (next_request demo_wslib demo_url ''vynkor'' demo_net)) (opened demo_url demo_net)"
    "incoming (opened demo_url demo_net) = bytes_of demo_head @ bytes_of (CRLF @ CRLF) @ [7]" "length demo_head \<le> 16380"
    by (rule facts)+
qed

lemma demo_clock: "\<forall>i j. clock demo_net i < clock demo_net j + 30 * 1000000000"
  by (simp add: demo_server_def)

text \<open>
  The status-line test is lax: a server that refuses the upgrade with status 404 and whose reason
  phrase contains \<^verbatim>\<open> 101 \<close>, and that sends no \<^verbatim>\<open>Connection\<close> header, is taken for a WebSocket.
\<close>

definition refusing_head :: string where
  "refusing_head = ''HTTP/1.1 404 x 101 y'' @ CRLF @ ''Upgrade: websocket'' @ CRLF @
     ''Sec-WebSocket-Accept: '' @ replicate 16 CHR ''A'' @ kWsGuid"

lemma refusing_server_accepted:
  "(\<exists>w'. ws_connect demo_wslib demo_ws_env demo_url ''vynkor'' (demo_server refusing_head) = (Ret (), w')) \<and>
   \<not> rfc6455_response demo_wslib (next_key demo_wslib (demo_server refusing_head)) refusing_head"
proof -
  have len: "length refusing_head \<le> 180" by code_simp
  note facts = demo_server_facts [OF len]
  have find: "find_sub (CRLF @ CRLF) (refusing_head @ CRLF @ CRLF) = Some (length refusing_head)" by code_simp
  have "check_response demo_wslib (replicate 16 CHR ''A'') refusing_head = Inr ()" by code_simp
  then have "acceptable_response demo_wslib (next_key demo_wslib (demo_server refusing_head)) refusing_head"
    unfolding facts(1) by (simp add: check_response_iff)
  then obtain w' where "ws_connect demo_wslib demo_ws_env demo_url ''vynkor'' (demo_server refusing_head) = (Ret (), w')"
    using ws_connect_calm [OF facts(6,2,7,3,4) find facts(5)] by auto
  moreover have "hd (getlines refusing_head) = ''HTTP/1.1 404 x 101 y'' @ [CHR 0x0D]" by code_simp
  ultimately show ?thesis by (auto simp: rfc6455_response_def)
qed

section \<open>Properties\<close>

text \<open>
  C13: A connection that \<open>connect\<close> returns has made the handshake the code checks. It has sent
  exactly one request, with sixteen fresh random bytes as its key; the status line of the server's
  response contains \<^verbatim>\<open> 101 \<close> or starts with \<^verbatim>\<open>HTTP/1.1 101\<close>, and its header lines have an
  \<^verbatim>\<open>Upgrade: websocket\<close> and the accept value of that key (\<open>acceptable_response\<close>, weaker than
  RFC 6455: \<open>refusing_server_accepted\<close>); and the bytes of the stream after the head, frames the
  server may already have sent, are all still to be read.
\<close>

theorem ws_connect_sound:
  assumes "ws_connect L E url protocol w = (Ret (), w')"
  shows "\<exists>head. sent w' = sent w @ bytes_of (next_request L url protocol w) \<and> acceptable_response L (next_key L w) head \<and>
    incoming (opened url w) = bytes_of head @ bytes_of (CRLF @ CRLF) @ incoming w' \<and> ws_open w' \<and> tls w' = url_tls url"
proof -
  let ?v = "(opened url w)\<lparr>draws := Suc (draws w)\<rparr>" and ?mk = "bytes_of (CRLF @ CRLF)"
  have mk: "length ?mk = 4" by (simp add: CRLF_def)
  from ws_connect_Ret [OF assms] obtain w1 n w2 where w1: "stream_write_all (bytes_of (next_request L url protocol w)) ?v = (Ret (), w1)"
    and w2: "read_head w1 = (Ret n, w2)" and ok: "lift_result (check_response L (next_key L w) (string_of (take n (read_buf w2)))) = Ret ()"
    and w': "w' = w2\<lparr>read_buf := drop (n + 4) (read_buf w2)\<rparr>"
    by (auto simp: handshake_def andthen_Ret)
  from ok have ok: "check_response L (next_key L w) (string_of (take n (read_buf w2))) = Inr ()"
    by (cases "check_response L (next_key L w) (string_of (take n (read_buf w2)))") simp_all
  have wo: "writes_only ?v w1" using writes_only_stream_write_all [of ?v] w1 by (metis snd_conv)
  note rh = read_head_conserves [OF w2]
  have "incoming ?v = incoming (opened url w)" by simp
  with rh incoming_writes_only [OF wo] have inc: "incoming w2 = incoming (opened url w)" by simp
  have cut: "read_buf w2 = take n (read_buf w2) @ ?mk @ drop (n + 4) (read_buf w2)"
    using find_sub_cut(1) [of ?mk "read_buf w2" n] rh mk by simp
  have "incoming w2 = take n (read_buf w2) @ ?mk @ incoming w'"
    unfolding incoming_def w' by (subst cut) (simp add: unread_def)
  moreover have "sent w' = sent w @ bytes_of (next_request L url protocol w)"
    using stream_write_all_sent [OF w1] rh w' by (simp add: same_out_def)
  moreover have "ws_open w' \<and> tls w' = url_tls url" using wo rh w' by (simp add: writes_only_def same_out_def)
  ultimately show ?thesis using ok inc by (intro exI [of _ "string_of (take n (read_buf w2))"]) (simp add: check_response_iff)
qed

theorem ws_connect_sound_witness:
  "\<exists>w' head. ws_connect demo_wslib demo_ws_env demo_url ''vynkor'' demo_net = (Ret (), w') \<and>
     acceptable_response demo_wslib (next_key demo_wslib demo_net) head \<and> sent w' = bytes_of (next_request demo_wslib demo_url ''vynkor'' demo_net)"
proof -
  obtain w' where w': "ws_connect demo_wslib demo_ws_env demo_url ''vynkor'' demo_net = (Ret (), w')"
    using ws_connect_calm [OF demo_handshake_facts(3,4) demo_clock demo_handshake_facts(5-8)] demo_handshake_facts(2) by auto
  from ws_connect_sound [OF w'] w' show ?thesis by (auto simp: demo_server_def)
qed

text \<open>
  C14: A response is accepted exactly when it passes the code's checks. When the socket opens and
  keeps taking bytes, and the server's response, whose head is at most 16380 bytes long, arrives
  within the thirty seconds, segmented in any way and followed by any bytes, \<open>connect\<close> returns
  exactly when the head is acceptable for the key (\<open>acceptable_response\<close>, which every
  \<open>rfc6455_response\<close> is), and then leaves exactly the bytes after it; otherwise it throws and the
  connection is torn down.
\<close>

theorem ws_connect_completes:
  assumes "ws_open_socket E url = Inr ()" "ws_calm (opened url w)" "\<forall>i j. clock w i < clock w j + 30 * 1000000000"
    and "ws_accepting (length (next_request L url protocol w)) (opened url w)"
    and "incoming (opened url w) = bytes_of head @ bytes_of (CRLF @ CRLF) @ rest"
    and "find_sub (CRLF @ CRLF) (head @ CRLF @ CRLF) = Some (length head)" "length head \<le> 16380"
  shows "(if acceptable_response L (next_key L w) head
    then \<exists>w'. ws_connect L E url protocol w = (Ret (), w') \<and> incoming w' = rest
    else \<exists>e w'. ws_connect L E url protocol w = (Throw e, w') \<and> \<not> ws_open w' \<and> \<not> tls w')"
  by (rule ws_connect_calm [OF assms])

theorem ws_connect_completes_witness:
  "\<exists>w'. ws_connect demo_wslib demo_ws_env demo_url ''vynkor'' demo_net = (Ret (), w') \<and> incoming w' = [7]"
  using ws_connect_completes [OF demo_handshake_facts(3,4) demo_clock demo_handshake_facts(5-8)] demo_handshake_facts(2) by auto

end
