(* ===== verification/Vyn_Envelope.thy ===== *)
theory Vyn_Envelope
  imports Vyn_Ws_Connection
begin

text \<open>
  The protocol messages the SDK reads and writes, as records with the field names of
  \<^verbatim>\<open>proto/vynkor_protocol.proto\<close>; the \<open>oneof\<close> of the envelope is a datatype. Fields that the
  SDK neither sets nor reads (device metadata of a registration, for instance) are left out: they
  keep their proto3 defaults. The generated serialiser and parser are not part of the repository
  and are parameters, in the library record \<open>sdklib\<close>.
\<close>

datatype ActionRisk = ACTION_RISK_UNKNOWN | ACTION_RISK_LOW | ACTION_RISK_MEDIUM | ACTION_RISK_HIGH | ACTION_RISK_CRITICAL

datatype ActionStatus = ACTION_UNKNOWN | ACTION_OK | ACTION_ERROR | ACTION_TIMEOUT | ACTION_PERMISSION_DENY
  | ACTION_NOT_FOUND | ACTION_QUOTA_EXCEEDED | ACTION_STREAM_BACKPRESSURE

datatype CommandStatus = COMMAND_UNKNOWN | COMMAND_OK | COMMAND_ERROR | COMMAND_PERMISSION_DENIED

datatype EventPublishStatus = EVENT_PUBLISH_UNKNOWN | EVENT_PUBLISH_OK | EVENT_PUBLISH_ERROR | EVENT_PUBLISH_PERMISSION_DENY

datatype AudioCodec = AUDIO_CODEC_UNSPECIFIED | AUDIO_CODEC_PCM_S16LE | AUDIO_CODEC_OPUS

record ActionSpec =
  sp_name :: string
  sp_description :: string
  sp_params_schema :: string
  sp_risk :: ActionRisk
  sp_requires_confirmation :: bool

record PluginManifest =
  mf_permissions :: "string list"
  mf_actions :: "string list"
  mf_events :: "string list"
  mf_ipc_targets :: "string list"
  mf_platforms :: "string list"
  mf_action_specs :: "ActionSpec list"

record PluginRegister =
  rg_plugin_id :: string
  rg_version :: string
  rg_manifest :: PluginManifest
  rg_jwt_token :: string
  rg_device_id :: string

record PluginRegisterAck =
  ak_accepted :: bool
  ak_reject_reason :: string
  ak_granted_permissions :: "string list"
  ak_session_nonce :: bytes

record PluginShutdown =
  sd_reason :: string
  sd_grace_seconds :: u32

record ActionRequest =
  rq_action_id :: string
  rq_action :: string
  rq_params_json :: bytes
  rq_timeout_ms :: u32
  rq_streaming :: bool
  rq_caller_plugin_id :: string

record ActionResponse =
  rs_action_id :: string
  rs_status :: ActionStatus
  rs_data_json :: bytes
  rs_error :: string

record ActionRequestChunk =
  qc_action_id :: string
  qc_seq :: u32
  qc_chunk :: bytes
  qc_final :: bool

record ActionResponseChunk =
  sc_action_id :: string
  sc_seq :: u32
  sc_chunk :: bytes

record ActionStreamAbort =
  ab_action_id :: string
  ab_reason :: string

record SessionClose =
  cl_action_id :: string
  cl_reason :: string

record KernelCommand =
  kc_command_id :: string
  kc_command :: string
  kc_params_json :: bytes

record KernelCommandAck =
  ka_command_id :: string
  ka_status :: CommandStatus
  ka_data_json :: bytes
  ka_error :: string

record Event =
  ev_event_id :: string
  ev_event_type :: string
  ev_payload_json :: bytes
  ev_retry_count :: u32

record EventPublish =
  ep_event_type :: string
  ep_payload_json :: bytes

record EventPublishAck =
  ea_event_id :: string
  ea_status :: EventPublishStatus
  ea_error :: string

record AudioStreamChunk =
  au_stream_id :: u32
  au_codec :: AudioCodec
  au_sample_rate :: u32
  au_channels :: u32
  au_data :: bytes
  au_end_of_stream :: bool

record Pong =
  pg_original_timestamp :: u64
  pg_server_timestamp :: u64

record ErrorMessage =
  er_code :: nat
  er_message :: string
  er_details :: string

datatype payload_case =
    NoPayload
  | M_plugin_register PluginRegister
  | M_plugin_register_ack PluginRegisterAck
  | M_plugin_shutdown PluginShutdown
  | M_action_request ActionRequest
  | M_action_response ActionResponse
  | M_action_request_chunk ActionRequestChunk
  | M_action_response_chunk ActionResponseChunk
  | M_action_stream_abort ActionStreamAbort
  | M_session_close SessionClose
  | M_kernel_command KernelCommand
  | M_kernel_command_ack KernelCommandAck
  | M_event Event
  | M_event_ack string
  | M_subscribe "string list"
  | M_unsubscribe "string list"
  | M_event_publish EventPublish
  | M_event_publish_ack EventPublishAck
  | M_audio_stream_chunk AudioStreamChunk
  | M_ping u64
  | M_pong Pong
  | M_error ErrorMessage

record Envelope =
  en_message_id :: string
  en_timestamp :: u64
  en_sender_id :: string
  en_payload :: payload_case

text \<open>A fresh envelope with one payload; the other fields keep their defaults.\<close>

definition envelope :: "payload_case \<Rightarrow> Envelope" where
  "envelope p = \<lparr>en_message_id = [], en_timestamp = 0, en_sender_id = [], en_payload = p\<rparr>"

record sdklib = wslib +
  SerializeToString :: "Envelope \<Rightarrow> bytes"
  ParseFromArray :: "bytes \<Rightarrow> Envelope option"

text \<open>Protobuf's documented behaviour, for one message: parsing inverts serialising.\<close>

definition proto_roundtrip :: "'l sdklib_scheme \<Rightarrow> Envelope \<Rightarrow> bool" where
  "proto_roundtrip L e \<longleftrightarrow> ParseFromArray L (SerializeToString L e) = Some e"

lemma envelope_payload [simp]: "en_payload (envelope p) = p"
  by (simp add: envelope_def)

end
