(* ===== verification/Vyn_Env.thy ===== *)
theory Vyn_Env
  imports Vyn_Prelude
begin

text \<open>
  Environment resolution, \<^verbatim>\<open>src/env.cpp\<close>: the socket path, the token and the MAC
  credentials. The process environment and the directories of the file system are a record;
  \<^verbatim>\<open>mkdir\<close> creates one directory level, as POSIX has it, and may be refused. What exists at a
  path the code looks at is a directory.
\<close>

section \<open>The operating system\<close>

record os_env =
  env_vars :: "string \<Rightarrow> string option"
  os_uid :: nat
  dirs :: "(string, nat) table"
  denied :: "string \<Rightarrow> bool"

text \<open>The path without its last component.\<close>

definition parent_of :: "string \<Rightarrow> string" where
  "parent_of p = rev (drop 1 (dropWhile (\<lambda>c. c \<noteq> CHR ''/'') (rev p)))"

datatype mkdir_res = MkOk | MkExists | MkFail

definition os_mkdir :: "string \<Rightarrow> nat \<Rightarrow> os_env \<Rightarrow> mkdir_res \<times> os_env" where
  "os_mkdir p mode E =
     (if tbl_find (dirs E) p \<noteq> None then (MkExists, E)
      else if denied E p \<or> tbl_find (dirs E) (parent_of p) = None then (MkFail, E)
      else (MkOk, E\<lparr>dirs := tbl_put p mode (dirs E)\<rparr>))"

definition os_chmod :: "string \<Rightarrow> nat \<Rightarrow> os_env \<Rightarrow> bool \<times> os_env" where
  "os_chmod p mode E =
     (if tbl_find (dirs E) p = None \<or> denied E p then (False, E)
      else (True, E\<lparr>dirs := tbl_put p mode (dirs E)\<rparr>))"

text \<open>\<^verbatim>\<open>getenv\<close> with the test for a non-empty value.\<close>

definition getenv_nonempty :: "os_env \<Rightarrow> string \<Rightarrow> string option" where
  "getenv_nonempty E k = (case env_vars E k of Some v \<Rightarrow> if v = [] then None else Some v | None \<Rightarrow> None)"

section \<open>The code\<close>

definition is_directory :: "os_env \<Rightarrow> string \<Rightarrow> bool" where
  "is_directory E p \<longleftrightarrow> tbl_find (dirs E) p \<noteq> None"

text \<open>Mode 0700 is 448.\<close>

definition ensure_private_dir :: "string \<Rightarrow> os_env \<Rightarrow> bool \<times> os_env" where
  "ensure_private_dir dir E = (case os_mkdir dir 448 E of
      (MkFail, E) \<Rightarrow> (False, E)
    | (_, E) \<Rightarrow> os_chmod dir 448 E)"

definition default_socket_path :: "os_env \<Rightarrow> string \<times> os_env" where
  "default_socket_path E =
     (case getenv_nonempty E ''VYN_SOCKET_PATH'' of
        Some explicit_path \<Rightarrow> (explicit_path, E)
      | None \<Rightarrow>
     (case getenv_nonempty E ''XDG_RUNTIME_DIR'' of
        Some xdg \<Rightarrow> (xdg @ ''/vyn.sock'', E)
      | None \<Rightarrow>
        let run_user = ''/run/user/'' @ to_string (os_uid E) in
        if is_directory E run_user then (run_user @ ''/vyn.sock'', E)
        else (case getenv_nonempty E ''HOME'' of
            Some home \<Rightarrow>
              let dir = home @ ''/.local/state/vyn/run'' in
              (case ensure_private_dir dir E of
                 (True, E) \<Rightarrow> (dir @ ''/vyn.sock'', E)
               | (False, E) \<Rightarrow> ([], E))
          | None \<Rightarrow> ([], E))))"

definition resolve_jwt_token :: "os_env \<Rightarrow> string \<Rightarrow> string" where
  "resolve_jwt_token E explicit_token =
     (if explicit_token \<noteq> [] then explicit_token
      else (case getenv_nonempty E ''VYN_JWT_TOKEN'' of Some tok \<Rightarrow> tok | None \<Rightarrow> []))"

definition resolve_jwt_secret :: "os_env \<Rightarrow> bytes \<Rightarrow> bytes" where
  "resolve_jwt_secret E explicit_secret =
     (if explicit_secret \<noteq> [] then explicit_secret
      else (case getenv_nonempty E ''VYN_JWT_SECRET'' of Some s \<Rightarrow> bytes_of s | None \<Rightarrow> []))"

datatype cred_kind = Device | Shared | NoCred

record WsCredentials =
  wc_kind :: cred_kind
  wc_device_id :: string
  wc_secret :: bytes

definition resolve_ws_credentials :: "string \<Rightarrow> string \<Rightarrow> string \<Rightarrow> WsCredentials result" where
  "resolve_ws_credentials device_id device_secret jwt_secret =
     (let has_id = (device_id \<noteq> []); has_secret = (device_secret \<noteq> []) in
      if has_id \<and> has_secret then
        if jwt_secret \<noteq> [] then
          Inl (VynkorInternal (''VYN_JWT_SECRET is set alongside VYN_DEVICE_ID/VYN_DEVICE_SECRET '' @
            string_of [0xE2, 0x80, 0x94] @
            '' a paired device must not hold the host master secret; unset it''))
        else Inr \<lparr>wc_kind = Device, wc_device_id = device_id, wc_secret = bytes_of device_secret\<rparr>
      else if has_id then Inl (VynkorInternal ''VYN_DEVICE_ID is set without VYN_DEVICE_SECRET'')
      else if has_secret then Inl (VynkorInternal ''VYN_DEVICE_SECRET is set without VYN_DEVICE_ID'')
      else if jwt_secret \<noteq> [] then Inr \<lparr>wc_kind = Shared, wc_device_id = [], wc_secret = bytes_of jwt_secret\<rparr>
      else Inr \<lparr>wc_kind = NoCred, wc_device_id = [], wc_secret = []\<rparr>)"

definition resolve_ws_credentials_from_env :: "os_env \<Rightarrow> WsCredentials result" where
  "resolve_ws_credentials_from_env E =
     (let get = (\<lambda>key. case env_vars E key of Some v \<Rightarrow> v | None \<Rightarrow> []) in
      resolve_ws_credentials (get ''VYN_DEVICE_ID'') (get ''VYN_DEVICE_SECRET'') (get ''VYN_JWT_SECRET''))"

section \<open>Properties\<close>

lemma ensure_private_dir_True:
  "ensure_private_dir dir E = (True, E') \<Longrightarrow> tbl_find (dirs E') dir = Some 448"
  by (auto simp: ensure_private_dir_def os_mkdir_def os_chmod_def tbl.find_put split: mkdir_res.splits if_splits)

lemma ensure_private_dir_orphan:
  "tbl_find (dirs E) dir = None \<Longrightarrow> tbl_find (dirs E) (parent_of dir) = None \<Longrightarrow> ensure_private_dir dir E = (False, E)"
  by (simp add: ensure_private_dir_def os_mkdir_def)

text \<open>
  C32: the per-user fallback is private. Whenever no variable names a socket directory and there is no
  \<^verbatim>\<open>/run/user\<close> directory, a non-empty result lies in the \<^verbatim>\<open>run\<close> directory under the user's
  home, which then exists with mode 0700. The directory is created one level deep only: when
  \<^verbatim>\<open>~/.local/state/vyn\<close> itself is missing the result is the empty path.
\<close>

theorem default_socket_path_private:
  assumes "getenv_nonempty E ''VYN_SOCKET_PATH'' = None" and "getenv_nonempty E ''XDG_RUNTIME_DIR'' = None"
    and "\<not> is_directory E (''/run/user/'' @ to_string (os_uid E))" and "default_socket_path E = (path, E')"
  shows "(path \<noteq> [] \<longrightarrow> (\<exists>home. getenv_nonempty E ''HOME'' = Some home \<and> path = home @ ''/.local/state/vyn/run/vyn.sock'' \<and>
      tbl_find (dirs E') (home @ ''/.local/state/vyn/run'') = Some 448)) \<and>
    (\<forall>home. getenv_nonempty E ''HOME'' = Some home \<longrightarrow> \<not> is_directory E (home @ ''/.local/state/vyn'') \<longrightarrow>
      \<not> is_directory E (home @ ''/.local/state/vyn/run'') \<longrightarrow> path = [] \<and> E' = E)"
proof -
  have parent: "parent_of (home @ ''/.local/state/vyn/run'') = home @ ''/.local/state/vyn''" for home
    by (simp add: parent_of_def)
  show ?thesis
    using assms ensure_private_dir_True ensure_private_dir_orphan [of E "_ @ ''/.local/state/vyn/run''", unfolded parent]
    by (auto simp: default_socket_path_def is_directory_def Let_def split: option.splits bool.splits prod.splits)
qed

text \<open>Witness: a home directory with \<^verbatim>\<open>~/.local/state/vyn\<close> in place.\<close>

theorem default_socket_path_private_witness:
  "let E = \<lparr>env_vars = [''HOME'' \<mapsto> ''/h''], os_uid = 7, dirs = [(''/h/.local/state/vyn'', 493)], denied = (\<lambda>p. False)\<rparr>
   in tbl_find (dirs (snd (default_socket_path E))) ''/h/.local/state/vyn/run'' = Some 448"
proof -
  define E where "E = \<lparr>env_vars = [''HOME'' \<mapsto> ''/h''], os_uid = 7, dirs = [(''/h/.local/state/vyn'', 493)], denied = (\<lambda>p. False)\<rparr>"
  have g: "getenv_nonempty E ''VYN_SOCKET_PATH'' = None" "getenv_nonempty E ''XDG_RUNTIME_DIR'' = None"
    "getenv_nonempty E ''HOME'' = Some ''/h''" "\<not> is_directory E (''/run/user/'' @ to_string (os_uid E))"
    by (simp_all add: E_def getenv_nonempty_def is_directory_def tbl_find_def)
  have ne: "fst (default_socket_path E) \<noteq> []"
    using g by (simp add: default_socket_path_def ensure_private_dir_def os_mkdir_def os_chmod_def E_def tbl_find_def tbl_put_def parent_of_def Let_def)
  show ?thesis
    using default_socket_path_private [OF g(1,2,4) surjective_pairing] ne g(3) unfolding Let_def E_def [symmetric] by fastforce
qed

text \<open>
  Credentials on the WebSocket transport never mix. Device credentials are used exactly when both
  device variables are set and no master secret is, and then the MAC secret is the device's own;
  a half-set pair, or a master secret beside a complete pair, is an error; the master secret is used
  only when no device variable is set.
\<close>

lemma ws_credentials_policy:
  "case resolve_ws_credentials device_id device_secret jwt_secret of
     Inr c \<Rightarrow> (wc_kind c = Device \<and> device_id \<noteq> [] \<and> device_secret \<noteq> [] \<and> jwt_secret = [] \<and>
                 wc_device_id c = device_id \<and> wc_secret c = bytes_of device_secret) \<or>
              (wc_kind c = Shared \<and> device_id = [] \<and> device_secret = [] \<and> jwt_secret \<noteq> [] \<and>
                 wc_device_id c = [] \<and> wc_secret c = bytes_of jwt_secret) \<or>
              (wc_kind c = NoCred \<and> device_id = [] \<and> device_secret = [] \<and> jwt_secret = [] \<and> wc_secret c = [])
   | Inl e \<Rightarrow> (\<exists>m. e = VynkorInternal m) \<and>
              ((device_id = [] \<longleftrightarrow> device_secret \<noteq> []) \<or> (device_id \<noteq> [] \<and> device_secret \<noteq> [] \<and> jwt_secret \<noteq> []))"
  by (auto simp: resolve_ws_credentials_def Let_def)

end
