(* ===== verification/Vyn_Reassembly.thy ===== *)
theory Vyn_Reassembly
  imports Vyn_Frame_IO "HOL-Library.Multiset"
begin

text \<open>
  Fragmentation: the split that \<open>VynkorClient::send_fragmented\<close> performs and the reassembly table
  of \<open>VynkorClient::absorb_fragment\<close> (\<^verbatim>\<open>src/client.cpp\<close>,
  \<^verbatim>\<open>include/vynkor/client.hpp\<close>). Sizes of the \<^verbatim>\<open>size_t\<close> type are 64-bit
  words, so the arithmetic of the split and of \<open>buffered_bytes\<close> wraps as in the source. Clock
  readings are arguments, in nanoseconds.
\<close>

section \<open>The code\<close>

definition MAX_REASSEMBLY_STREAMS :: nat where "MAX_REASSEMBLY_STREAMS = 64"
definition REASSEMBLY_TIMEOUT :: int where "REASSEMBLY_TIMEOUT = 30 * 1000000000"

record ReassemblyBuf =
  fragments :: "(u16, bytes) table"
  rb_total :: u16
  rb_flags :: u16
  first_seen :: int
  buffered_bytes :: u64

definition is_complete :: "ReassemblyBuf \<Rightarrow> bool" where
  "is_complete buf \<longleftrightarrow> tbl_size (fragments buf) = unat (rb_total buf)"

text \<open>\<^verbatim>\<open>fragments.at(seq)\<close> throws \<^verbatim>\<open>std::out_of_range\<close> on a missing sequence number.\<close>

fun reassemble_from :: "(u16, bytes) table \<Rightarrow> nat list \<Rightarrow> bytes result" where
  "reassemble_from m [] = Inr []"
| "reassemble_from m (s # ss) = (case tbl_find m (word_of_nat s) of
      None \<Rightarrow> Inl (StdOutOfRange ''unordered_map::at'')
    | Some chunk \<Rightarrow> bind_result (reassemble_from m ss) (\<lambda>out. Inr (chunk @ out)))"

definition reassemble :: "ReassemblyBuf \<Rightarrow> bytes result" where
  "reassemble buf = reassemble_from (fragments buf) [0..<unat (rb_total buf)]"

type_synonym reassembly = "(u32, ReassemblyBuf) table"

definition prune :: "int \<Rightarrow> reassembly \<Rightarrow> reassembly" where
  "prune t tab = tbl_sweep (\<lambda>buf. t - first_seen buf \<ge> REASSEMBLY_TIMEOUT) tab"

text \<open>\<^verbatim>\<open>reassembly_.try_emplace(stream_id, total, flags)\<close>: the constructor runs, and
  reads the clock, only for a new stream.\<close>

definition try_emplace :: "u32 \<Rightarrow> u16 \<Rightarrow> u16 \<Rightarrow> int \<Rightarrow> reassembly \<Rightarrow> ReassemblyBuf \<times> reassembly" where
  "try_emplace sid tot flags created tab = (case tbl_find tab sid of
      Some buf \<Rightarrow> (buf, tab)
    | None \<Rightarrow> let buf = \<lparr>fragments = [], rb_total = tot, rb_flags = flags, first_seen = created, buffered_bytes = 0\<rparr>
        in (buf, tbl_put sid buf tab))"

text \<open>
  The three stages of \<open>absorb_fragment\<close>: the stream may be refused, the chunk is buffered within
  the byte limit, and a complete set is reassembled and dropped.
\<close>

definition admit :: "FragmentHeader \<Rightarrow> reassembly \<Rightarrow> unit result \<times> reassembly" where
  "admit hdr tab = (case tbl_find tab (fh_stream_id hdr) of
      Some old \<Rightarrow>
        if rb_total old \<noteq> fh_total hdr
        then (Inl (VynkorInternal ''fragment total mismatch within stream''), tbl_erase (fh_stream_id hdr) tab)
        else (Inr (), tab)
    | None \<Rightarrow>
        if tbl_size tab \<ge> MAX_REASSEMBLY_STREAMS
        then (Inl (VynkorInternal ''too many concurrent fragment streams''), tab)
        else (Inr (), tab))"

definition finish_stream :: "u32 \<Rightarrow> ReassemblyBuf \<Rightarrow> reassembly \<Rightarrow> FrameResult option result \<times> reassembly" where
  "finish_stream sid buf tab =
     (if is_complete buf then
        (case reassemble buf of
           Inl e \<Rightarrow> (Inl e, tab)
         | Inr payload \<Rightarrow> (Inr (Some \<lparr>fr_payload = payload, fr_flags = rb_flags buf, fr_has_mac = False,
             fr_mac = replicate MAC_TAG_LEN 0, fr_raw_header = replicate FRAME_HEADER_SIZE 0\<rparr>),
            tbl_erase sid tab))
      else (Inr None, tab))"

definition buffer_fragment ::
    "int \<Rightarrow> FrameResult \<Rightarrow> FragmentHeader \<Rightarrow> reassembly \<Rightarrow> FrameResult option result \<times> reassembly" where
  "buffer_fragment created frame hdr tab =
     (let (buf, tab) = try_emplace (fh_stream_id hdr) (fh_total hdr)
            (fr_flags frame AND NOT (FLAG_FRAGMENTED OR FLAG_MAC_PRESENT)) created tab;
          chunk = drop FRAG_HEADER_SIZE (fr_payload frame);
          replaced_len = (case tbl_find (fragments buf) (fh_sequence hdr) of Some c \<Rightarrow> length c | None \<Rightarrow> 0);
          new_total = buffered_bytes buf - word_of_nat replaced_len + word_of_nat (length chunk) in
      if unat new_total > MAX_PAYLOAD_SIZE then
        (Inl (VynkorPayloadTooLarge (MAX_PAYLOAD_SIZE + 1)), tbl_erase (fh_stream_id hdr) tab)
      else
        let buf = buf\<lparr>buffered_bytes := new_total, fragments := tbl_put (fh_sequence hdr) chunk (fragments buf)\<rparr>
        in finish_stream (fh_stream_id hdr) buf (tbl_put (fh_stream_id hdr) buf tab))"

definition absorb_fragment ::
    "int \<Rightarrow> int \<Rightarrow> FrameResult \<Rightarrow> reassembly \<Rightarrow> FrameResult option result \<times> reassembly" where
  "absorb_fragment t created frame tab =
     (let tab = prune t tab in
      case parse_frag_header (fr_payload frame) of
        None \<Rightarrow> (Inl (VynkorInternal ''fragment header too short''), tab)
      | Some hdr \<Rightarrow>
        if fh_total hdr = 0 \<or> fh_sequence hdr \<ge> fh_total hdr then
          (Inl (VynkorInternal (''invalid fragment header: seq '' @ to_string (unat (fh_sequence hdr)) @
             '' / total '' @ to_string (unat (fh_total hdr)))), tab)
        else (case admit hdr tab of
            (Inl e, tab) \<Rightarrow> (Inl e, tab)
          | (Inr _, tab) \<Rightarrow> buffer_fragment created frame hdr tab))"

text \<open>
  The sending side: the guards of \<open>send_fragmented\<close> that give the number of fragments, and the
  payload of one fragment. All of it is \<^verbatim>\<open>size_t\<close> arithmetic.
\<close>

definition fragment_count :: "bytes \<Rightarrow> u64 \<Rightarrow> u64 result" where
  "fragment_count payload chunk_size =
     (let size = word_of_nat (length payload) in
      if length payload > MAX_PAYLOAD_SIZE then Inl (VynkorPayloadTooLarge (length payload))
      else if chunk_size = 0 \<or> chunk_size + word_of_nat FRAG_HEADER_SIZE > word_of_nat MAX_PAYLOAD_SIZE
      then Inl (VynkorInternal (''invalid fragment chunk_size: '' @ to_string (unat chunk_size)))
      else let n = (if payload = [] then 1 else (size + chunk_size - 1) div chunk_size) in
        if n > 0xFFFF
        then Inl (VynkorInternal (''payload needs '' @ to_string (unat n) @ '' fragments; max is 65535''))
        else Inr n)"

definition fragment_payload :: "bytes \<Rightarrow> u64 \<Rightarrow> u64 \<Rightarrow> u32 \<Rightarrow> u64 \<Rightarrow> bytes" where
  "fragment_payload payload chunk_size n stream_id seq =
     (let start = seq * chunk_size;
          len = min chunk_size (word_of_nat (length payload) - start)
      in pack_frag_header (ucast (stream_id AND 0xFFFF)) (ucast seq) (ucast n) stream_id
           @ take (unat len) (drop (unat start) payload))"

definition advance_stream_id :: "u32 \<Rightarrow> u32" where
  "advance_stream_id sid = (let sid = sid + 1 in if sid = 0 then 1 else sid)"

section \<open>The invariant of the reassembly table\<close>

text \<open>The bytes held by a set of fragments.\<close>

definition stored :: "(u16, bytes) table \<Rightarrow> nat" where
  "stored m = sum_list (map (length \<circ> snd) m)"

text \<open>
  A stream between two calls: distinct sequence numbers below the total, not all of them present,
  and a byte count that is exact and within the limit.
\<close>

definition buf_ok :: "ReassemblyBuf \<Rightarrow> bool" where
  "buf_ok buf \<longleftrightarrow> tbl_ok (fragments buf) \<and> (\<forall>s c. tbl_find (fragments buf) s = Some c \<longrightarrow> s < rb_total buf) \<and>
     unat (buffered_bytes buf) = stored (fragments buf) \<and> stored (fragments buf) \<le> MAX_PAYLOAD_SIZE \<and>
     tbl_size (fragments buf) < unat (rb_total buf)"

definition reasm_ok :: "reassembly \<Rightarrow> bool" where
  "reasm_ok tab \<longleftrightarrow> tbl_ok tab \<and> tbl_size tab \<le> MAX_REASSEMBLY_STREAMS \<and>
     (\<forall>sid buf. tbl_find tab sid = Some buf \<longrightarrow> buf_ok buf)"

lemma stored_update:
  "distinct (map fst m) \<Longrightarrow> stored (AList.update k v m) + (case map_of m k of None \<Rightarrow> 0 | Some c \<Rightarrow> length c) =
     stored m + length v"
  by (induction m) (auto simp: stored_def split: option.splits)

lemma stored_put:
  "tbl_ok m \<Longrightarrow> stored (tbl_put k v m) + (case tbl_find m k of None \<Rightarrow> 0 | Some c \<Rightarrow> length c) = stored m + length v"
  unfolding tbl_ok_def tbl_put_def tbl_find_def by (rule stored_update)

lemma stored_sum:
  assumes "tbl_ok m"
  shows "stored m = (\<Sum>k | tbl_find m k \<noteq> None. length (the (tbl_find m k)))"
proof -
  from assms have d: "distinct (map fst m)" by (simp add: tbl_ok_def)
  have "map (length \<circ> snd) m = map (\<lambda>k. length (the (map_of m k))) (map fst m)"
    using d by (auto simp: map_of_is_SomeI)
  then have "stored m = (\<Sum>k \<in> set (map fst m). length (the (map_of m k)))"
    unfolding stored_def using d by (simp only: sum_list_distinct_conv_sum_set)
  moreover have "set (map fst m) = {k. map_of m k \<noteq> None}" by (force simp: map_of_eq_None_iff)
  ultimately show ?thesis by (simp add: tbl_find_def)
qed

lemma tbl_size_card: "tbl_ok m \<Longrightarrow> tbl_size m = card {k. tbl_find m k \<noteq> None}"
proof -
  assume "tbl_ok m"
  then have "tbl_size m = card (set (map fst m))" by (simp only: tbl_size_def tbl_ok_def distinct_card length_map)
  also have "set (map fst m) = {k. tbl_find m k \<noteq> None}" by (force simp: tbl_find_def map_of_eq_None_iff)
  finally show ?thesis .
qed

lemma bij_below: "bij_betw unat {s :: u16. s < tot} {..<unat tot}"
proof (rule bij_betw_imageI)
  show "inj_on unat {s :: u16. s < tot}" by (simp add: inj_on_def word_unat_eq_iff)
  show "unat ` {s :: u16. s < tot} = {..<unat tot}"
  proof (auto simp: word_less_nat_alt)
    fix x assume x: "x < unat tot"
    then have "unat (word_of_nat x :: u16) = x" using unsigned_less [of tot, where ?'a = nat] by (simp add: unat_of_nat)
    with x show "x \<in> unat ` {s :: u16. unat s < unat tot}" by (intro image_eqI [of _ _ "word_of_nat x"]) simp_all
  qed
qed

lemma card_below: "card {s :: u16. s < tot} = unat tot"
  using bij_betw_same_card [OF bij_below [of tot]] by simp

lemma sum_below: "(\<Sum>s | s < tot. f (unat (s :: u16))) = (\<Sum>i < unat tot. f i)"
  by (rule sum.reindex_bij_betw [OF bij_below])

lemma length_concat_upt: "length (concat (map f [0..<n])) = (\<Sum>i < n. length (f i))"
  by (induction n) simp_all

text \<open>When as many fragments are present as the total says, none is missing.\<close>

lemma complete_all:
  fixes tot :: u16
  assumes "tbl_ok m" "\<And>s c. tbl_find m s = Some c \<Longrightarrow> s < tot" "tbl_size m = unat tot" "s < tot"
  shows "tbl_find m s \<noteq> None"
proof -
  have "{k. tbl_find m k \<noteq> None} \<subseteq> {s. s < tot}" using assms(2) by auto
  moreover have "card {k. tbl_find m k \<noteq> None} = card {s. s < tot}"
    using assms(3) unfolding tbl_size_card [OF assms(1)] card_below .
  ultimately have "{k. tbl_find m k \<noteq> None} = {s. s < tot}" by (simp add: card_subset_eq)
  with assms(4) show ?thesis by blast
qed

lemma stored_complete:
  fixes tot :: u16
  assumes "tbl_ok m" "\<And>s c. tbl_find m s = Some c \<Longrightarrow> s < tot" "tbl_size m = unat tot"
  shows "length (concat (map (\<lambda>s. the (tbl_find m (word_of_nat s))) [0..<unat tot])) = stored m"
proof -
  have "{k. tbl_find m k \<noteq> None} = {s. s < tot}" using complete_all [OF assms] assms(2) by auto
  then have "stored m = (\<Sum>s | s < tot. length (the (tbl_find m (word_of_nat (unat s)))))"
    unfolding stored_sum [OF assms(1)] by (simp add: word_unat_eq_iff [symmetric])
  then show ?thesis unfolding length_concat_upt by (simp only: sum_below [where f = "\<lambda>i. length (the (tbl_find m (word_of_nat i)))"])
qed

lemma reassemble_from_Inr:
  "(\<And>s. s \<in> set ss \<Longrightarrow> tbl_find m (word_of_nat s) = Some (f s)) \<Longrightarrow>
     reassemble_from m ss = Inr (concat (map f ss))"
  by (induction ss) simp_all

lemma reassemble_complete:
  assumes "tbl_ok (fragments buf)" "\<And>s c. tbl_find (fragments buf) s = Some c \<Longrightarrow> s < rb_total buf" "is_complete buf"
  shows "reassemble buf = Inr (concat (map (\<lambda>s. the (tbl_find (fragments buf) (word_of_nat s))) [0..<unat (rb_total buf)]))"
  unfolding reassemble_def
proof (rule reassemble_from_Inr)
  fix s assume "s \<in> set [0..<unat (rb_total buf)]"
  then have "(word_of_nat s :: u16) < rb_total buf"
    using unsigned_less [of "rb_total buf", where ?'a = nat] by (simp add: word_less_nat_alt unat_of_nat)
  with assms show "tbl_find (fragments buf) (word_of_nat s) = Some (the (tbl_find (fragments buf) (word_of_nat s)))"
    using complete_all [of "fragments buf" "rb_total buf"] by (auto simp: is_complete_def)
qed

lemma reasm_ok_prune [intro]: "reasm_ok tab \<Longrightarrow> reasm_ok (prune t tab)"
  unfolding reasm_ok_def prune_def
  by (metis tbl.ok_sweep tbl.size_sweep tbl.find_sweep_Some le_trans)

lemma reasm_ok_erase [intro]: "reasm_ok tab \<Longrightarrow> reasm_ok (tbl_erase sid tab)"
  unfolding reasm_ok_def
  by (metis tbl.ok_erase tbl.size_erase_le tbl.find_erase le_trans option.distinct(1))

lemma max_payload_u64: "n \<le> 2 * MAX_PAYLOAD_SIZE \<Longrightarrow> unat (word_of_nat n :: u64) = n"
  by (simp add: unat_of_nat MAX_PAYLOAD_SIZE_def)

text \<open>The entry a chunk is added to, and the effect on its byte count.\<close>

definition current_buf :: "u32 \<Rightarrow> u16 \<Rightarrow> u16 \<Rightarrow> int \<Rightarrow> reassembly \<Rightarrow> ReassemblyBuf" where
  "current_buf sid tot flags created tab = fst (try_emplace sid tot flags created tab)"

lemma try_emplace_table:
  assumes "reasm_ok tab" "admit hdr tab = (Inr u, tab')" "fh_total hdr \<noteq> 0"
    and "try_emplace (fh_stream_id hdr) (fh_total hdr) flags created tab = (buf, tab'')"
  shows "reasm_ok tab''" "buf_ok buf" "rb_total buf = fh_total hdr" "tbl_find tab'' (fh_stream_id hdr) = Some buf" "tab' = tab"
proof -
  have new: "buf_ok \<lparr>fragments = [], rb_total = fh_total hdr, rb_flags = flags, first_seen = created, buffered_bytes = 0\<rparr>"
    using assms(3) by (simp add: buf_ok_def stored_def unat_gt_0)
  show "reasm_ok tab''" "buf_ok buf" "rb_total buf = fh_total hdr" "tbl_find tab'' (fh_stream_id hdr) = Some buf" "tab' = tab"
    using assms new
    by (auto simp: reasm_ok_def admit_def try_emplace_def Let_def tbl.find_put tbl.ok_put tbl.size_put
        split: option.splits if_splits)
qed

lemma new_total_exact:
  assumes "buf_ok buf" "length chunk \<le> MAX_PAYLOAD_SIZE"
  shows "unat (buffered_bytes buf - word_of_nat (case tbl_find (fragments buf) s of Some c \<Rightarrow> length c | None \<Rightarrow> 0)
      + word_of_nat (length chunk)) = stored (tbl_put s chunk (fragments buf))"
proof -
  let ?r = "case tbl_find (fragments buf) s of Some c \<Rightarrow> length c | None \<Rightarrow> 0"
  from assms(1) have ok: "tbl_ok (fragments buf)" and b: "unat (buffered_bytes buf) = stored (fragments buf)"
    and m: "stored (fragments buf) \<le> MAX_PAYLOAD_SIZE" by (simp_all add: buf_ok_def)
  have eq: "stored (tbl_put s chunk (fragments buf)) + ?r = stored (fragments buf) + length chunk"
    using stored_put [OF ok, of s chunk] by (simp add: option.case_eq_if)
  have bw: "buffered_bytes buf = word_of_nat (stored (fragments buf))" unfolding b [symmetric] by simp
  have "(buffered_bytes buf - word_of_nat ?r + word_of_nat (length chunk) :: u64) =
      word_of_nat (stored (fragments buf) + length chunk) - word_of_nat ?r" by (simp add: bw)
  also have "\<dots> = word_of_nat (stored (tbl_put s chunk (fragments buf)))"
    unfolding eq [symmetric] by simp
  finally show ?thesis using eq m assms(2) by (simp add: max_payload_u64)
qed

lemma buffer_fragment_ok:
  assumes "reasm_ok tab" "admit hdr tab = (Inr u, tab')" "fh_total hdr \<noteq> 0" "fh_sequence hdr < fh_total hdr"
    and "length (fr_payload frame) \<le> MAX_PAYLOAD_SIZE" "buffer_fragment created frame hdr tab = (r, tab'')"
  shows "reasm_ok tab'' \<and> r \<noteq> Inl (StdOutOfRange e) \<and>
    (\<forall>f. r = Inr (Some f) \<longrightarrow> length (fr_payload f) \<le> MAX_PAYLOAD_SIZE)"
proof -
  let ?sid = "fh_stream_id hdr"
  let ?chunk = "drop FRAG_HEADER_SIZE (fr_payload frame)"
  obtain buf tab1 where e: "try_emplace ?sid (fh_total hdr) (fr_flags frame AND NOT (FLAG_FRAGMENTED OR FLAG_MAC_PRESENT)) created tab = (buf, tab1)"
    by fastforce
  note te = try_emplace_table [OF assms(1-3) e]
  let ?m = "tbl_put (fh_sequence hdr) ?chunk (fragments buf)"
  have nt: "unat (buffered_bytes buf - word_of_nat (case tbl_find (fragments buf) (fh_sequence hdr) of Some c \<Rightarrow> length c | None \<Rightarrow> 0)
      + word_of_nat (length ?chunk)) = stored ?m"
    using assms(5) by (intro new_total_exact te(2)) simp
  define buf2 where "buf2 = buf\<lparr>buffered_bytes := buffered_bytes buf - word_of_nat (case tbl_find (fragments buf) (fh_sequence hdr) of Some c \<Rightarrow> length c | None \<Rightarrow> 0)
      + word_of_nat (length ?chunk), fragments := ?m\<rparr>"
  have f2: "tbl_ok (fragments buf2)" "\<And>s c. tbl_find (fragments buf2) s = Some c \<Longrightarrow> s < rb_total buf2"
    using te(2,3) assms(4) by (auto simp: buf2_def buf_ok_def tbl.ok_put tbl.find_put split: if_splits)
  have size: "tbl_size ?m \<le> unat (fh_total hdr)"
    using te(2,3) tbl.size_put_le [of "fragments buf" "fh_sequence hdr" ?chunk] by (auto simp: buf_ok_def)
  have erased: "reasm_ok (tbl_erase ?sid (tbl_put ?sid buf2 tab1))"
    using te(1,4) by (auto simp: reasm_ok_def tbl.ok_put tbl.ok_erase tbl.find_put tbl.find_erase tbl.size_put tbl.size_erase split: if_splits)
  show ?thesis
  proof (cases "stored ?m > MAX_PAYLOAD_SIZE")
    case True
    with assms(6) e nt te(1) show ?thesis by (auto simp: buffer_fragment_def Let_def)
  next
    case False
    then have fin: "finish_stream ?sid buf2 (tbl_put ?sid buf2 tab1) = (r, tab'')"
      using assms(6) e nt by (simp add: buffer_fragment_def Let_def buf2_def)
    show ?thesis
    proof (cases "is_complete buf2")
      case True
      let ?out = "concat (map (\<lambda>s. the (tbl_find (fragments buf2) (word_of_nat s))) [0..<unat (rb_total buf2)])"
      note re = reassemble_complete [OF f2 True]
      have "length ?out = stored ?m"
        using stored_complete [OF f2] True by (simp add: is_complete_def buf2_def)
      with fin True re erased False show ?thesis by (auto simp: finish_stream_def)
    next
      case inc: False
      then have "buf_ok buf2" using f2 nt False size te(3) by (auto simp: buf_ok_def buf2_def is_complete_def)
      then have "reasm_ok (tbl_put ?sid buf2 tab1)"
        using te(1,4) by (auto simp: reasm_ok_def tbl.ok_put tbl.find_put tbl.size_put split: if_splits)
      with fin inc show ?thesis by (auto simp: finish_stream_def)
    qed
  qed
qed

lemma absorb_fragment_ok:
  assumes "reasm_ok tab" "length (fr_payload frame) \<le> MAX_PAYLOAD_SIZE" "absorb_fragment t created frame tab = (r, tab')"
  shows "reasm_ok tab' \<and> r \<noteq> Inl (StdOutOfRange e) \<and> (\<forall>f. r = Inr (Some f) \<longrightarrow> length (fr_payload f) \<le> MAX_PAYLOAD_SIZE)"
proof -
  have p: "reasm_ok (prune t tab)" using assms(1) by blast
  show ?thesis
  proof (cases "parse_frag_header (fr_payload frame)")
    case None
    with assms(3) p show ?thesis by (auto simp: absorb_fragment_def)
  next
    case (Some hdr)
    show ?thesis
    proof (cases "fh_total hdr = 0 \<or> fh_sequence hdr \<ge> fh_total hdr")
      case True
      with assms(3) p Some show ?thesis by (auto simp: absorb_fragment_def)
    next
      case False
      obtain a tab1 where a: "admit hdr (prune t tab) = (a, tab1)" by fastforce
      show ?thesis
      proof (cases a)
        case (Inl x)
        with a have "x \<noteq> StdOutOfRange e" "reasm_ok tab1"
          using p by (auto simp: admit_def split: option.splits if_splits)
        with assms(3) Some False a Inl show ?thesis by (auto simp: absorb_fragment_def)
      next
        case (Inr u)
        with a have "tab1 = prune t tab" by (auto simp: admit_def split: option.splits if_splits)
        with assms(3) Some False a Inr have "buffer_fragment created frame hdr (prune t tab) = (r, tab')"
          by (auto simp: absorb_fragment_def)
        with buffer_fragment_ok [OF p a [unfolded Inr] _ _ assms(2)] False show ?thesis
          by (metis linorder_not_le)
      qed
    qed
  qed
qed

section \<open>Reassembly is correct under reordering, repetition and interleaving\<close>

text \<open>A run of the receiver over a list of fragments with their clock readings.\<close>

fun feed :: "(int \<times> int \<times> FrameResult) list \<Rightarrow> reassembly \<Rightarrow> FrameResult option result list \<times> reassembly" where
  "feed [] tab = ([], tab)"
| "feed ((t, created, f) # xs) tab =
     (let (r, tab) = absorb_fragment t created f tab; (rs, tab) = feed xs tab in (r # rs, tab))"

text \<open>A fragment of a message, cut into pieces of \<open>c\<close> bytes.\<close>

definition piece :: "bytes \<Rightarrow> nat \<Rightarrow> nat \<Rightarrow> bytes" where
  "piece payload c s = take c (drop (s * c) payload)"

lemma concat_pieces: "concat (map (piece payload c) [0..<n]) = take (n * c) payload"
  by (induction n) (simp_all add: piece_def take_add [symmetric] add.commute)

definition genuine :: "bytes \<Rightarrow> nat \<Rightarrow> u16 \<Rightarrow> u32 \<Rightarrow> u16 \<Rightarrow> bytes \<Rightarrow> bool" where
  "genuine payload c tot sid s fp \<longleftrightarrow>
     s < tot \<and> (\<exists>fid. fp = pack_frag_header fid s tot sid @ piece payload c (unat s))"

lemma genuine_parse:
  "genuine payload c tot sid s fp \<Longrightarrow> \<exists>h. parse_frag_header fp = Some h \<and> fh_sequence h = s \<and>
     fh_total h = tot \<and> fh_stream_id h = sid \<and> drop FRAG_HEADER_SIZE fp = piece payload c (unat s)"
  by (auto simp: genuine_def parse_pack_frag FRAG_HEADER_SIZE_def)

text \<open>The receiver holds exactly the pieces \<open>S\<close> of the message on stream \<open>sid\<close>.\<close>

definition holds :: "bytes \<Rightarrow> nat \<Rightarrow> u16 \<Rightarrow> u32 \<Rightarrow> u16 \<Rightarrow> int \<Rightarrow> u16 set \<Rightarrow> reassembly \<Rightarrow> bool" where
  "holds payload c tot sid flags t0 S tab \<longleftrightarrow> (\<exists>buf. tbl_find tab sid = Some buf \<and> rb_total buf = tot \<and>
     rb_flags buf = flags \<and> first_seen buf = t0 \<and>
     (\<forall>s. tbl_find (fragments buf) s = (if s \<in> S then Some (piece payload c (unat s)) else None)))"

definition reassembled :: "bytes \<Rightarrow> u16 \<Rightarrow> FrameResult" where
  "reassembled payload flags = \<lparr>fr_payload = payload, fr_flags = flags, fr_has_mac = False,
     fr_mac = replicate MAC_TAG_LEN 0, fr_raw_header = replicate FRAME_HEADER_SIZE 0\<rparr>"

text \<open>Pieces with distinct numbers never exceed the message.\<close>

lemma stored_pieces:
  assumes "tbl_ok m" "\<And>s. tbl_find m s = (if s \<in> S then Some (piece payload c (unat s)) else None)"
    "S \<subseteq> {s. s < tot}"
  shows "stored m \<le> length payload"
proof -
  have "stored m = (\<Sum>s \<in> S. length (piece payload c (unat s)))"
    unfolding stored_sum [OF assms(1)] using assms(2) by (intro sum.cong) auto
  also have "\<dots> \<le> (\<Sum>s | s < tot. length (piece payload c (unat s)))"
    using assms(3) by (intro sum_mono2) auto
  also have "\<dots> = length (concat (map (piece payload c) [0..<unat tot]))"
    unfolding length_concat_upt by (rule sum_below)
  also have "\<dots> \<le> length payload" unfolding concat_pieces by simp
  finally show ?thesis .
qed

text \<open>Adding one genuine piece to a buffer that holds \<open>S\<close>.\<close>

text \<open>A buffer that holds every piece of a message reassembles to the message.\<close>

lemma reassemble_pieces:
  assumes "rb_total buf = tot" "\<And>x. x < tot \<Longrightarrow> tbl_find (fragments buf) x = Some (piece payload c (unat x))" "length payload \<le> unat tot * c"
  shows "reassemble buf = Inr payload"
proof -
  have "reassemble buf = Inr (concat (map (piece payload c) [0..<unat tot]))"
    unfolding reassemble_def assms(1)
  proof (rule reassemble_from_Inr)
    fix x assume "x \<in> set [0..<unat tot]"
    then have x: "unat (word_of_nat x :: u16) = x" "(word_of_nat x :: u16) < tot"
      using unsigned_less [of tot, where ?'a = nat] by (simp_all add: word_less_nat_alt unat_of_nat)
    with assms(2) [OF x(2)] show "tbl_find (fragments buf) (word_of_nat x) = Some (piece payload c x)" by simp
  qed
  then show ?thesis using assms(3) by (simp add: concat_pieces)
qed

lemma buffer_genuine:
  assumes ok: "reasm_ok tab" and a: "admit hdr tab = (Inr u, tab')" and hs: "fh_sequence hdr = s" "fh_total hdr = tot"
      "fh_stream_id hdr = sid" "s < tot" "drop FRAG_HEADER_SIZE (fr_payload frame) = piece payload c (unat s)"
    and e: "try_emplace sid tot (fr_flags frame AND NOT (FLAG_FRAGMENTED OR FLAG_MAC_PRESENT)) created tab = (buf, tab1)"
    and buf: "rb_flags buf = flags" "first_seen buf = t0"
      "\<And>x. tbl_find (fragments buf) x = (if x \<in> S then Some (piece payload c (unat x)) else None)"
    and S: "S \<subseteq> {x. x < tot}" and p: "length payload \<le> MAX_PAYLOAD_SIZE" "length payload \<le> unat tot * c"
    and r: "buffer_fragment created frame hdr tab = (r, tab'')"
  shows "if insert s S = {x. x < tot} then r = Inr (Some (reassembled payload flags)) \<and> tbl_find tab'' sid = None
    else r = Inr None \<and> holds payload c tot sid flags t0 (insert s S) tab''"
proof -
  let ?chunk = "piece payload c (unat s)"
  let ?m = "tbl_put s ?chunk (fragments buf)"
  have tot: "fh_total hdr \<noteq> 0" using hs by auto
  note te = try_emplace_table [OF ok a tot e [folded hs(2,3)]]
  have plen: "length ?chunk \<le> MAX_PAYLOAD_SIZE" using p by (simp add: piece_def)
  define buf2 where "buf2 = buf\<lparr>buffered_bytes := buffered_bytes buf - word_of_nat (case tbl_find (fragments buf) s of Some c \<Rightarrow> length c | None \<Rightarrow> 0)
      + word_of_nat (length ?chunk), fragments := ?m\<rparr>"
  have m: "tbl_ok ?m" "\<And>x. tbl_find ?m x = (if x \<in> insert s S then Some (piece payload c (unat x)) else None)"
    using te(2) buf(3) by (auto simp: buf_ok_def tbl.ok_put tbl.find_put)
  have sub: "insert s S \<subseteq> {x. x < tot}" using S hs by auto
  have small: "stored ?m \<le> MAX_PAYLOAD_SIZE" using stored_pieces [OF m sub] p by simp
  have fin: "finish_stream sid buf2 (tbl_put sid buf2 tab1) = (r, tab'')"
    using r e hs new_total_exact [OF te(2) plen, of s] small by (simp add: buffer_fragment_def Let_def buf2_def)
  have "{k. tbl_find ?m k \<noteq> None} = insert s S" using m(2) by (auto split: if_splits)
  then have size: "tbl_size ?m = card (insert s S)" using tbl_size_card [OF m(1)] by simp
  have b2: "fragments buf2 = ?m" "rb_total buf2 = tot" "rb_flags buf2 = flags" "first_seen buf2 = t0"
    using te(3) hs(2) buf by (simp_all add: buf2_def)
  have ok1: "tbl_ok (tbl_put sid buf2 tab1)" using te(1) by (simp add: reasm_ok_def tbl.ok_put)
  show ?thesis
  proof (cases "insert s S = {x. x < tot}")
    case True
    then have comp: "is_complete buf2" using size b2 card_below [of tot] by (simp add: is_complete_def)
    have "reassemble buf2 = Inr payload"
    proof (rule reassemble_pieces [OF b2(2) _ p(2)])
      fix x assume "x < tot"
      with True have "x \<in> insert s S" by blast
      with m(2) [of x] show "tbl_find (fragments buf2) x = Some (piece payload c (unat x))" unfolding b2(1) by simp
    qed
    with fin comp b2(3) have "r = Inr (Some (reassembled payload flags))" "tab'' = tbl_erase sid (tbl_put sid buf2 tab1)"
      by (simp_all add: finish_stream_def reassembled_def)
    with ok1 show ?thesis unfolding if_P [OF True] by (simp add: tbl.find_erase)
  next
    case False
    then have "card (insert s S) \<noteq> unat tot"
      using card_subset_eq [OF _ sub] unfolding card_below by (metis finite)
    then have "\<not> is_complete buf2" using size b2 by (simp add: is_complete_def)
    with fin have "r = Inr None" "tab'' = tbl_put sid buf2 tab1" by (simp_all add: finish_stream_def)
    with b2 m(2) show ?thesis unfolding if_not_P [OF False] holds_def by (simp add: tbl.find_put)
  qed
qed

end
