(* ===== verification/Vyn_Reassembly_Spec.thy ===== *)
theory Vyn_Reassembly_Spec
  imports Vyn_Reassembly
begin

text \<open>
  What fragmentation promises: the pieces that \<open>send_fragmented\<close> cuts a message into are put
  together to the same message by \<open>absorb_fragment\<close>, in whatever order they arrive, with
  repetitions, and with any traffic on other streams in between.
\<close>

section \<open>One step on the stream and one step beside it\<close>

definition of_stream :: "u32 \<Rightarrow> FrameResult \<Rightarrow> bool" where
  "of_stream sid f \<longleftrightarrow> (case parse_frag_header (fr_payload f) of None \<Rightarrow> False | Some h \<Rightarrow> fh_stream_id h = sid)"

lemma holds_prune:
  "reasm_ok tab \<Longrightarrow> holds payload c tot sid flags t0 S tab \<Longrightarrow> t - t0 < REASSEMBLY_TIMEOUT \<Longrightarrow>
     holds payload c tot sid flags t0 S (prune t tab)"
  by (auto simp: holds_def prune_def reasm_ok_def tbl.find_sweep)

text \<open>The receiver is ready for the next piece: the stream is in progress, or there is room for a new one.\<close>

definition ready_for :: "bytes \<Rightarrow> nat \<Rightarrow> u16 \<Rightarrow> u32 \<Rightarrow> u16 \<Rightarrow> int \<Rightarrow> u16 set \<Rightarrow> int \<Rightarrow> FrameResult \<Rightarrow> reassembly \<Rightarrow> bool" where
  "ready_for payload c tot sid flags t0 S created f tab \<longleftrightarrow>
     holds payload c tot sid flags t0 S tab \<or>
     (S = {} \<and> tbl_find tab sid = None \<and> tbl_size tab < MAX_REASSEMBLY_STREAMS \<and> created = t0 \<and>
      flags = fr_flags f AND NOT (FLAG_FRAGMENTED OR FLAG_MAC_PRESENT))"

lemma absorb_own:
  assumes ok: "reasm_ok tab" and rf: "ready_for payload c tot sid flags t0 S created f tab"
    and t: "t - t0 < REASSEMBLY_TIMEOUT" and g: "genuine payload c tot sid s (fr_payload f)"
    and S: "S \<subseteq> {x. x < tot}" and p: "length payload \<le> MAX_PAYLOAD_SIZE" "length payload \<le> unat tot * c"
    and r: "absorb_fragment t created f tab = (r, tab'')"
  shows "if insert s S = {x. x < tot} then r = Inr (Some (reassembled payload flags)) \<and> tbl_find tab'' sid = None
    else r = Inr None \<and> holds payload c tot sid flags t0 (insert s S) tab''"
proof -
  let ?tab = "prune t tab"
  let ?fl = "fr_flags f AND NOT (FLAG_FRAGMENTED OR FLAG_MAC_PRESENT)"
  have ok': "reasm_ok ?tab" using ok by blast
  have rf': "ready_for payload c tot sid flags t0 S created f ?tab"
    using rf ok t holds_prune [OF ok] by (auto simp: ready_for_def reasm_ok_def prune_def tbl.find_sweep intro: le_less_trans [OF tbl.size_sweep])
  obtain h where h: "parse_frag_header (fr_payload f) = Some h" "fh_sequence h = s" "fh_total h = tot"
    "fh_stream_id h = sid" "drop FRAG_HEADER_SIZE (fr_payload f) = piece payload c (unat s)"
    using genuine_parse [OF g] by blast
  have st: "s < tot" using g by (simp add: genuine_def)
  have a: "admit h ?tab = (Inr (), ?tab)"
    using rf' h by (auto simp: admit_def ready_for_def holds_def)
  obtain buf tab1 where e: "try_emplace sid tot ?fl created ?tab = (buf, tab1)" by fastforce
  have buf: "rb_flags buf = flags" "first_seen buf = t0"
      "tbl_find (fragments buf) x = (if x \<in> S then Some (piece payload c (unat x)) else None)" for x
    using rf' e by (auto simp: ready_for_def holds_def try_emplace_def Let_def)
  have "buffer_fragment created f h ?tab = (r, tab'')"
    using r h(1-4) st a word_neq_0_conv [of tot] by (auto simp: absorb_fragment_def Let_def linorder_not_less [symmetric])
  from buffer_genuine [OF ok' a h(2-4) st h(5) e buf S p this] show ?thesis .
qed

lemma admit_other:
  "reasm_ok tab \<Longrightarrow> fh_stream_id h \<noteq> sid \<Longrightarrow> admit h tab = (r, tab') \<Longrightarrow> tbl_find tab' sid = tbl_find tab sid"
  by (auto simp: admit_def reasm_ok_def tbl.find_erase split: option.splits if_splits)

lemma buffer_other:
  assumes ok: "tbl_ok tab" and h: "fh_stream_id h \<noteq> sid" and r: "buffer_fragment created f h tab = (r, tab')"
  shows "tbl_find tab' sid = tbl_find tab sid"
proof -
  obtain buf tab1 where e: "try_emplace (fh_stream_id h) (fh_total h) (fr_flags f AND NOT (FLAG_FRAGMENTED OR FLAG_MAC_PRESENT)) created tab = (buf, tab1)"
    by fastforce
  then have 1: "tbl_ok tab1" "tbl_find tab1 sid = tbl_find tab sid"
    using ok h by (auto simp: try_emplace_def Let_def tbl.find_put tbl.ok_put split: option.splits)
  have fin: "tbl_find tab2 sid = tbl_find tab1 sid"
    if "finish_stream (fh_stream_id h) b (tbl_put (fh_stream_id h) b tab1) = (r, tab2)" for b tab2
    using that h 1(1) tbl.ok_put [OF 1(1)]
    by (auto simp: finish_stream_def tbl.find_put tbl.find_erase split: if_splits sum.splits)
  show ?thesis
    using r [unfolded buffer_fragment_def Let_def e prod.case] 1 h fin
    by (auto simp: tbl.find_erase split: if_splits)
qed

lemma absorb_other:
  assumes ok: "reasm_ok tab" and o: "\<not> of_stream sid f" and r: "absorb_fragment t created f tab = (r, tab')"
  shows "tbl_find tab' sid = tbl_find (prune t tab) sid"
proof (cases "parse_frag_header (fr_payload f)")
  case None
  with r show ?thesis by (auto simp: absorb_fragment_def)
next
  case (Some h)
  have ok': "reasm_ok (prune t tab)" using ok by blast
  obtain a tab1 where a: "admit h (prune t tab) = (a, tab1)" by fastforce
  have "fh_stream_id h \<noteq> sid" using o Some by (simp add: of_stream_def)
  note o1 = admit_other [OF ok' this a] and o2 = buffer_other [OF _ this]
  have "tbl_ok tab1" using ok' a by (auto simp: admit_def reasm_ok_def tbl.ok_erase split: option.splits if_splits)
  with r Some a o1 o2 show ?thesis by (auto simp: absorb_fragment_def Let_def split: if_splits sum.splits)
qed

lemma holds_other:
  assumes "reasm_ok tab" "holds payload c tot sid flags t0 S tab" "\<not> of_stream sid f"
    "t - t0 < REASSEMBLY_TIMEOUT" "absorb_fragment t created f tab = (r, tab')"
  shows "holds payload c tot sid flags t0 S tab'"
  using absorb_other [OF assms(1,3,5)] holds_prune [OF assms(1,2,4)] by (simp add: holds_def)

section \<open>Runs\<close>

text \<open>The sequence numbers that a run carries on a stream.\<close>

definition seq_of :: "u32 \<Rightarrow> FrameResult \<Rightarrow> u16 set" where
  "seq_of sid f = (case parse_frag_header (fr_payload f) of
      Some h \<Rightarrow> if fh_stream_id h = sid then {fh_sequence h} else {} | None \<Rightarrow> {})"

definition seqs :: "u32 \<Rightarrow> (int \<times> int \<times> FrameResult) list \<Rightarrow> u16 set" where
  "seqs sid xs = (\<Union>x \<in> set xs. seq_of sid (snd (snd x)))"

lemma seqs_simps [simp]:
  "seqs sid [] = {}"
  "seqs sid ((t, created, f) # xs) = seq_of sid f \<union> seqs sid xs"
  "seqs sid (xs @ ys) = seqs sid xs \<union> seqs sid ys"
  by (auto simp: seqs_def)

lemma seq_of_other: "\<not> of_stream sid f \<Longrightarrow> seq_of sid f = {}"
  by (auto simp: seq_of_def of_stream_def split: option.splits)

lemma seq_of_genuine: "genuine payload c tot sid s (fr_payload f) \<Longrightarrow> seq_of sid f = {s}"
  using genuine_parse [of payload c tot sid s "fr_payload f"] by (auto simp: seq_of_def)

text \<open>
  Traffic around a message: every frame respects the frame size limit and comes before the stream
  times out, and the frames on stream \<open>sid\<close> are pieces of the message. Other streams are
  unconstrained.
\<close>

definition traffic :: "bytes \<Rightarrow> nat \<Rightarrow> u16 \<Rightarrow> u32 \<Rightarrow> int \<Rightarrow> (int \<times> int \<times> FrameResult) list \<Rightarrow> bool" where
  "traffic payload c tot sid t0 xs = list_all (\<lambda>(t, created, f). t - t0 < REASSEMBLY_TIMEOUT \<and>
     length (fr_payload f) \<le> MAX_PAYLOAD_SIZE \<and> (of_stream sid f \<longrightarrow> (\<exists>s. genuine payload c tot sid s (fr_payload f)))) xs"

lemma traffic_simps [simp]:
  "traffic payload c tot sid t0 []"
  "traffic payload c tot sid t0 ((t, created, f) # xs) \<longleftrightarrow> t - t0 < REASSEMBLY_TIMEOUT \<and>
     length (fr_payload f) \<le> MAX_PAYLOAD_SIZE \<and>
     (of_stream sid f \<longrightarrow> (\<exists>s. genuine payload c tot sid s (fr_payload f))) \<and> traffic payload c tot sid t0 xs"
  "traffic payload c tot sid t0 (xs @ ys) \<longleftrightarrow> traffic payload c tot sid t0 xs \<and> traffic payload c tot sid t0 ys"
  by (simp_all add: traffic_def)

lemma traffic_seqs: "traffic payload c tot sid t0 xs \<Longrightarrow> seqs sid xs \<subseteq> {x. x < tot}"
proof (induction xs)
  case (Cons x xs)
  obtain t created f where x: "x = (t, created, f)" by (cases x)
  have "seq_of sid f \<subseteq> {x. x < tot}"
  proof (cases "of_stream sid f")
    case True
    with Cons.prems x obtain s where "genuine payload c tot sid s (fr_payload f)" by auto
    then show ?thesis using seq_of_genuine by (fastforce simp: genuine_def)
  qed (simp add: seq_of_other)
  with Cons x show ?case by simp
qed simp

lemma feed_append: "feed (xs @ ys) tab = (let (rs, tab) = feed xs tab; (rs', tab) = feed ys tab in (rs @ rs', tab))"
  by (induction xs tab rule: feed.induct) (simp_all add: Let_def split: prod.split)

lemma feed_length: "length (fst (feed xs tab)) = length xs"
proof (induction xs arbitrary: tab)
  case (Cons x xs)
  then show ?case by (cases x) (simp add: Let_def case_prod_beta)
qed simp

text \<open>The results on the stream itself: \<open>None\<close> until the set is complete.\<close>

fun own_results :: "u32 \<Rightarrow> (int \<times> int \<times> FrameResult) list \<Rightarrow> 'r list \<Rightarrow> 'r list" where
  "own_results sid ((t, created, f) # xs) (r # rs) =
     (if of_stream sid f then r # own_results sid xs rs else own_results sid xs rs)"
| "own_results sid _ _ = []"

lemma genuine_of_stream: "genuine payload c tot sid s (fr_payload f) \<Longrightarrow> of_stream sid f"
  using genuine_parse by (fastforce simp: of_stream_def)

lemma feed_holds:
  assumes "reasm_ok tab" "holds payload c tot sid flags t0 S tab" "traffic payload c tot sid t0 xs"
    "S \<subseteq> {x. x < tot}" "length payload \<le> MAX_PAYLOAD_SIZE" "length payload \<le> unat tot * c"
    "S \<union> seqs sid xs \<noteq> {x. x < tot}" "feed xs tab = (rs, tab')"
  shows "reasm_ok tab' \<and> holds payload c tot sid flags t0 (S \<union> seqs sid xs) tab' \<and>
    S \<union> seqs sid xs \<subseteq> {x. x < tot} \<and> set (own_results sid xs rs) \<subseteq> {Inr None}"
  using assms
proof (induction xs arbitrary: tab S rs)
  case Nil
  then show ?case by simp
next
  case (Cons x xs)
  obtain t created f where x: "x = (t, created, f)" by (cases x)
  obtain r tab1 where r: "absorb_fragment t created f tab = (r, tab1)" by fastforce
  obtain rs1 where rs: "feed xs tab1 = (rs1, tab')" "rs = r # rs1"
    using Cons.prems(8) r x by (auto simp: Let_def split: prod.splits)
  have ok1: "reasm_ok tab1" using absorb_fragment_ok [OF Cons.prems(1) _ r] Cons.prems(3) x by auto
  show ?case
  proof (cases "of_stream sid f")
    case True
    with Cons.prems(3) x obtain s where g: "genuine payload c tot sid s (fr_payload f)" by auto
    then have sq: "seqs sid (x # xs) = insert s (seqs sid xs)" using seq_of_genuine [OF g] x by simp
    have sub: "insert s S \<subseteq> {x. x < tot}" using Cons.prems(4) g by (auto simp: genuine_def)
    have "seqs sid xs \<subseteq> {x. x < tot}" using Cons.prems(3) x traffic_seqs [of payload c tot sid t0 xs] by simp
    with Cons.prems(7) sq sub have ne: "insert s S \<noteq> {x. x < tot}" by auto
    have "ready_for payload c tot sid flags t0 S created f tab" using Cons.prems(2) by (simp add: ready_for_def)
    from absorb_own [OF Cons.prems(1) this _ g Cons.prems(4-6) r] ne Cons.prems(3) x
    have h: "r = Inr None" "holds payload c tot sid flags t0 (insert s S) tab1" by auto
    have "traffic payload c tot sid t0 xs" "insert s S \<union> seqs sid xs \<noteq> {x. x < tot}"
      using Cons.prems(3,7) x sq by simp_all
    from Cons.IH [OF ok1 h(2) this(1) sub Cons.prems(5,6) this(2) rs(1)] sq x rs(2) h(1) True show ?thesis by simp
  next
    case False
    with x have sq: "seqs sid (x # xs) = seqs sid xs" by (simp add: seq_of_other)
    from holds_other [OF Cons.prems(1,2) False _ r] Cons.prems(3) x have "holds payload c tot sid flags t0 S tab1" by auto
    moreover have "traffic payload c tot sid t0 xs" "S \<union> seqs sid xs \<noteq> {x. x < tot}"
      using Cons.prems(3,7) x sq by simp_all
    ultimately show ?thesis
      using Cons.IH [OF ok1 _ _ Cons.prems(4-6) _ rs(1)] sq x rs(2) False by simp
  qed
qed

lemma reassembly_run:
  assumes ok: "reasm_ok tab" and free: "tbl_find tab sid = None" "tbl_size tab < MAX_REASSEMBLY_STREAMS"
    and xs: "xs = (t1, t0, f1) # ys" "of_stream sid f1"
    and tr: "traffic payload c tot sid t0 xs"
    and flags: "flags = fr_flags f1 AND NOT (FLAG_FRAGMENTED OR FLAG_MAC_PRESENT)"
    and p: "length payload \<le> MAX_PAYLOAD_SIZE" "length payload \<le> unat tot * c"
    and all: "seqs sid xs = {x. x < tot}" "seqs sid (butlast xs) \<noteq> {x. x < tot}"
    and r: "feed xs tab = (rs, tab')"
  shows "last rs = Inr (Some (reassembled payload flags)) \<and> tbl_find tab' sid = None \<and>
    set (own_results sid (butlast xs) (butlast rs)) \<subseteq> {Inr None} \<and> length rs = length xs"
proof -
  from tr xs obtain s1 where g1: "genuine payload c tot sid s1 (fr_payload f1)" by auto
  have rf: "ready_for payload c tot sid flags t0 {} t0 f1 tab" using free flags by (simp add: ready_for_def)
  obtain r1 tab1 where r1: "absorb_fragment t1 t0 f1 tab = (r1, tab1)" by fastforce
  have t1: "t1 - t0 < REASSEMBLY_TIMEOUT" "length (fr_payload f1) \<le> MAX_PAYLOAD_SIZE" using tr xs by simp_all
  note own1 = absorb_own [OF ok rf t1(1) g1 empty_subsetI p r1]
  have ok1: "reasm_ok tab1" using absorb_fragment_ok [OF ok t1(2) r1] by blast
  have lt1: "s1 < tot" using g1 by (simp add: genuine_def)
  show ?thesis
  proof (cases ys rule: rev_cases)
    case Nil
    then have "{s1} = {x. x < tot}" using all(1) xs seq_of_genuine [OF g1] by simp
    with own1 have "r1 = Inr (Some (reassembled payload flags))" "tbl_find tab1 sid = None" by simp_all
    moreover have "rs = [r1]" "tab' = tab1" using r r1 Nil xs by simp_all
    ultimately show ?thesis using Nil xs by simp
  next
    case (snoc zs z)
    obtain tz cz fz where z: "z = (tz, cz, fz)" by (cases z)
    have bl: "butlast xs = (t1, t0, f1) # zs" using snoc xs by simp
    have sb: "seqs sid (butlast xs) = {s1} \<union> seqs sid zs" using bl seq_of_genuine [OF g1] by simp
    have sz: "seqs sid zs \<subseteq> {x. x < tot}" using tr xs snoc traffic_seqs [of payload c tot sid t0 zs] by simp
    have ne2: "{s1} \<union> seqs sid zs \<noteq> {x. x < tot}" using all(2) sb by simp
    have ne: "{s1} \<noteq> {x. x < tot}" using ne2 sz by (metis Un_absorb2)
    from own1 ne have h1: "r1 = Inr None" "holds payload c tot sid flags t0 {s1} tab1" by simp_all
    obtain rs2 tab2 where f2: "feed zs tab1 = (rs2, tab2)" by fastforce
    have trz: "traffic payload c tot sid t0 zs" using tr xs snoc by simp
    have sub1: "{s1} \<subseteq> {x. x < tot}" using lt1 by simp
    have h2: "reasm_ok tab2" "holds payload c tot sid flags t0 ({s1} \<union> seqs sid zs) tab2"
      "{s1} \<union> seqs sid zs \<subseteq> {x. x < tot}" "set (own_results sid zs rs2) \<subseteq> {Inr None}"
      using feed_holds [OF ok1 h1(2) trz sub1 p ne2 f2] by simp_all
    obtain r3 where f3: "absorb_fragment tz cz fz tab2 = (r3, tab')" and rs: "rs = r1 # rs2 @ [r3]"
      using r xs snoc z r1 f2 by (auto simp: feed_append Let_def split: prod.splits)
    have "of_stream sid fz"
    proof (rule ccontr)
      assume "\<not> of_stream sid fz"
      then have "seqs sid xs = seqs sid (butlast xs)" using xs snoc z bl by (simp add: seq_of_other)
      with all show False by simp
    qed
    then obtain s where g: "genuine payload c tot sid s (fr_payload fz)" using tr xs snoc z by auto
    have "seqs sid xs = insert s ({s1} \<union> seqs sid zs)"
      using xs snoc z seq_of_genuine [OF g] seq_of_genuine [OF g1] by auto
    then have fin: "insert s ({s1} \<union> seqs sid zs) = {x. x < tot}" using all(1) by simp
    have tz: "tz - t0 < REASSEMBLY_TIMEOUT" using tr xs snoc z by simp
    have "ready_for payload c tot sid flags t0 ({s1} \<union> seqs sid zs) cz fz tab2" using h2 by (simp add: ready_for_def)
    from absorb_own [OF h2(1) this tz g h2(3) p f3] fin
    have "r3 = Inr (Some (reassembled payload flags))" "tbl_find tab' sid = None" by simp_all
    moreover have "length rs2 = length zs" using f2 feed_length [of zs tab1] by simp
    ultimately show ?thesis using rs bl xs snoc h1(1) h2(4) by simp
  qed
qed

section \<open>The sender's split\<close>

lemma ceil_div:
  fixes l c :: nat
  assumes "0 < c" "0 < l"
  shows "l \<le> (l + c - 1) div c * c" "s < (l + c - 1) div c \<Longrightarrow> s * c \<le> l"
proof -
  have "(l + c - 1) div c * c + (l + c - 1) mod c = l + c - 1" by simp
  moreover have "(l + c - 1) mod c \<le> c - 1" using assms(1) mod_less_divisor [of c "l + c - 1"] by linarith
  ultimately show "l \<le> (l + c - 1) div c * c" using assms by linarith
  assume "s < (l + c - 1) div c"
  then have "Suc s * c \<le> l + c - 1" using assms(1) less_eq_div_iff_mult_less_eq [of c "Suc s" "l + c - 1"] by simp
  then show "s * c \<le> l" using assms by simp
qed

lemma fragment_count_cases:
  assumes "fragment_count payload cs = Inr n" "n \<noteq> 0"
  shows "length payload \<le> MAX_PAYLOAD_SIZE" "length payload \<le> unat n * unat cs" "unat n \<le> 65535" "cs \<noteq> 0"
    "s < unat n \<Longrightarrow> s * unat cs \<le> length payload"
proof -
  let ?c = "unat cs" let ?l = "length payload"
  from assms(1) show p: "?l \<le> MAX_PAYLOAD_SIZE" and cs: "cs \<noteq> 0"
    by (auto simp: fragment_count_def Let_def split: if_splits)
  from assms(1) have "\<not> 0xFFFF < n"
    by (auto simp: fragment_count_def Let_def simp del: not_less split: if_splits)
  then show "unat n \<le> 65535" by (simp add: word_less_nat_alt)
  from cs have c0: "0 < ?c" by (simp add: unat_gt_0)
  have guard: "unat (cs + 10) \<le> 1048576"
    using assms(1) by (auto simp: fragment_count_def Let_def FRAG_HEADER_SIZE_def word_less_nat_alt MAX_PAYLOAD_SIZE_def not_less split: if_splits)
  have n: "n = (if payload = [] then 1 else (word_of_nat ?l + cs - 1) div cs)"
    using assms(1) by (auto simp: fragment_count_def Let_def split: if_splits)
  have n0: "0 < unat n" using assms(2) by (simp add: unat_gt_0)
  consider "payload = []" | "payload \<noteq> []" "?c + 10 < 2 ^ 64" | "payload \<noteq> []" "2 ^ 64 \<le> ?c + 10" by linarith
  then have "?l \<le> unat n * ?c \<and> (s < unat n \<longrightarrow> s * ?c \<le> ?l)"
  proof cases
    case 1
    with n show ?thesis by simp
  next
    case 2
    then have "unat (cs + 10) = ?c + 10" by (simp add: unat_word_ariths)
    with guard have c: "?c \<le> 1048566" by simp
    have l: "0 < ?l" using 2 by simp
    have "(word_of_nat (?l + ?c - 1) :: u64) = word_of_nat (?l + ?c) - word_of_nat 1"
      using l by (intro of_nat_diff) linarith
    then have "(word_of_nat ?l + cs - 1 :: u64) = word_of_nat (?l + ?c - 1)" by simp
    then have "unat (word_of_nat ?l + cs - 1) = ?l + ?c - 1"
      using c p by (simp add: unat_of_nat MAX_PAYLOAD_SIZE_def)
    then have "unat n = (?l + ?c - 1) div ?c" using n 2 by (simp add: unat_div)
    with ceil_div [OF c0 l] show ?thesis by simp
  next
    case 3
    have "unat (word_of_nat ?l + cs - 1) < 2 * ?c"
      using unsigned_less [of "word_of_nat ?l + cs - 1", where ?'a = nat] 3 by simp
    then have "unat n < 2" using n 3 c0 by (simp add: unat_div div_less_iff_less_mult)
    with n0 have "unat n = 1" by simp
    with p 3 show ?thesis by (simp add: MAX_PAYLOAD_SIZE_def)
  qed
  then show "?l \<le> unat n * ?c" "s < unat n \<Longrightarrow> s * ?c \<le> ?l" by auto
qed

lemma fragment_payload_genuine:
  assumes n: "fragment_count payload cs = Inr n" "n \<noteq> 0" and s: "s < unat n"
  shows "genuine payload (unat cs) (ucast n) sid (word_of_nat s) (fragment_payload payload cs n sid (word_of_nat s))"
proof -
  note fc = fragment_count_cases [OF n]
  let ?c = "unat cs" let ?l = "length payload"
  have sw: "unat (word_of_nat s :: u64) = s" "unat (word_of_nat s :: u16) = s"
    using s fc(3) by (simp_all add: unat_of_nat)
  have sc: "s * ?c \<le> ?l" "?l < 2 ^ 64" using fc(5) [OF s] fc(1) by (simp_all add: MAX_PAYLOAD_SIZE_def)
  have start: "unat (word_of_nat s * cs) = s * ?c"
    using sc sw by (simp add: unat_word_ariths)
  have "(word_of_nat ?l - word_of_nat s * cs :: u64) = word_of_nat (?l - s * ?c)"
    using sc(1) by (simp add: of_nat_diff)
  then have "unat (word_of_nat ?l - word_of_nat s * cs :: u64) = ?l - s * ?c"
    using sc(2) by (simp add: unat_of_nat)
  then have "unat (min cs (word_of_nat ?l - word_of_nat s * cs)) = min ?c (?l - s * ?c)"
    by (simp add: min_def word_le_nat_alt)
  moreover have u16: "(ucast (word_of_nat s :: u64) :: u16) = word_of_nat s"
    using s fc(3) by (simp add: unsigned_of_nat take_bit_nat_eq_self)
  ultimately have "fragment_payload payload cs n sid (word_of_nat s) =
      pack_frag_header (ucast (sid AND 0xFFFF)) (word_of_nat s) (ucast n) sid @ piece payload ?c s"
    unfolding fragment_payload_def Let_def start piece_def by (simp add: min_def u16)
  moreover have "(word_of_nat s :: u16) < ucast n"
  proof -
    have "unat (ucast n :: u16) = take_bit 16 (unat n)"
      by (simp add: unsigned_ucast_eq unsigned_take_bit_eq)
    then have "unat (ucast n :: u16) = unat n" using fc(3) by (simp add: take_bit_nat_eq_self)
    then show ?thesis using s sw by (simp add: word_less_nat_alt)
  qed
  ultimately show ?thesis unfolding genuine_def sw by blast
qed

section \<open>Properties\<close>

text \<open>
  C7: a message cut by \<open>send_fragmented\<close> is reassembled exactly. Take any run of
  \<open>absorb_fragment\<close> in which the frames of stream \<open>sid\<close> are fragments of the message, in any
  order and with repetitions, between arbitrary frames of other streams; it starts with a fragment
  of this stream while a slot is free, and stays within the stream's 30 seconds. When the last
  missing fragment arrives, the result is the original payload with the sender's flags, less the
  fragment and MAC flags; all earlier fragments give no frame; and the stream is forgotten.
\<close>

theorem fragments_reassemble:
  assumes "fragment_count payload cs = Inr n" and "n \<noteq> 0"
    and "reasm_ok tab" and "tbl_find tab sid = None" and "tbl_size tab < MAX_REASSEMBLY_STREAMS"
    and "xs = (t1, t0, f1) # ys" and "of_stream sid f1"
    and "\<forall>(t, created, f) \<in> set xs. t - t0 < REASSEMBLY_TIMEOUT \<and> length (fr_payload f) \<le> MAX_PAYLOAD_SIZE \<and>
      (of_stream sid f \<longrightarrow> (\<exists>s < unat n. fr_payload f = fragment_payload payload cs n sid (word_of_nat s)))"
    and "seqs sid xs = {x. x < ucast n}" and "seqs sid (butlast xs) \<noteq> {x. x < ucast n}"
    and "feed xs tab = (rs, tab')"
  shows "last rs = Inr (Some (reassembled payload (fr_flags f1 AND NOT (FLAG_FRAGMENTED OR FLAG_MAC_PRESENT)))) \<and>
    set (own_results sid (butlast xs) (butlast rs)) \<subseteq> {Inr None} \<and> tbl_find tab' sid = None"
proof -
  note fc = fragment_count_cases [OF assms(1,2)]
  have "traffic payload (unat cs) (ucast n) sid t0 xs"
    unfolding traffic_def list_all_iff using assms(8) fragment_payload_genuine [OF assms(1,2)] by fastforce
  moreover have "unat (ucast n :: u16) = unat n"
    using fc(3) by (simp add: unsigned_ucast_eq unsigned_take_bit_eq take_bit_nat_eq_self)
  ultimately show ?thesis
    using reassembly_run [OF assms(3-7) _ refl fc(1) _ assms(9,10,11), of "unat cs"] fc(2) by auto
qed

text \<open>Witness: three bytes in two fragments, the second one first and twice, another stream in between.\<close>

theorem fragments_reassemble_witness:
  "let fr = (\<lambda>p. \<lparr>fr_payload = p, fr_flags = FLAG_FRAGMENTED OR FLAG_RAW_BINARY, fr_has_mac = False, fr_mac = [], fr_raw_header = []\<rparr>);
       xs = [(0, 0, fr (fragment_payload [7, 8, 9] 2 2 5 1)), (1, 1, fr (fragment_payload [4, 4] 1 2 6 0)),
             (2, 2, fr (fragment_payload [7, 8, 9] 2 2 5 1)), (3, 3, fr (fragment_payload [7, 8, 9] 2 2 5 0))]
   in last (fst (feed xs [])) = Inr (Some (reassembled [7, 8, 9] FLAG_RAW_BINARY))"
proof -
  define fr where "fr = (\<lambda>p. \<lparr>fr_payload = p, fr_flags = FLAG_FRAGMENTED OR FLAG_RAW_BINARY, fr_has_mac = False, fr_mac = [], fr_raw_header = []\<rparr>)"
  define xs where "xs = [(0 :: int, 0 :: int, fr (fragment_payload [7, 8, 9] 2 2 5 1)), (1, 1, fr (fragment_payload [4, 4] 1 2 6 0)),
             (2, 2, fr (fragment_payload [7, 8, 9] 2 2 5 1)), (3, 3, fr (fragment_payload [7, 8, 9] 2 2 5 0))]"
  have n: "fragment_count [7, 8, 9] 2 = Inr 2"
    by (simp add: fragment_count_def MAX_PAYLOAD_SIZE_def FRAG_HEADER_SIZE_def Let_def)
  have p: "parse_frag_header (fragment_payload pl cs m sid s) =
      Some \<lparr>fh_fragment_id = ucast (sid AND 0xFFFF), fh_sequence = ucast s, fh_total = ucast m, fh_stream_id = sid\<rparr>" for pl cs m sid s
    by (simp add: fragment_payload_def Let_def parse_pack_frag)
  have two: "{x :: u16. x < 2} = {0, 1}" 
  proof -
    have "x = 0 \<or> x = 1" if "unat x < 2" for x :: u16
      using that by (simp add: word_unat_eq_iff) linarith
    then show ?thesis by (auto simp: word_less_nat_alt)
  qed
  have sq: "seqs 5 xs = {x. x < ucast (2 :: u64)}" "seqs 5 (butlast xs) \<noteq> {x. x < ucast (2 :: u64)}"
    by (auto simp: xs_def fr_def seq_of_def p two)
  have l: "length (fragment_payload pl cs m sid s) \<le> 10 + length pl" for pl cs m sid s
    by (simp add: fragment_payload_def Let_def)
  have s: "\<exists>s < unat (2 :: u64). fragment_payload [7, 8, 9] 2 2 5 1 = fragment_payload [7, 8, 9] 2 2 5 (word_of_nat s)"
    "\<exists>s < unat (2 :: u64). fragment_payload [7, 8, 9] 2 2 5 0 = fragment_payload [7, 8, 9] 2 2 5 (word_of_nat s)"
    by (rule exI [of _ 1], simp) (rule exI [of _ 0], simp)
  have tr: "\<forall>(t, created, f) \<in> set xs. t - 0 < REASSEMBLY_TIMEOUT \<and> length (fr_payload f) \<le> MAX_PAYLOAD_SIZE \<and>
      (of_stream 5 f \<longrightarrow> (\<exists>s < unat (2 :: u64). fr_payload f = fragment_payload [7, 8, 9] 2 2 5 (word_of_nat s)))"
    using s by (auto simp: xs_def fr_def REASSEMBLY_TIMEOUT_def MAX_PAYLOAD_SIZE_def of_stream_def p intro: order_trans [OF l])
  have fl: "(FLAG_FRAGMENTED OR FLAG_RAW_BINARY) AND NOT (FLAG_FRAGMENTED OR FLAG_MAC_PRESENT) = FLAG_RAW_BINARY"
    by (simp add: FLAG_FRAGMENTED_def FLAG_RAW_BINARY_def FLAG_MAC_PRESENT_def)
  obtain rs tab' where f: "feed xs [] = (rs, tab')" by fastforce
  have "reasm_ok []" by (simp add: reasm_ok_def)
  from fragments_reassemble [OF n _ this _ _ xs_def _ tr sq f] f fl show ?thesis
    by (simp add: fr_def xs_def of_stream_def p MAX_REASSEMBLY_STREAMS_def)
qed

text \<open>
  A stream is pruned 30 seconds after its first fragment, and not earlier: after
  \<open>absorb_fragment\<close> at time \<open>t\<close> for a frame of another stream, a stream is present exactly when it
  was present and younger than the timeout, with its buffer unchanged.
\<close>

lemma absorb_fragment_prunes:
  assumes "reasm_ok tab" and "\<not> of_stream sid f"
  shows "tbl_find (snd (absorb_fragment t created f tab)) sid =
    (case tbl_find tab sid of None \<Rightarrow> None | Some buf \<Rightarrow> if t - first_seen buf < REASSEMBLY_TIMEOUT then Some buf else None)"
proof -
  have "tbl_ok tab" using assms(1) by (simp add: reasm_ok_def)
  then have "tbl_find (prune t tab) sid =
      (case tbl_find tab sid of None \<Rightarrow> None | Some buf \<Rightarrow> if t - first_seen buf < REASSEMBLY_TIMEOUT then Some buf else None)"
    by (auto simp: prune_def tbl.find_sweep split: option.splits)
  with absorb_other [OF assms surjective_pairing] show ?thesis by simp
qed

end
