(* ===== verification/Vyn_Progress.thy ===== *)
theory Vyn_Progress
  imports Vyn_Ws_Spec
begin

text \<open>
  Progress of the receive operations: what is left to read never grows, and every frame or message
  that is delivered takes at least one byte of it. The receive loops of the client and of the
  plugin drivers terminate on every finite script because of this measure.
\<close>

definition bytes_left :: "'a net_scheme \<Rightarrow> nat" where
  "bytes_left w = rweight (reads w) + ssl_weight (ssl_reads w) + length (read_buf w)"

section \<open>The Unix socket\<close>

lemma sys_read_rweight:
  assumes "sys_read n w = (r, w')"
  shows "rweight (reads w') \<le> rweight (reads w)" "r = Some (RData bs) \<Longrightarrow> bs \<noteq> [] \<Longrightarrow> rweight (reads w') < rweight (reads w)"
  using assms by (auto simp: sys_read_def split: list.splits read_res.splits if_splits)

lemma sys_poll_reads: "sys_poll n w = (r, w') \<Longrightarrow> reads w' = reads w"
  by (auto simp: sys_poll_def Let_def split: list.splits)

lemma now_reads [simp]: "reads (snd (now w)) = reads w"
  by (simp add: now_def)

lemma recv_exact_rweight: "rweight (reads (snd (recv_exact n buf w))) \<le> rweight (reads w)"
proof (induction n buf w rule: recv_exact.induct)
  case (1 n buf w)
  obtain r w' where r: "sys_read (n - length buf) w = (r, w')" by fastforce
  note s = sys_read_rweight(1) [OF r]
  have ih: "r = Some (RData bs) \<Longrightarrow> length buf < n \<Longrightarrow> bs \<noteq> [] \<Longrightarrow> rweight (reads (snd (recv_exact n (buf @ bs) w'))) \<le> rweight (reads w)" for bs
    using "1.IH"(1) [of r w' "RData bs" bs] r s by auto
  have ih2: "r = Some RIntr \<Longrightarrow> length buf < n \<Longrightarrow> rweight (reads (snd (recv_exact n buf w'))) \<le> rweight (reads w)"
    using "1.IH"(2) [of r w' RIntr] r s by auto
  show ?case using s ih ih2 r
    by (subst recv_exact.simps) (auto split: option.splits read_res.splits)
qed

lemma recv_exact_takes:
  assumes "recv_exact 1 [] w = (Ret b, w')"
  shows "rweight (reads w') < rweight (reads w)"
  using assms
proof (induction "length (reads w)" arbitrary: w rule: less_induct)
  case less
  obtain r w1 where r: "sys_read 1 w = (r, w1)" by fastforce
  note eq = less.prems [unfolded recv_exact.simps [of 1 "[]" w]]
  from eq r consider "r = Some RIntr" "recv_exact 1 [] w1 = (Ret b, w')"
    | bs where "r = Some (RData bs)" "bs \<noteq> []" "recv_exact 1 bs w1 = (Ret b, w')"
    by (auto split: option.splits read_res.splits if_splits)
  then show ?case
  proof cases
    case 1
    then have "length (reads w1) < length (reads w)" using sys_read_intr r by metis
    with less.hyps [OF this 1(2)] sys_read_rweight(1) [OF r] show ?thesis by simp
  next
    case (2 bs)
    have "rweight (reads w1) < rweight (reads w)" using sys_read_rweight(2) [OF r 2(1,2)] .
    with recv_exact_rweight [of 1 bs w1] 2(3) show ?thesis by simp
  qed
qed

lemma recv_exact_deadline_rweight: "rweight (reads (snd (recv_exact_deadline n buf d w))) \<le> rweight (reads w)"
proof (induction "length (polls w)" arbitrary: buf w rule: less_induct)
  case less
  let ?x = "cast_int (ms_of_ns (d - fst (now w)))"
  obtain p w1 where p: "sys_poll ?x (snd (now w)) = (p, w1)" by fastforce
  obtain r w2 where r: "sys_read (n - length buf) w1 = (r, w2)" by fastforce
  have w1: "reads w1 = reads w" using sys_poll_reads [OF p] by simp
  have w2: "rweight (reads w2) \<le> rweight (reads w)" using sys_read_rweight(1) [OF r] w1 by simp
  have m: "length (polls w1) < length (polls w)" if "p = Some q" for q
    using sys_poll_measure [of q w1 ?x "snd (now w)"] p that by simp
  have m2: "polls w2 = polls w1" using sys_read_polls r by metis
  have IH1: "rweight (reads (snd (recv_exact_deadline n b d w1))) \<le> rweight (reads w)" if "p = Some q" for b q
    using less [OF m [OF that], of b] w1 by simp
  have IH2: "rweight (reads (snd (recv_exact_deadline n b d w2))) \<le> rweight (reads w)" if "p = Some q" for b q
    using less [of w2 b] m [OF that] m2 w2 by simp
  show ?case
    using IH1 IH2 w1 w2 p r
    by (subst recv_exact_deadline.simps)
      (auto simp: Let_def split: option.splits read_res.splits poll_res.splits)
qed

lemma reads_only_net: "reads_only w w' \<Longrightarrow> ssl_reads w' = ssl_reads w \<and> read_buf w' = read_buf w"
  for w w' :: "'a net_scheme"
  by (cases w; cases w') (simp add: reads_only_def)

text \<open>Reading a frame touches only the read side, and takes at least its first byte.\<close>

lemma andthen_split:
  assumes "andthen r f = (x, t)"
  obtains a s where "r = (Ret a, s)" "f a s = (x, t)"
  | e where "r = (Throw e, t)" "x = Throw e"
  | "r = (Pending, t)" "x = Pending"
  using assms by (cases r; cases "fst r") (auto simp: andthen_def)

lemma recv_exact_deadline_step:
  "recv_exact_deadline n buf d w = (r, w') \<Longrightarrow> reads_only w w' \<and> rweight (reads w') \<le> rweight (reads w)"
  using reads_only_recv_exact_deadline [of w n buf d] recv_exact_deadline_rweight [of n buf d w] by simp

lemma recv_exact_step:
  "recv_exact n buf w = (r, w') \<Longrightarrow> reads_only w w' \<and> rweight (reads w') \<le> rweight (reads w)"
  using reads_only_recv_exact [of w n buf] recv_exact_rweight [of n buf w] by simp

lemma now_step: "reads_only w (snd (now w))" "reads (snd (now w)) = reads w"
  by simp_all

definition read_step :: "'a world_scheme \<Rightarrow> 'b outcome \<times> 'a world_scheme \<Rightarrow> bool" where
  "read_step w r \<longleftrightarrow> reads_only w (snd r) \<and> rweight (reads (snd r)) \<le> rweight (reads w) \<and>
     (\<forall>x. fst r = Ret x \<longrightarrow> rweight (reads (snd r)) < rweight (reads w))"

lemma read_step_later: "reads_only w w1 \<Longrightarrow> reads w1 = reads w \<Longrightarrow> read_step w1 r \<Longrightarrow> read_step w r"
  by (auto simp: read_step_def intro: reads_only_trans)

text \<open>Once the first byte is taken, whatever follows stays below.\<close>

definition below :: "'a world_scheme \<Rightarrow> 'b outcome \<times> 'a world_scheme \<Rightarrow> bool" where
  "below w r \<longleftrightarrow> reads_only w (snd r) \<and> rweight (reads (snd r)) < rweight (reads w)"

lemma below_read_step: "below w r \<Longrightarrow> read_step w r"
  by (simp add: below_def read_step_def)

lemma below_andthen:
  "below w r \<Longrightarrow> (\<And>a s. below w (Ret a, s) \<Longrightarrow> below w (f a s)) \<Longrightarrow> below w (andthen r f)"
  by (cases r; cases "fst r") (auto simp: andthen_def below_def)

lemma below_result [simp]: "below w (x, s) \<Longrightarrow> below w (y, s)"
  by (simp add: below_def)

lemma below_if: "below w a \<Longrightarrow> below w b \<Longrightarrow> below w (if c then a else b)"
  by simp

lemma below_recv_exact_deadline: "below w (x, s) \<Longrightarrow> below w (recv_exact_deadline n buf d s)"
  using recv_exact_deadline_step [of n buf d s] reads_only_trans unfolding below_def
  by (metis order.strict_trans1 prod.collapse snd_conv)

lemma below_now: "below w (x, s) \<Longrightarrow> below w (y, snd (now s))"
  using reads_only_trans [OF _ reads_only_now] by (auto simp: below_def)

lemma read_frame_full_with_timeout_step: "read_step w (read_frame_full_with_timeout L key T w)"
proof -
  obtain b w1 where b: "recv_exact 1 [] w = (b, w1)" by fastforce
  note s1 = recv_exact_step [OF b]
  show ?thesis
  proof (cases b)
    case (Ret x)
    have "below w (b, w1)" using recv_exact_takes s1 b Ret by (metis below_def snd_conv)
    note b1 = below_now [OF this]
    have rest: "below w (if 0 < n then recv_exact_deadline n [] d s else (Ret [], s))" if "below w (y, s)" for n d s and y :: "bytes outcome"
      using that below_recv_exact_deadline [OF that] by (auto simp: below_def)
    have "below w (read_frame_full_with_timeout L key T w)"
      unfolding read_frame_full_with_timeout_def b Ret andthen_simps Let_def
    proof (rule below_andthen [OF below_recv_exact_deadline [OF b1]])
      fix h s assume h: "below w (Ret (h :: bytes), s)"
      show "below w (if c then (Throw e, s) else andthen (if 0 < n then recv_exact_deadline n [] d s else (Ret [], s)) (\<lambda>body w. (f body, w)))"
        for c e n d and f :: "bytes \<Rightarrow> FrameResult outcome"
        by (intro below_if below_andthen rest below_result [OF h]) (rule below_result)
    qed
    then show ?thesis by (rule below_read_step)
  qed (use b s1 in \<open>auto simp: read_frame_full_with_timeout_def read_step_def\<close>)
qed

lemma read_frame_full_with_deadline_step: "read_step w (read_frame_full_with_deadline L key d w)"
proof (induction "length (polls w)" arbitrary: w rule: less_induct)
  case less
  let ?x = "cast_int (ms_of_ns (d - fst (now w)))"
  obtain p w1 where p: "sys_poll ?x (snd (now w)) = (p, w1)" by fastforce
  have w1: "reads_only w w1" "reads w1 = reads w"
    using reads_only_trans [OF reads_only_now reads_only_sys_poll [OF p]] sys_poll_reads [OF p] by simp_all
  have w2: "reads_only w (snd (now w1))" "reads (snd (now w1)) = reads w"
    using reads_only_trans [OF w1(1) reads_only_now] w1(2) by simp_all
  have IH: "read_step w (read_frame_full_with_deadline L key d w1)" if "p = Some q" for q
    using read_step_later [OF w1 less] sys_poll_measure [of q w1 ?x "snd (now w)"] p that by simp
  have last: "read_step w (read_frame_full_with_timeout L key T (snd (now w1)))" for T
    using read_step_later [OF w2 read_frame_full_with_timeout_step] .
  show ?case
    using IH last w1 p
    by (subst read_frame_full_with_deadline.simps)
      (auto simp: Let_def read_step_def split: option.splits poll_res.splits)
qed

section \<open>The WebSocket\<close>

lemma bytes_left_writes_only: "writes_only w w' \<Longrightarrow> bytes_left w' = bytes_left w"
  by (simp add: writes_only_def bytes_left_def)

lemma poll_readable_bytes_left: "poll_readable d w = (r, w') \<Longrightarrow> bytes_left w' = bytes_left w"
proof (induction "length (polls w)" arbitrary: w rule: less_induct)
  case less
  define w1 where "w1 = snd (now w)"
  have w1: "bytes_left w1 = bytes_left w" "polls w1 = polls w" by (simp_all add: w1_def now_def bytes_left_def)
  define t where "t = (case d of None \<Rightarrow> - 1 | Some d \<Rightarrow> cast_int (min (ms_of_ns (d - fst (now w))) (2 ^ 31 - 1)))"
  obtain p w2 where p: "sys_poll t w1 = (p, w2)" by fastforce
  have w2: "bytes_left w2 = bytes_left w" using p w1(1) by (auto simp: sys_poll_def Let_def bytes_left_def split: list.splits)
  have IH: "bytes_left w' = bytes_left w" if "p = Some q" "poll_readable d w2 = (r, w')" for q
    using less.hyps [OF _ that(2)] sys_poll_net [of q w2 t w1] p that(1) w1(2) w2 by simp
  show ?case
    using less.prems IH w1(1) w2 p
    by (subst (asm) poll_readable.simps)
      (auto simp: Let_def w1_def [symmetric] t_def [symmetric] split: if_splits option.splits poll_res.splits)
qed

lemma SSL_read_bytes_left:
  "SSL_read n w = (r, w') \<Longrightarrow> bytes_left w' \<le> bytes_left w \<and> (r = Some (SslData bs) \<longrightarrow> bytes_left w' + length bs \<le> bytes_left w)"
  by (auto simp: SSL_read_def bytes_left_def split: list.splits ssl_read_res.splits if_splits)

lemma sys_read_bytes_left:
  "sys_read n w = (r, w') \<Longrightarrow> bytes_left w' \<le> bytes_left w \<and> (r = Some (RData bs) \<longrightarrow> bytes_left w' + length bs \<le> bytes_left w)"
  by (auto simp: sys_read_def bytes_left_def split: list.splits read_res.splits if_splits)

lemma bytes_left_append [simp]: "bytes_left (v\<lparr>read_buf := read_buf v @ bs\<rparr>) = bytes_left v + length bs"
  by (simp add: bytes_left_def)

lemma stream_fill_bytes_left: "stream_fill d w = (r, w') \<Longrightarrow> bytes_left w' \<le> bytes_left w"
proof (induction "net_weight w" arbitrary: w rule: less_induct)
  case less
  obtain p w1 where p: "(if \<not> tls w \<or> SSL_pending w = 0 then poll_readable d w else (Ret (), w)) = (p, w1)" by fastforce
  have le: "bytes_left w1 = bytes_left w" using p poll_readable_bytes_left by (auto split: if_splits)
  have nw: "net_weight w1 \<le> net_weight w" "\<not> tls w \<Longrightarrow> p = Ret () \<Longrightarrow> net_weight w1 < net_weight w"
    using p poll_readable_net_weight [of d w p w1 "()"] by (auto split: if_splits)
  show ?case
  proof (cases "p = Ret ()")
    case False
    with less.prems p have "w' = w1" by (cases p; cases "tls w") (auto simp: stream_fill.simps [of d w])
    with le show ?thesis by simp
  next
    case ret: True
    show ?thesis
    proof (cases "tls w")
      case True
      obtain x w2 where x: "SSL_read 4096 w1 = (x, w2)" by fastforce
      have "w' = w2 \<or> (x = Some SslWant \<and> stream_fill d w2 = (r, w')) \<or> (\<exists>bs. x = Some (SslData bs) \<and> w' = w2\<lparr>read_buf := read_buf w2 @ bs\<rparr>)"
        using less.prems True p ret x
        by (auto simp: stream_fill.simps [of d w] split: option.splits ssl_read_res.splits if_splits)
      then show ?thesis
      proof (elim disjE conjE exE)
        assume "x = Some SslWant" "stream_fill d w2 = (r, w')"
        with SSL_read_weight [OF x] SSL_read_bytes_left [OF x] nw(1) le less.hyps [of w2] show ?thesis by fastforce
      qed (use SSL_read_bytes_left [OF x] le in auto)
    next
      case False
      obtain x w2 where x: "sys_read 4096 w1 = (x, w2)" by fastforce
      have "w' = w2 \<or> (x = Some RIntr \<and> stream_fill d w2 = (r, w')) \<or> (\<exists>bs. x = Some (RData bs) \<and> w' = w2\<lparr>read_buf := read_buf w2 @ bs\<rparr>)"
        using less.prems False p ret x
        by (auto simp: stream_fill.simps [of d w] split: option.splits read_res.splits if_splits)
      then show ?thesis
      proof (elim disjE conjE exE)
        assume "x = Some RIntr" "stream_fill d w2 = (r, w')"
        with sys_read_weight [OF x] sys_read_bytes_left [OF x] nw(2) False ret le less.hyps [of w2] show ?thesis by fastforce
      qed (use sys_read_bytes_left [OF x] le in auto)
    qed
  qed
qed

lemma receive_loop_bytes_left:
  "receive_loop d im m w = (r, w') \<Longrightarrow> bytes_left w' \<le> bytes_left w \<and> (r = Ret x \<longrightarrow> bytes_left w' < bytes_left w)"
proof (induction d im m w arbitrary: r w' rule: receive_loop.induct)
  case (1 d im m w)
  show ?case
  proof (cases "ws_try_decode_server_frame (read_buf w)")
    case (Inl e)
    with "1.prems" show ?thesis by (auto simp: receive_loop.simps [of d im m w])
  next
    case (Inr o1)
    show ?thesis
    proof (cases o1)
      case None
      obtain f w1 where f: "stream_fill d w = (f, w1)" by fastforce
      note le = stream_fill_bytes_left [OF f]
      have ih: "receive_loop d im m w1 = (r, w') \<Longrightarrow> f = Ret () \<Longrightarrow> \<not> WS_MAX_MESSAGE_SIZE < length (read_buf w) \<Longrightarrow>
          bytes_left w' \<le> bytes_left w1 \<and> (r = Ret x \<longrightarrow> bytes_left w' < bytes_left w1)"
        using "1.IH"(1) [OF Inr None] f by auto
      with "1.prems" Inr None f le show ?thesis
        by (cases f) (auto simp: receive_loop.simps [of d im m w] split: if_splits)
    next
      case (Some p)
      obtain frame k where p: "p = (frame, k)" by (cases p)
      let ?w = "w\<lparr>read_buf := drop k (read_buf w)\<rparr>"
      have k: "2 \<le> k" "k \<le> length (read_buf w)" using decode_consumed [of "read_buf w" frame k] Inr Some p by simp_all
      obtain h w1 where h: "ws_handle_frame im m frame ?w = (h, w1)" by fastforce
      have lt: "bytes_left w1 < bytes_left w"
        using bytes_left_writes_only [OF ws_handle_frame_only [OF h]] k by (simp add: bytes_left_def)
      have ih: "receive_loop d im' m' w1 = (r, w') \<Longrightarrow> h = Ret (Inl (im', m')) \<Longrightarrow>
          bytes_left w' \<le> bytes_left w1 \<and> (r = Ret x \<longrightarrow> bytes_left w' < bytes_left w1)" for im' m'
        using "1.IH"(2) [OF Inr Some p [symmetric]] h by auto
      show ?thesis
      proof (cases h)
        case (Ret y)
        show ?thesis
        proof (cases y)
          case (Inl q)
          obtain im' m' where q: "q = (im', m')" by (cases q)
          have "receive_loop d im' m' w1 = (r, w')"
            using "1.prems" Inr Some p h Ret Inl q by (simp add: receive_loop.simps [of d im m w])
          with ih Ret Inl q lt show ?thesis by fastforce
        next
          case (Inr q)
          with "1.prems" \<open>ws_try_decode_server_frame _ = _\<close> Some p h Ret lt show ?thesis
            by (simp add: receive_loop.simps [of d im m w])
        qed
      qed (use "1.prems" Inr Some p h lt in \<open>auto simp: receive_loop.simps [of d im m w]\<close>)
    qed
  qed
qed

text \<open>The connection never touches the state of its owner.\<close>

lemma poll_readable_more: "net.more (snd (poll_readable d w)) = net.more w"
proof (induction "length (polls w)" arbitrary: w rule: less_induct)
  case less
  define w1 where "w1 = snd (now w)"
  have w1: "net.more w1 = net.more w" "polls w1 = polls w" by (simp_all add: w1_def now_def)
  define t where "t = (case d of None \<Rightarrow> - 1 | Some d \<Rightarrow> cast_int (min (ms_of_ns (d - fst (now w))) (2 ^ 31 - 1)))"
  obtain p w2 where p: "sys_poll t w1 = (p, w2)" by fastforce
  have w2: "net.more w2 = net.more w" using p w1(1) by (auto simp: sys_poll_def Let_def split: list.splits)
  have IH: "net.more (snd (poll_readable d w2)) = net.more w" if "p = Some q" for q
    using less.hyps [of w2] sys_poll_net [of q w2 t w1] p that w1(2) w2 by simp
  show ?case
    using IH w1(1) w2 p
    by (subst poll_readable.simps)
      (auto simp: Let_def w1_def [symmetric] t_def [symmetric] split: option.splits poll_res.splits)
qed

lemma stream_fill_more: "stream_fill d w = (r, w') \<Longrightarrow> net.more w' = net.more w"
proof (induction "net_weight w" arbitrary: w rule: less_induct)
  case less
  obtain p w1 where p: "(if \<not> tls w \<or> SSL_pending w = 0 then poll_readable d w else (Ret (), w)) = (p, w1)" by fastforce
  have m1: "net.more w1 = net.more w" using p poll_readable_more [of d w] by (auto split: if_splits)
  have nw: "net_weight w1 \<le> net_weight w" "\<not> tls w \<Longrightarrow> p = Ret () \<Longrightarrow> net_weight w1 < net_weight w"
    using p poll_readable_net_weight [of d w p w1 "()"] by (auto split: if_splits)
  show ?case
  proof (cases "p = Ret ()")
    case False
    with less.prems p have "w' = w1" by (cases p; cases "tls w") (auto simp: stream_fill.simps [of d w])
    with m1 show ?thesis by simp
  next
    case ret: True
    show ?thesis
    proof (cases "tls w")
      case True
      obtain x w2 where x: "SSL_read 4096 w1 = (x, w2)" by fastforce
      have m2: "net.more w2 = net.more w" using x m1 by (auto simp: SSL_read_def split: list.splits ssl_read_res.splits if_splits)
      have "w' = w2 \<or> (x = Some SslWant \<and> stream_fill d w2 = (r, w')) \<or> (\<exists>bs. w' = w2\<lparr>read_buf := read_buf w2 @ bs\<rparr>)"
        using less.prems True p ret x
        by (auto simp: stream_fill.simps [of d w] split: option.splits ssl_read_res.splits if_splits)
      then show ?thesis
      proof (elim disjE conjE exE)
        assume "x = Some SslWant" "stream_fill d w2 = (r, w')"
        with SSL_read_weight [OF x] nw(1) m2 less.hyps [of w2] show ?thesis by fastforce
      qed (use m2 in auto)
    next
      case False
      obtain x w2 where x: "sys_read 4096 w1 = (x, w2)" by fastforce
      have m2: "net.more w2 = net.more w" using x m1 by (auto simp: sys_read_def split: list.splits read_res.splits if_splits)
      have "w' = w2 \<or> (x = Some RIntr \<and> stream_fill d w2 = (r, w')) \<or> (\<exists>bs. w' = w2\<lparr>read_buf := read_buf w2 @ bs\<rparr>)"
        using less.prems False p ret x
        by (auto simp: stream_fill.simps [of d w] split: option.splits read_res.splits if_splits)
      then show ?thesis
      proof (elim disjE conjE exE)
        assume "x = Some RIntr" "stream_fill d w2 = (r, w')"
        with sys_read_weight [OF x] nw(2) False ret m2 less.hyps [of w2] show ?thesis by fastforce
      qed (use m2 in auto)
    qed
  qed
qed

lemma receive_loop_more: "receive_loop d im m w = (r, w') \<Longrightarrow> net.more w' = net.more w"
proof (induction d im m w arbitrary: r w' rule: receive_loop.induct)
  case (1 d im m w)
  show ?case
  proof (cases "ws_try_decode_server_frame (read_buf w)")
    case (Inl e)
    with "1.prems" show ?thesis by (auto simp: receive_loop.simps [of d im m w])
  next
    case (Inr o1)
    show ?thesis
    proof (cases o1)
      case None
      obtain f w1 where f: "stream_fill d w = (f, w1)" by fastforce
      have ih: "receive_loop d im m w1 = (r, w') \<Longrightarrow> f = Ret () \<Longrightarrow> \<not> WS_MAX_MESSAGE_SIZE < length (read_buf w) \<Longrightarrow> net.more w' = net.more w1"
        using "1.IH"(1) [OF Inr None] f by auto
      with "1.prems" Inr None f stream_fill_more [OF f] show ?thesis
        by (cases f) (auto simp: receive_loop.simps [of d im m w] split: if_splits)
    next
      case (Some p)
      obtain frame k where p: "p = (frame, k)" by (cases p)
      let ?w = "w\<lparr>read_buf := drop k (read_buf w)\<rparr>"
      obtain h w1 where h: "ws_handle_frame im m frame ?w = (h, w1)" by fastforce
      have m1: "net.more w1 = net.more w" using ws_handle_frame_only [OF h] by (simp add: writes_only_def)
      have ih: "receive_loop d im' m' w1 = (r, w') \<Longrightarrow> h = Ret (Inl (im', m')) \<Longrightarrow> net.more w' = net.more w1" for im' m'
        using "1.IH"(2) [OF Inr Some p [symmetric]] h by auto
      have "w' = w1 \<or> (\<exists>im' m'. h = Ret (Inl (im', m')) \<and> receive_loop d im' m' w1 = (r, w'))"
        using "1.prems" Inr Some p h by (auto simp: receive_loop.simps [of d im m w] split: outcome.splits sum.splits)
      with ih m1 show ?thesis by auto
    qed
  qed
qed

end
