(* ===== verification/Vyn_Client.thy ===== *)
theory Vyn_Client
  imports Vyn_Envelope Vyn_Env Vyn_Reassembly_Spec Vyn_Progress
begin

text \<open>
  \<open>VynkorClient\<close> of \<^verbatim>\<open>src/client.cpp\<close> and \<^verbatim>\<open>include/vynkor/client.hpp\<close>: construction and
  moves, connecting and closing, registration and the session key, sending, receiving with
  transparent reassembly, and the requests to the kernel. The record \<open>client\<close> extends the scripted
  environment of the two transports, so the operations of the frame layer and of the WebSocket
  layer apply to it directly.
\<close>

section \<open>State\<close>

text \<open>
  \<open>ws_active\<close> says whether \<^verbatim>\<open>ws_\<close> holds a connection. The last fields are the process-wide
  action counter, the system clock in milliseconds and the results of \<^verbatim>\<open>socket\<close> and
  \<^verbatim>\<open>connect\<close>.
\<close>

record client = net +
  socket_path :: string
  fd :: int
  ws_active :: bool
  secret :: bytes
  device_id :: string
  session_key :: "bytes option"
  reassembly :: reassembly
  next_stream_id :: u32
  g_action_seq :: u64
  sys_millis :: "nat \<Rightarrow> int"
  sys_ticks :: nat
  socket_result :: int
  connect_result :: bool

text \<open>The two constructors, over an environment \<open>c\<close>.\<close>

definition client_for_path :: "string \<Rightarrow> bytes \<Rightarrow> 'a client_scheme \<Rightarrow> 'a client_scheme" where
  "client_for_path path sec c = c\<lparr>socket_path := path, fd := -1, ws_active := False, secret := sec, device_id := [],
     session_key := None, reassembly := [], next_stream_id := 1\<rparr>"

definition client_for_fd :: "int \<Rightarrow> bytes \<Rightarrow> 'a client_scheme \<Rightarrow> 'a client_scheme" where
  "client_for_fd f sec c = c\<lparr>socket_path := [], fd := f, ws_active := False, secret := sec, device_id := [],
     session_key := None, reassembly := [], next_stream_id := 1\<rparr>"

text \<open>
  The move constructor, as the new object. Its initialiser list does not name \<^verbatim>\<open>device_id_\<close>, which
  starts empty.
\<close>

definition client_move :: "'a client_scheme \<Rightarrow> 'a client_scheme" where
  "client_move other = other\<lparr>device_id := []\<rparr>"

text \<open>
  The moved-from object: no descriptor and no WebSocket. (Its strings and containers are left in a
  valid state that the standard does not specify; nothing reads them.)
\<close>

definition client_moved_from :: "'a client_scheme \<Rightarrow> 'a client_scheme" where
  "client_moved_from other = other\<lparr>fd := -1, ws_active := False\<rparr>"

text \<open>
  Move assignment to another object: the target closes its own connection, whose environment ends
  there, and takes over every member but \<^verbatim>\<open>device_id_\<close>, which keeps the target's value.
\<close>

definition client_move_assign :: "'a client_scheme \<Rightarrow> 'a client_scheme \<Rightarrow> 'a client_scheme" where
  "client_move_assign self other = other\<lparr>device_id := device_id self\<rparr>"

section \<open>Sequencing helpers\<close>

text \<open>A pure step that may throw.\<close>

definition run_result :: "'b result \<Rightarrow> 's \<Rightarrow> ('b \<Rightarrow> 's \<Rightarrow> 'c outcome \<times> 's) \<Rightarrow> 'c outcome \<times> 's" where
  "run_result r s f = (case r of Inl e \<Rightarrow> (Throw e, s) | Inr x \<Rightarrow> f x s)"

lemma run_result_simps [simp]: "run_result (Inl e) s f = (Throw e, s)" "run_result (Inr x) s f = f x s"
  by (simp_all add: run_result_def)

section \<open>Connecting and closing\<close>

definition client_close :: "'a client_scheme \<Rightarrow> unit outcome \<times> 'a client_scheme" where
  "client_close c =
     andthen (if ws_active c then andthen (ws_close c) (\<lambda>_ c. (Ret (), c\<lparr>ws_active := False\<rparr>)) else (Ret (), c))
       (\<lambda>_ c. (Ret (), if fd c \<ge> 0 then c\<lparr>fd := -1\<rparr> else c))"

text \<open>The destructor closes the client.\<close>

definition client_destroy :: "'a client_scheme \<Rightarrow> 'a client_scheme" where
  "client_destroy c = snd (client_close c)"

text \<open>\<^verbatim>\<open>sizeof(sockaddr_un{}.sun_path)\<close> is 108 on Linux.\<close>

definition client_connect :: "'a client_scheme \<Rightarrow> unit outcome \<times> 'a client_scheme" where
  "client_connect c =
     andthen (client_close c) (\<lambda>_ c.
       let c = c\<lparr>fd := socket_result c\<rparr> in
       if fd c < 0 then (Throw (VynkorIoError ''socket() failed''), c)
       else if length (socket_path c) \<ge> 108 then
         (Throw (VynkorIoError (''socket path too long: '' @ socket_path c)), c\<lparr>fd := -1\<rparr>)
       else if \<not> connect_result c then
         (Throw (VynkorIoError (''connect() failed: '' @ socket_path c)), c\<lparr>fd := -1\<rparr>)
       else (Ret (), c))"

definition connect_path :: "string \<Rightarrow> 'a client_scheme \<Rightarrow> unit outcome \<times> 'a client_scheme" where
  "connect_path path c = client_connect (client_for_path path [] c)"

definition connect_with_secret :: "string \<Rightarrow> bytes \<Rightarrow> 'a client_scheme \<Rightarrow> unit outcome \<times> 'a client_scheme" where
  "connect_with_secret path sec c = client_connect (client_for_path path sec c)"

definition connect_from_env :: "os_env \<Rightarrow> 'a client_scheme \<Rightarrow> unit outcome \<times> 'a client_scheme" where
  "connect_from_env E c =
     (let (path, E) = default_socket_path E; sec = resolve_jwt_secret E [] in
      if sec \<noteq> [] then connect_with_secret path sec c else connect_path path c)"

definition ws_protocol :: "string \<Rightarrow> string" where
  "ws_protocol jwt_token = (if jwt_token = [] then ''vynkor'' else ''vynkor, '' @ jwt_token)"

definition connect_ws :: "'l wslib_scheme \<Rightarrow> ws_env \<Rightarrow> string \<Rightarrow> string \<Rightarrow> bytes \<Rightarrow> 'a client_scheme \<Rightarrow> unit outcome \<times> 'a client_scheme" where
  "connect_ws L E url jwt_token sec c =
     run_result (parse_ws_url url) c (\<lambda>parsed c.
       andthen (ws_connect L E parsed (ws_protocol jwt_token) (client_for_path [] sec c)) (\<lambda>_ c.
         (Ret (), c\<lparr>ws_active := True\<rparr>)))"

definition set_device_id :: "string \<Rightarrow> 'a client_scheme \<Rightarrow> 'a client_scheme" where
  "set_device_id did c = c\<lparr>device_id := did\<rparr>"

definition connect_ws_device ::
    "'l wslib_scheme \<Rightarrow> ws_env \<Rightarrow> string \<Rightarrow> string \<Rightarrow> string \<Rightarrow> bytes \<Rightarrow> 'a client_scheme \<Rightarrow> unit outcome \<times> 'a client_scheme" where
  "connect_ws_device L E url jwt_token did device_secret c =
     andthen (connect_ws L E url jwt_token device_secret c) (\<lambda>_ c. (Ret (), set_device_id did c))"

definition native_handle :: "'a client_scheme \<Rightarrow> int result" where
  "native_handle c = (if ws_active c then Inl (VynkorInternal ''native_handle is only valid on the UDS transport'') else Inr (fd c))"

definition is_secured :: "'a client_scheme \<Rightarrow> bool" where
  "is_secured c \<longleftrightarrow> session_key c \<noteq> None"

section \<open>Sending\<close>

definition send_raw_with_flags ::
    "'l sdklib_scheme \<Rightarrow> string \<Rightarrow> u16 \<Rightarrow> bytes \<Rightarrow> 'a client_scheme \<Rightarrow> unit outcome \<times> 'a client_scheme" where
  "send_raw_with_flags L target extra_flags payload c =
     (let base_flags = (if session_key c \<noteq> None then FLAG_MAC_PRESENT else 0);
          flags = base_flags OR extra_flags in
      if ws_active c then
        if length payload > MAX_PAYLOAD_SIZE then (Throw (VynkorPayloadTooLarge (length payload)), c)
        else run_result (pack_frame_ws L target flags payload (session_key c)) c send_binary
      else run_result (pack_frame_raw L target flags payload (session_key c)) c write_all)"

definition send_raw :: "'l sdklib_scheme \<Rightarrow> string \<Rightarrow> bytes \<Rightarrow> 'a client_scheme \<Rightarrow> unit outcome \<times> 'a client_scheme" where
  "send_raw L target payload c = send_raw_with_flags L target 0 payload c"

definition send :: "'l sdklib_scheme \<Rightarrow> string \<Rightarrow> Envelope \<Rightarrow> 'a client_scheme \<Rightarrow> unit outcome \<times> 'a client_scheme" where
  "send L target env c = send_raw L target (SerializeToString L env) c"

fun send_fragments :: "'l sdklib_scheme \<Rightarrow> string \<Rightarrow> bytes list \<Rightarrow> 'a client_scheme \<Rightarrow> unit outcome \<times> 'a client_scheme" where
  "send_fragments L target [] c = (Ret (), c)"
| "send_fragments L target (p # ps) c =
     andthen (send_raw_with_flags L target FLAG_FRAGMENTED p c) (\<lambda>_ c. send_fragments L target ps c)"

definition send_fragmented ::
    "'l sdklib_scheme \<Rightarrow> string \<Rightarrow> bytes \<Rightarrow> u64 \<Rightarrow> 'a client_scheme \<Rightarrow> unit outcome \<times> 'a client_scheme" where
  "send_fragmented L target payload chunk_size c =
     (if ws_active c then (Throw (VynkorInternal ''fragmented frames are not supported over WebSocket (R5-03)''), c)
      else run_result (fragment_count payload chunk_size) c (\<lambda>n c.
        let stream_id = next_stream_id c; c = c\<lparr>next_stream_id := advance_stream_id (next_stream_id c)\<rparr> in
        send_fragments L target
          (map (\<lambda>seq. fragment_payload payload chunk_size n stream_id (word_of_nat seq)) [0..<unat n]) c))"

section \<open>Receiving\<close>

definition read_transport_frame ::
    "'l sdklib_scheme \<Rightarrow> int option \<Rightarrow> 'a client_scheme \<Rightarrow> FrameResult outcome \<times> 'a client_scheme" where
  "read_transport_frame L deadline c =
     (if ws_active c then
        andthen (receive_binary_deadline deadline c) (\<lambda>message c.
          (lift_result (bind_result (parse_frame_from_buffer L message (session_key c)) (\<lambda>(r, n). Inr r)), c))
      else (case deadline of
          None \<Rightarrow> read_frame_full L (session_key c) c
        | Some d \<Rightarrow> read_frame_full_with_deadline L (session_key c) d c))"

text \<open>
  \<open>absorb_fragment\<close> on the client. The second clock reading is the constructor's; when no stream is
  created its value goes unused, which only skips a reading of the scripted clock.
\<close>

definition client_absorb :: "FrameResult \<Rightarrow> 'a client_scheme \<Rightarrow> FrameResult option outcome \<times> 'a client_scheme" where
  "client_absorb frame c =
     (let t = fst (now c); c = snd (now c); created = fst (now c); c = snd (now c);
          (r, tab) = absorb_fragment t created frame (reassembly c) in
      (lift_result r, c\<lparr>reassembly := tab\<rparr>))"

lemma read_transport_frame_progress:
  "read_transport_frame L d c = (Ret f, c') \<Longrightarrow> bytes_left c' < bytes_left c"
proof -
  assume r: "read_transport_frame L d c = (Ret f, c')"
  have uds: "bytes_left c' < bytes_left c" if "read_step c (Ret f, c')"
    using that reads_only_net [of c c'] by (auto simp: read_step_def bytes_left_def)
  show ?thesis
  proof (cases "ws_active c")
    case True
    with r obtain m c1 where "receive_binary_deadline d c = (Ret m, c1)" "c' = c1"
      by (auto simp: read_transport_frame_def andthen_Ret)
    then show ?thesis using receive_loop_bytes_left [of d False "[]" c "Ret m" c1 m] by (auto simp: receive_binary_deadline_def)
  next
    case False
    with r uds show ?thesis
      using read_frame_full_with_timeout_step [of c L "session_key c" FRAME_READ_TIMEOUT_MS]
        read_frame_full_with_deadline_step [of c L "session_key c"]
      by (auto simp: read_transport_frame_def read_frame_full_def split: option.splits) metis
  qed
qed

lemma client_absorb_bytes_left: "client_absorb f c = (r, c') \<Longrightarrow> bytes_left c' = bytes_left c"
  by (auto simp: client_absorb_def Let_def now_def bytes_left_def split: prod.splits)

text \<open>
  \<open>recv_frame\<close> and \<open>recv_frame_with_deadline\<close> are the same loop; the first passes
  \<^verbatim>\<open>time_point::max()\<close>.
\<close>

function recv_frame_with_deadline :: "'l sdklib_scheme \<Rightarrow> int option \<Rightarrow> 'a client_scheme \<Rightarrow> FrameResult outcome \<times> 'a client_scheme" where
  "recv_frame_with_deadline L deadline c =
     (case read_transport_frame L deadline c of
        (Throw e, c) \<Rightarrow> (Throw e, c)
      | (Pending, c) \<Rightarrow> (Pending, c)
      | (Ret frame, c1) \<Rightarrow>
          if has_flag (fr_flags frame) FLAG_FRAGMENTED then
            (case client_absorb frame c1 of
               (Throw e, c) \<Rightarrow> (Throw e, c)
             | (Pending, c) \<Rightarrow> (Pending, c)
             | (Ret (Some complete), c) \<Rightarrow> (Ret complete, c)
             | (Ret None, c2) \<Rightarrow> recv_frame_with_deadline L deadline c2)
          else (Ret frame, c1))"
  by pat_completeness auto
termination
  by (relation "measure (\<lambda>(L, d, c). bytes_left c)")
    (auto dest!: read_transport_frame_progress [OF sym] client_absorb_bytes_left [OF sym])

declare recv_frame_with_deadline.simps [simp del]

definition recv_frame :: "'l sdklib_scheme \<Rightarrow> 'a client_scheme \<Rightarrow> FrameResult outcome \<times> 'a client_scheme" where
  "recv_frame L c = recv_frame_with_deadline L None c"

definition decode_envelope :: "'l sdklib_scheme \<Rightarrow> FrameResult \<Rightarrow> Envelope result" where
  "decode_envelope L f =
     (if has_flag (fr_flags f) FLAG_RAW_BINARY
      then Inl (VynkorInternal ''received raw-binary frame; use recv_frame() for audio'')
      else (case ParseFromArray L (fr_payload f) of
          None \<Rightarrow> Inl (VynkorProtoError ''protobuf parse failed'')
        | Some env \<Rightarrow> Inr env))"

definition recv :: "'l sdklib_scheme \<Rightarrow> 'a client_scheme \<Rightarrow> Envelope outcome \<times> 'a client_scheme" where
  "recv L c = andthen (recv_frame L c) (\<lambda>f c. (lift_result (decode_envelope L f), c))"

definition recv_timeout :: "'l sdklib_scheme \<Rightarrow> int \<Rightarrow> 'a client_scheme \<Rightarrow> Envelope outcome \<times> 'a client_scheme" where
  "recv_timeout L timeout_ms c =
     (let t = fst (now c); c = snd (now c) in
      andthen (recv_frame_with_deadline L (Some (t + timeout_ms * 1000000)) c) (\<lambda>f c. (lift_result (decode_envelope L f), c)))"

lemma recv_frame_with_deadline_progress:
  "recv_frame_with_deadline L d c = (Ret f, c') \<Longrightarrow> bytes_left c' < bytes_left c"
proof (induction "bytes_left c" arbitrary: c rule: less_induct)
  case less
  obtain r c1 where r: "read_transport_frame L d c = (r, c1)" by fastforce
  from less.prems r obtain frame where fr: "r = Ret frame"
    by (cases r) (auto simp: recv_frame_with_deadline.simps [of L d c])
  have lt: "bytes_left c1 < bytes_left c" using read_transport_frame_progress r fr by metis
  obtain a c2 where a: "client_absorb frame c1 = (a, c2)" by fastforce
  have eq: "bytes_left c2 = bytes_left c1" by (rule client_absorb_bytes_left [OF a])
  from less.prems r fr a consider "c' = c1" | "c' = c2" | "recv_frame_with_deadline L d c2 = (Ret f, c')"
    by (auto simp: recv_frame_with_deadline.simps [of L d c] split: if_splits outcome.splits option.splits)
  then show ?case using lt eq less.hyps [of c2] by cases auto
qed

section \<open>Registration\<close>

definition register_full ::
    "'l sdklib_scheme \<Rightarrow> string \<Rightarrow> string \<Rightarrow> PluginManifest \<Rightarrow> string \<Rightarrow> 'a client_scheme \<Rightarrow> PluginRegisterAck outcome \<times> 'a client_scheme" where
  "register_full L plugin_id version manifest jwt_token c =
     andthen (send L ''kernel'' (envelope (M_plugin_register \<lparr>rg_plugin_id = plugin_id, rg_version = version,
         rg_manifest = manifest, rg_jwt_token = jwt_token, rg_device_id = device_id c\<rparr>)) c) (\<lambda>_ c.
     andthen (recv L c) (\<lambda>ack c.
       (case en_payload ack of
          M_plugin_register_ack a \<Rightarrow>
            if secret c \<noteq> [] \<and> ak_session_nonce a \<noteq> [] then
              run_result (derive_session_key L (secret c) (ak_session_nonce a) plugin_id) c (\<lambda>k c.
                (Ret a, c\<lparr>session_key := Some k\<rparr>))
            else (Ret a, c)
        | M_error e \<Rightarrow> (Throw (VynkorInternal (''registration rejected: '' @ er_message e @ '' ('' @ er_details e @ '')'')), c)
        | _ \<Rightarrow> (Throw (VynkorInternal ''expected PluginRegisterAck''), c))))"

definition register_with_token ::
    "'l sdklib_scheme \<Rightarrow> string \<Rightarrow> PluginManifest \<Rightarrow> string \<Rightarrow> 'a client_scheme \<Rightarrow> PluginRegisterAck outcome \<times> 'a client_scheme" where
  "register_with_token L plugin_id manifest jwt_token c = register_full L plugin_id ''1.0.0'' manifest jwt_token c"

definition register_plugin ::
    "'l sdklib_scheme \<Rightarrow> string \<Rightarrow> PluginManifest \<Rightarrow> 'a client_scheme \<Rightarrow> PluginRegisterAck outcome \<times> 'a client_scheme" where
  "register_plugin L plugin_id manifest c = register_with_token L plugin_id manifest [] c"

section \<open>Events\<close>

definition subscribe :: "'l sdklib_scheme \<Rightarrow> string list \<Rightarrow> 'a client_scheme \<Rightarrow> unit outcome \<times> 'a client_scheme" where
  "subscribe L event_types c = send L ''kernel'' (envelope (M_subscribe event_types)) c"

definition unsubscribe :: "'l sdklib_scheme \<Rightarrow> string list \<Rightarrow> 'a client_scheme \<Rightarrow> unit outcome \<times> 'a client_scheme" where
  "unsubscribe L event_types c = send L ''kernel'' (envelope (M_unsubscribe event_types)) c"

definition ack_event :: "'l sdklib_scheme \<Rightarrow> string \<Rightarrow> 'a client_scheme \<Rightarrow> unit outcome \<times> 'a client_scheme" where
  "ack_event L event_id c = send L ''kernel'' (envelope (M_event_ack event_id)) c"

section \<open>Kernel requests\<close>

definition system_now :: "'a client_scheme \<Rightarrow> int \<times> 'a client_scheme" where
  "system_now c = (sys_millis c (sys_ticks c), c\<lparr>sys_ticks := Suc (sys_ticks c)\<rparr>)"

definition next_action_id :: "'a client_scheme \<Rightarrow> string \<times> 'a client_scheme" where
  "next_action_id c =
     (let seq = g_action_seq c; c = c\<lparr>g_action_seq := g_action_seq c + 1\<rparr>; (now_ms, c) = system_now c in
      (''act-'' @ to_string_int now_ms @ ''-'' @ to_string (unat seq), c))"

function wait_for_response :: "'l sdklib_scheme \<Rightarrow> int \<Rightarrow> (Envelope \<Rightarrow> bool) \<Rightarrow> 'a client_scheme \<Rightarrow> Envelope outcome \<times> 'a client_scheme" where
  "wait_for_response L deadline is_terminal c =
     (case recv_frame_with_deadline L (Some deadline) c of
        (Throw e, c) \<Rightarrow> (Throw e, c)
      | (Pending, c) \<Rightarrow> (Pending, c)
      | (Ret frame, c1) \<Rightarrow>
          (case ParseFromArray L (fr_payload frame) of
             None \<Rightarrow> (Throw (VynkorProtoError ''protobuf parse failed''), c1)
           | Some resp \<Rightarrow> if is_terminal resp then (Ret resp, c1) else wait_for_response L deadline is_terminal c1))"
  by pat_completeness auto
termination
  by (relation "measure (\<lambda>(L, d, t, c). bytes_left c)") (auto dest!: recv_frame_with_deadline_progress [OF sym])

declare wait_for_response.simps [simp del]

definition DEFAULT_REQUEST_TIMEOUT :: int where "DEFAULT_REQUEST_TIMEOUT = 30000"

definition request_deadline :: "u32 \<Rightarrow> 'a client_scheme \<Rightarrow> int \<times> 'a client_scheme" where
  "request_deadline timeout_ms c =
     (let timeout = (if timeout_ms = 0 then DEFAULT_REQUEST_TIMEOUT else int (unat timeout_ms)) in
      (fst (now c) + timeout * 1000000, snd (now c)))"

definition has_error :: "Envelope \<Rightarrow> bool" where
  "has_error e \<longleftrightarrow> (case en_payload e of M_error _ \<Rightarrow> True | _ \<Rightarrow> False)"

definition has_event_publish_ack :: "Envelope \<Rightarrow> bool" where
  "has_event_publish_ack e \<longleftrightarrow> (case en_payload e of M_event_publish_ack _ \<Rightarrow> True | _ \<Rightarrow> False)"

definition kernel_error :: "ErrorMessage \<Rightarrow> vyn_error" where
  "kernel_error e = VynkorInternal (''kernel error: '' @ er_message e @ '' ('' @ er_details e @ '')'')"

text \<open>
  After \<open>wait_for_response\<close> the payload is one of the terminal ones; for any other, the generated
  accessor returns a default instance.
\<close>

definition publish_event :: "'l sdklib_scheme \<Rightarrow> string \<Rightarrow> bytes \<Rightarrow> u32 \<Rightarrow> 'a client_scheme \<Rightarrow> EventPublishAck outcome \<times> 'a client_scheme" where
  "publish_event L event_type payload_json timeout_ms c =
     andthen (send L ''kernel'' (envelope (M_event_publish \<lparr>ep_event_type = event_type, ep_payload_json = payload_json\<rparr>)) c) (\<lambda>_ c.
       let (deadline, c) = request_deadline timeout_ms c in
       andthen (wait_for_response L deadline (\<lambda>e. has_event_publish_ack e \<or> has_error e) c) (\<lambda>resp c.
         (case en_payload resp of
            M_error e \<Rightarrow> (Throw (kernel_error e), c)
          | M_event_publish_ack a \<Rightarrow> (Ret a, c)
          | _ \<Rightarrow> (Ret \<lparr>ea_event_id = [], ea_status = EVENT_PUBLISH_UNKNOWN, ea_error = []\<rparr>, c))))"

definition action_terminal :: "string \<Rightarrow> Envelope \<Rightarrow> bool" where
  "action_terminal action_id e \<longleftrightarrow> (case en_payload e of
      M_action_response r \<Rightarrow> rs_action_id r = action_id
    | M_action_stream_abort a \<Rightarrow> ab_action_id a = action_id
    | M_error _ \<Rightarrow> True
    | _ \<Rightarrow> False)"

definition send_action :: "'l sdklib_scheme \<Rightarrow> string \<Rightarrow> bytes \<Rightarrow> u32 \<Rightarrow> 'a client_scheme \<Rightarrow> ActionResponse outcome \<times> 'a client_scheme" where
  "send_action L action params_json timeout_ms c =
     (let (action_id, c) = next_action_id c in
      andthen (send L ''kernel'' (envelope (M_action_request \<lparr>rq_action_id = action_id, rq_action = action,
          rq_params_json = params_json, rq_timeout_ms = timeout_ms, rq_streaming = False, rq_caller_plugin_id = []\<rparr>)) c) (\<lambda>_ c.
        let (deadline, c) = request_deadline timeout_ms c in
        andthen (wait_for_response L deadline (action_terminal action_id) c) (\<lambda>resp c.
          (case en_payload resp of
             M_error e \<Rightarrow> (Throw (kernel_error e), c)
           | M_action_stream_abort a \<Rightarrow> (Throw (VynkorInternal (''stream aborted: '' @ ab_reason a)), c)
           | M_action_response r \<Rightarrow> (Ret r, c)
           | _ \<Rightarrow> (Ret \<lparr>rs_action_id = [], rs_status = ACTION_UNKNOWN, rs_data_json = [], rs_error = []\<rparr>, c)))))"

definition send_action_streaming :: "'l sdklib_scheme \<Rightarrow> string \<Rightarrow> u32 \<Rightarrow> 'a client_scheme \<Rightarrow> string outcome \<times> 'a client_scheme" where
  "send_action_streaming L action timeout_ms c =
     (let (action_id, c) = next_action_id c in
      andthen (send L ''kernel'' (envelope (M_action_request \<lparr>rq_action_id = action_id, rq_action = action,
          rq_params_json = [], rq_timeout_ms = timeout_ms, rq_streaming = True, rq_caller_plugin_id = []\<rparr>)) c) (\<lambda>_ c.
        (Ret action_id, c)))"

definition send_request_chunk :: "'l sdklib_scheme \<Rightarrow> string \<Rightarrow> u32 \<Rightarrow> bytes \<Rightarrow> bool \<Rightarrow> 'a client_scheme \<Rightarrow> unit outcome \<times> 'a client_scheme" where
  "send_request_chunk L action_id seq chunk is_final c =
     send L ''kernel'' (envelope (M_action_request_chunk \<lparr>qc_action_id = action_id, qc_seq = seq, qc_chunk = chunk, qc_final = is_final\<rparr>)) c"

definition send_response_chunk :: "'l sdklib_scheme \<Rightarrow> string \<Rightarrow> u32 \<Rightarrow> bytes \<Rightarrow> 'a client_scheme \<Rightarrow> unit outcome \<times> 'a client_scheme" where
  "send_response_chunk L action_id seq chunk c =
     send L ''kernel'' (envelope (M_action_response_chunk \<lparr>sc_action_id = action_id, sc_seq = seq, sc_chunk = chunk\<rparr>)) c"

definition close_session :: "'l sdklib_scheme \<Rightarrow> string \<Rightarrow> string \<Rightarrow> 'a client_scheme \<Rightarrow> unit outcome \<times> 'a client_scheme" where
  "close_session L action_id reason c =
     send L ''kernel'' (envelope (M_session_close \<lparr>cl_action_id = action_id, cl_reason = reason\<rparr>)) c"

definition send_command :: "'l sdklib_scheme \<Rightarrow> string \<Rightarrow> string \<Rightarrow> bytes \<Rightarrow> 'a client_scheme \<Rightarrow> KernelCommandAck outcome \<times> 'a client_scheme" where
  "send_command L command_id command params_json c =
     andthen (send L ''kernel'' (envelope (M_kernel_command \<lparr>kc_command_id = command_id, kc_command = command, kc_params_json = params_json\<rparr>)) c) (\<lambda>_ c.
       andthen (recv L c) (\<lambda>resp c.
         (case en_payload resp of
            M_kernel_command_ack a \<Rightarrow> (Ret a, c)
          | _ \<Rightarrow> (Throw (VynkorInternal ''expected KernelCommandAck''), c))))"

text \<open>The latency in nanoseconds.\<close>

definition ping :: "'l sdklib_scheme \<Rightarrow> 'a client_scheme \<Rightarrow> int outcome \<times> 'a client_scheme" where
  "ping L c =
     (let (ms, c) = system_now c; env = envelope (M_ping (word_of_int ms));
          t0 = fst (now c); c = snd (now c) in
      andthen (send L ''kernel'' env c) (\<lambda>_ c.
        andthen (recv L c) (\<lambda>resp c.
          (case en_payload resp of
             M_pong _ \<Rightarrow> (Ret (fst (now c) - t0), snd (now c))
           | _ \<Rightarrow> (Throw (VynkorInternal ''expected Pong''), c)))))"

section \<open>Audio\<close>

definition send_audio_chunk :: "'l sdklib_scheme \<Rightarrow> string \<Rightarrow> AudioStreamChunk \<Rightarrow> 'a client_scheme \<Rightarrow> unit outcome \<times> 'a client_scheme" where
  "send_audio_chunk L target chunk c = send L target (envelope (M_audio_stream_chunk chunk)) c"

definition send_raw_audio :: "'l sdklib_scheme \<Rightarrow> string \<Rightarrow> bytes \<Rightarrow> 'a client_scheme \<Rightarrow> unit outcome \<times> 'a client_scheme" where
  "send_raw_audio L target data c = send_raw_with_flags L target FLAG_RAW_BINARY data c"

end
