(* ===== verification/Vyn_Client_Spec.thy ===== *)
theory Vyn_Client_Spec
  imports Vyn_Client
begin

text \<open>
  What the client promises: an envelope that one client sends is the envelope the other receives;
  a fragmented message is received as one frame; with a session key nothing unauthenticated is
  accepted on either transport; and the response of a request is matched to it by its id.
\<close>

section \<open>Sending and receiving over the Unix socket\<close>

definition wire_flags :: "bytes option \<Rightarrow> u16 \<Rightarrow> u16" where
  "wire_flags key extra = (if key \<noteq> None then FLAG_MAC_PRESENT else 0) OR extra"

lemma sendable_wire_flags:
  "\<not> bit extra 0 \<Longrightarrow> \<not> bit extra 1 \<Longrightarrow> sendable (wire_flags key extra) key"
  by (cases key) (auto simp: sendable_def wire_flags_def bit_simps)

lemma send_raw_with_flags_uds:
  assumes "send_raw_with_flags L target extra payload a = (Ret (), a')" "\<not> ws_active a"
  obtains fr where "pack_frame_raw L target (wire_flags (session_key a) extra) payload (session_key a) = Inr fr"
    "sent a' = sent a @ fr" "ws_active a' = ws_active a" "session_key a' = session_key a"
    "next_stream_id a' = next_stream_id a"
proof -
  from assms obtain fr where fr: "pack_frame_raw L target (wire_flags (session_key a) extra) payload (session_key a) = Inr fr"
    and w: "write_all fr a = (Ret (), a')"
    by (auto simp: send_raw_with_flags_def Let_def run_result_def wire_flags_def split: sum.splits if_splits)
  from write_all_sent [OF w] have s: "sent a' = sent a @ fr" by auto
  from write_all_more [of fr a] w have "world.more a' = world.more a" by simp
  then have "ws_active a' = ws_active a" "session_key a' = session_key a" "next_stream_id a' = next_stream_id a"
    by (cases a; cases a'; simp)+
  with fr s that show thesis by blast
qed

text \<open>
  A network that delivers in time: the clock moves by less than the frame timeout, polls neither
  fail nor time out, and they report readiness often enough for \<open>n\<close> more frames.
\<close>

definition quiet :: "nat \<Rightarrow> 'a client_scheme \<Rightarrow> bool" where
  "quiet n b \<longleftrightarrow> (\<forall>i j. clock b i < clock b j + FRAME_READ_TIMEOUT_MS * 1000000) \<and> calm (polls b) \<and>
     length (reads b) + 2 * n \<le> ready_count (polls b)"

lemma read_transport_pack:
  assumes L: "hmac_ok L" "zstd_ok L" and s: "sendable flags (session_key b)" and ws: "\<not> ws_active b"
    and fr: "pack_frame_raw L target flags payload (session_key b) = Inr fr"
    and st: "stream_of (reads b) = fr @ rest" and q: "quiet (Suc n) b"
  obtains r b' where "read_transport_frame L None b = (Ret r, b')" "fr_payload r = payload" "fr_flags r = flags"
    "stream_of (reads b') = rest" "quiet n b'" "world.more b' = world.more b" "clock b' = clock b" "reads_only b b'"
proof -
  from q have pu: "\<And>i. clock b i < clock b (ticks b) + FRAME_READ_TIMEOUT_MS * 1000000" "calm (polls b)"
    "length (reads b) + 1 + 2 * n < ready_count (polls b)"
    by (simp_all add: quiet_def)
  obtain r b' where r: "read_frame_full_with_timeout L (session_key b) FRAME_READ_TIMEOUT_MS b = (Ret r, b')" "fr_payload r = payload"
    "fr_flags r = flags" "stream_of (reads b') = rest" "reads_only b b'" "calm (polls b')" "length (reads b') + 2 * n \<le> ready_count (polls b')"
    by (rule read_frame_pack_budget [OF L s fr st pu]) blast
  have "quiet n b'" using q r(5-7) by (simp add: quiet_def reads_only_def)
  with r ws that show thesis by (auto simp: read_transport_frame_def read_frame_full_def reads_only_def)
qed

lemma recv_frame_plain:
  assumes "read_transport_frame L d b = (Ret r, b')" "\<not> bit (fr_flags r) 2"
  shows "recv_frame_with_deadline L d b = (Ret r, b')"
  using assms by (subst recv_frame_with_deadline.simps) simp

lemma recv_pack:
  assumes L: "hmac_ok L" "zstd_ok L" and ws: "\<not> ws_active b"
    and fr: "pack_frame_raw L target (wire_flags (session_key b) 0) payload (session_key b) = Inr fr"
    and st: "stream_of (reads b) = fr @ rest" and q: "quiet (Suc n) b" and p: "ParseFromArray L payload = Some env"
  obtains b' where "recv L b = (Ret env, b')" "stream_of (reads b') = rest" "quiet n b'" "world.more b' = world.more b" "reads_only b b'"
proof -
  have s: "sendable (wire_flags (session_key b) 0) (session_key b)" by (rule sendable_wire_flags) simp_all
  obtain r b' where r: "read_transport_frame L None b = (Ret r, b')" "fr_payload r = payload"
    "fr_flags r = wire_flags (session_key b) 0" "stream_of (reads b') = rest" "quiet n b'" "world.more b' = world.more b" "reads_only b b'"
    by (rule read_transport_pack [OF L s ws fr st q])
  have "\<not> bit (fr_flags r) 2" "\<not> bit (fr_flags r) 4" using r(3) by (auto simp: wire_flags_def)
  with recv_frame_plain [OF r(1)] r p show thesis
    by (intro that [of b']) (simp_all add: recv_def recv_frame_def decode_envelope_def)
qed

section \<open>A conversation\<close>

fun send_each :: "'l sdklib_scheme \<Rightarrow> string \<Rightarrow> Envelope list \<Rightarrow> 'a client_scheme \<Rightarrow> unit outcome \<times> 'a client_scheme" where
  "send_each L target [] c = (Ret (), c)"
| "send_each L target (env # envs) c = andthen (send L target env c) (\<lambda>_ c. send_each L target envs c)"

fun recv_each :: "'l sdklib_scheme \<Rightarrow> nat \<Rightarrow> 'a client_scheme \<Rightarrow> Envelope list outcome \<times> 'a client_scheme" where
  "recv_each L 0 c = (Ret [], c)"
| "recv_each L (Suc n) c = andthen (recv L c) (\<lambda>env c. andthen (recv_each L n c) (\<lambda>envs c. (Ret (env # envs), c)))"

lemma send_each_uds:
  assumes "send_each L target envs a = (Ret (), a')" "\<not> ws_active a"
  obtains frs where "list_all2 (\<lambda>env fr. pack_frame_raw L target (wire_flags (session_key a) 0) (SerializeToString L env) (session_key a) = Inr fr) envs frs"
    "sent a' = sent a @ concat frs"
  using assms
proof (induction envs arbitrary: a thesis)
  case Nil
  then show ?case by (intro Nil(1) [of "[]"]) simp_all
next
  case (Cons env envs)
  from Cons.prems(2) obtain a1 where a1: "send L target env a = (Ret (), a1)" "send_each L target envs a1 = (Ret (), a')"
    by (auto simp: andthen_Ret)
  obtain fr where fr: "pack_frame_raw L target (wire_flags (session_key a) 0) (SerializeToString L env) (session_key a) = Inr fr" "sent a1 = sent a @ fr"
    "session_key a1 = session_key a" "ws_active a1 = ws_active a"
    using send_raw_with_flags_uds [OF _ Cons.prems(3)] a1(1) by (metis send_def send_raw_def)
  obtain frs where "list_all2 (\<lambda>env fr. pack_frame_raw L target (wire_flags (session_key a) 0) (SerializeToString L env) (session_key a) = Inr fr) envs frs"
    "sent a' = sent a1 @ concat frs"
    using Cons.IH [OF _ a1(2)] fr(3,4) Cons.prems(3) by metis
  with fr show ?case by (intro Cons.prems(1) [of "fr # frs"]) simp_all
qed

lemma recv_each_packed:
  assumes L: "hmac_ok L" "zstd_ok L" and rt: "\<forall>env \<in> set envs. proto_roundtrip L env" and ws: "\<not> ws_active b"
    and frs: "list_all2 (\<lambda>env fr. pack_frame_raw L target (wire_flags (session_key b) 0) (SerializeToString L env) (session_key b) = Inr fr) envs frs"
    and st: "stream_of (reads b) = concat frs @ rest" and q: "quiet (length envs) b"
  shows "\<exists>b'. recv_each L (length envs) b = (Ret envs, b') \<and> stream_of (reads b') = rest"
  using rt ws frs st q
proof (induction envs arbitrary: b frs)
  case Nil
  then show ?case by simp
next
  case (Cons env envs)
  from Cons.prems(3,4) obtain fr frs' where fr: "pack_frame_raw L target (wire_flags (session_key b) 0) (SerializeToString L env) (session_key b) = Inr fr"
    "list_all2 (\<lambda>env fr. pack_frame_raw L target (wire_flags (session_key b) 0) (SerializeToString L env) (session_key b) = Inr fr) envs frs'"
    "stream_of (reads b) = fr @ concat frs' @ rest" by (auto simp: list_all2_Cons1)
  have p: "ParseFromArray L (SerializeToString L env) = Some env" "quiet (Suc (length envs)) b"
    using Cons.prems(1,5) by (simp_all add: proto_roundtrip_def)
  obtain b1 where b1: "recv L b = (Ret env, b1)" "stream_of (reads b1) = concat frs' @ rest" "quiet (length envs) b1" "world.more b1 = world.more b"
    by (rule recv_pack [OF L Cons.prems(2) fr(1,3) p(2,1)])
  have same: "session_key b1 = session_key b" "ws_active b1 = ws_active b" using b1(4) by (cases b; cases b1; simp)+
  have "\<exists>b'. recv_each L (length envs) b1 = (Ret envs, b') \<and> stream_of (reads b') = rest"
    by (rule Cons.IH [OF _ _ _ b1(2,3)]) (use Cons.prems(1,2) fr(2) same in simp_all)
  with b1(1) show ?case by auto
qed

section \<open>Fragments through the socket\<close>

lemma send_fragments_uds:
  assumes "send_fragments L target ps a = (Ret (), a')" "\<not> ws_active a"
  obtains frs where "list_all2 (\<lambda>p fr. pack_frame_raw L target (wire_flags (session_key a) FLAG_FRAGMENTED) p (session_key a) = Inr fr) ps frs"
    "sent a' = sent a @ concat frs"
  using assms
proof (induction ps arbitrary: a thesis)
  case Nil
  then show ?case by (intro Nil(1) [of "[]"]) simp_all
next
  case (Cons p ps)
  from Cons.prems(2) obtain a1 where 1: "send_raw_with_flags L target FLAG_FRAGMENTED p a = (Ret (), a1)"
    and 2: "send_fragments L target ps a1 = (Ret (), a')" by (auto simp: andthen_Ret)
  obtain fr where fr: "pack_frame_raw L target (wire_flags (session_key a) FLAG_FRAGMENTED) p (session_key a) = Inr fr"
    "sent a1 = sent a @ fr" "ws_active a1 = ws_active a" "session_key a1 = session_key a"
    using send_raw_with_flags_uds [OF 1 Cons.prems(3)] by metis
  obtain frs where "list_all2 (\<lambda>p fr. pack_frame_raw L target (wire_flags (session_key a1) FLAG_FRAGMENTED) p (session_key a1) = Inr fr) ps frs"
    "sent a' = sent a1 @ concat frs"
    using Cons.IH [OF _ 2] Cons.prems(3) fr(3) by auto
  with fr show ?case by (intro Cons.prems(1) [of "fr # frs"]) simp_all
qed

text \<open>One round of the receive loop on a genuine piece of a message.\<close>

lemma client_absorb_own:
  assumes "reasm_ok (reassembly b)" "ready_for payload c tot sid flags t0 S (clock b (Suc (ticks b))) f (reassembly b)"
    "\<forall>i j. clock b i < clock b j + FRAME_READ_TIMEOUT_MS * 1000000" "t0 = clock b k"
    "genuine payload c tot sid s (fr_payload f)" "S \<subseteq> {x. x < tot}"
    "length payload \<le> MAX_PAYLOAD_SIZE" "length payload \<le> unat tot * c" "length (fr_payload f) \<le> MAX_PAYLOAD_SIZE"
  obtains tab where "client_absorb f b = (Ret (if insert s S = {x. x < tot} then Some (reassembled payload flags) else None),
      b\<lparr>ticks := Suc (Suc (ticks b)), reassembly := tab\<rparr>)"
    "insert s S \<noteq> {x. x < tot} \<Longrightarrow> holds payload c tot sid flags t0 (insert s S) tab" "reasm_ok tab"
proof -
  obtain r tab where r: "absorb_fragment (clock b (ticks b)) (clock b (Suc (ticks b))) f (reassembly b) = (r, tab)" by fastforce
  have "clock b (ticks b) - t0 < FRAME_READ_TIMEOUT_MS * 1000000" using assms(3,4) by (metis diff_less_eq add.commute)
  then have t: "clock b (ticks b) - t0 < REASSEMBLY_TIMEOUT" by (simp add: FRAME_READ_TIMEOUT_MS_def REASSEMBLY_TIMEOUT_def)
  note own = absorb_own [OF assms(1,2) t assms(5-8) r]
  have ok: "reasm_ok tab" using absorb_fragment_ok [OF assms(1,9) r] by blast
  have "client_absorb f b = (lift_result r, b\<lparr>ticks := Suc (Suc (ticks b)), reassembly := tab\<rparr>)"
    using r by (simp add: client_absorb_def Let_def now_def)
  with own ok show thesis by (intro that [of tab]) (auto split: if_splits)
qed

lemma fragmented_flags:
  "wire_flags key FLAG_FRAGMENTED AND NOT (FLAG_FRAGMENTED OR FLAG_MAC_PRESENT) = 0"
  "bit (wire_flags key FLAG_FRAGMENTED) 2" "sendable (wire_flags key FLAG_FRAGMENTED) key"
proof -
  show "wire_flags key FLAG_FRAGMENTED AND NOT (FLAG_FRAGMENTED OR FLAG_MAC_PRESENT) = 0"
    by (simp add: wire_flags_def FLAG_FRAGMENTED_def FLAG_MAC_PRESENT_def)
  show "bit (wire_flags key FLAG_FRAGMENTED) 2" by (simp add: wire_flags_def bit_simps)
  show "sendable (wire_flags key FLAG_FRAGMENTED) key" by (rule sendable_wire_flags) simp_all
qed

lemma seq_set_complete:
  fixes tot :: u16
  assumes "i < unat tot"
  shows "insert (word_of_nat i) {x. unat x < i} = {x. x < tot} \<longleftrightarrow> Suc i = unat tot"
    "insert (word_of_nat i) {x :: u16. unat x < i} = {x. unat x < Suc i}"
proof -
  have w: "unat (word_of_nat i :: u16) = i" using assms unsigned_less [of tot, where ?'a = nat] by (simp add: unat_of_nat)
  show s: "insert (word_of_nat i) {x :: u16. unat x < i} = {x. unat x < Suc i}"
    using w by (auto simp: less_Suc_eq word_unat_eq_iff)
  show "insert (word_of_nat i) {x. unat x < i} = {x. x < tot} \<longleftrightarrow> Suc i = unat tot"
  proof
    assume eq: "insert (word_of_nat i) {x. unat x < i} = {x. x < tot}"
    show "Suc i = unat tot"
    proof (rule ccontr)
      assume "Suc i \<noteq> unat tot"
      with assms have lt: "Suc i < unat tot" by simp
      then have u: "unat (word_of_nat (Suc i) :: u16) = Suc i"
        using unsigned_less [of tot, where ?'a = nat] by (simp only: unat_of_nat) simp
      with lt have "word_of_nat (Suc i) \<in> {x. x < tot}" by (simp add: word_less_nat_alt)
      with eq s have "word_of_nat (Suc i) \<in> {x :: u16. unat x < Suc i}" by blast
      then show False unfolding mem_Collect_eq u by simp
    qed
  qed (use s in \<open>auto simp: word_less_nat_alt\<close>)
qed

text \<open>The receiver's table before fragment \<open>i\<close> of a message that arrives in order.\<close>

definition awaits :: "bytes \<Rightarrow> nat \<Rightarrow> u16 \<Rightarrow> u32 \<Rightarrow> nat \<Rightarrow> int \<Rightarrow> reassembly \<Rightarrow> bool" where
  "awaits payload c tot sid i t tab \<longleftrightarrow> reasm_ok tab \<and>
     (if i = 0 then tbl_find tab sid = None \<and> tbl_size tab < MAX_REASSEMBLY_STREAMS
      else holds payload c tot sid 0 t {x. unat x < i} tab)"

lemma recv_next_fragment:
  assumes L: "hmac_ok L" "zstd_ok L" and n: "fragment_count payload cs = Inr n" "n \<noteq> 0" and i: "i < unat n"
    and b: "\<not> ws_active b" "quiet (Suc m) b" "awaits payload (unat cs) (ucast n) sid i (clock b k) (reassembly b)"
    and fr: "pack_frame_raw L target (wire_flags (session_key b) FLAG_FRAGMENTED) (fragment_payload payload cs n sid (word_of_nat i)) (session_key b) = Inr fr"
    and st: "stream_of (reads b) = fr @ rest"
  obtains b' k' where "recv_frame_with_deadline L None b =
      (if Suc i = unat n then (Ret (reassembled payload 0), b') else recv_frame_with_deadline L None b')"
    "\<not> ws_active b'" "session_key b' = session_key b" "quiet m b'" "stream_of (reads b') = rest"
    "Suc i \<noteq> unat n \<Longrightarrow> awaits payload (unat cs) (ucast n) sid (Suc i) (clock b' k') (reassembly b')"
proof -
  note fc = fragment_count_cases [OF n]
  let ?c = "unat cs" let ?tot = "ucast n :: u16"
  have tot: "unat ?tot = unat n" using fc(3) by (simp add: unsigned_ucast_eq unsigned_take_bit_eq take_bit_nat_eq_self)
  have len: "length payload \<le> unat ?tot * ?c" using fc(2) tot by simp
  obtain r b1 where r: "read_transport_frame L None b = (Ret r, b1)" "fr_payload r = fragment_payload payload cs n sid (word_of_nat i)"
    "fr_flags r = wire_flags (session_key b) FLAG_FRAGMENTED" "stream_of (reads b1) = rest" "quiet m b1" "world.more b1 = world.more b" "clock b1 = clock b"
    by (rule read_transport_pack [OF L fragmented_flags(3) b(1) fr st b(2)])
  have b1: "reassembly b1 = reassembly b" "ws_active b1 = ws_active b" "session_key b1 = session_key b"
    using r(6) by (cases b; cases b1; simp)+
  define k' where "k' = (if i = 0 then Suc (ticks b1) else k)"
  let ?S = "{x :: u16. unat x < i}"
  have rf: "ready_for payload ?c ?tot sid 0 (clock b1 k') ?S (clock b1 (Suc (ticks b1))) r (reassembly b1)"
    using b(3) b1(1) r(3,7) fragmented_flags(1) by (cases "i = 0") (simp_all add: awaits_def ready_for_def k'_def)
  have g: "genuine payload ?c ?tot sid (word_of_nat i) (fr_payload r)"
    using fragment_payload_genuine [OF n i] r(2) by simp
  have i16: "i < unat ?tot" using i tot by simp
  have S: "?S \<subseteq> {x. x < ?tot}" using i16 by (auto simp: word_less_nat_alt)
  have small: "length (fr_payload r) \<le> MAX_PAYLOAD_SIZE" using fr r(2) by (auto elim: pack_frame_raw_cases)
  have steady: "\<forall>i j. clock b1 i < clock b1 j + FRAME_READ_TIMEOUT_MS * 1000000" using r(5) by (simp add: quiet_def)
  obtain tab where ab: "client_absorb r b1 = (Ret (if insert (word_of_nat i) ?S = {x. x < ?tot} then Some (reassembled payload 0) else None),
      b1\<lparr>ticks := Suc (Suc (ticks b1)), reassembly := tab\<rparr>)"
    "insert (word_of_nat i) ?S \<noteq> {x. x < ?tot} \<Longrightarrow> holds payload ?c ?tot sid 0 (clock b1 k') (insert (word_of_nat i) ?S) tab" "reasm_ok tab"
    using client_absorb_own [OF _ rf steady refl g S fc(1) len small] b(3) b1(1) by (auto simp: awaits_def)
  let ?b = "b1\<lparr>ticks := Suc (Suc (ticks b1)), reassembly := tab\<rparr>"
  show thesis
  proof (rule that [of ?b k'])
    show "recv_frame_with_deadline L None b = (if Suc i = unat n then (Ret (reassembled payload 0), ?b) else recv_frame_with_deadline L None ?b)"
      using r(1,3) ab(1) fragmented_flags(2) seq_set_complete(1) [OF i16] tot
      by (simp add: recv_frame_with_deadline.simps [of L None b])
    show "awaits payload ?c ?tot sid (Suc i) (clock ?b k') (reassembly ?b)" if "Suc i \<noteq> unat n"
      using that ab(2,3) seq_set_complete [OF i16] tot by (simp add: awaits_def)
  qed (use r(4,5) b1 b(1) in \<open>simp_all add: quiet_def\<close>)
qed

lemma recv_fragments_loop:
  assumes L: "hmac_ok L" "zstd_ok L" and n: "fragment_count payload cs = Inr n" "n \<noteq> 0"
    and i: "i < unat n" and b: "\<not> ws_active b" "quiet (unat n - i) b" "awaits payload (unat cs) (ucast n) sid i (clock b k) (reassembly b)"
    and frs: "list_all2 (\<lambda>p fr. pack_frame_raw L target (wire_flags (session_key b) FLAG_FRAGMENTED) p (session_key b) = Inr fr)
      (map (\<lambda>s. fragment_payload payload cs n sid (word_of_nat s)) [i..<unat n]) frs"
    and str: "stream_of (reads b) = concat frs @ rest"
  shows "\<exists>b'. recv_frame_with_deadline L None b = (Ret (reassembled payload 0), b') \<and> stream_of (reads b') = rest"
  using i b frs str
proof (induction "unat n - i" arbitrary: i b k frs)
  case 0
  then show ?case by simp
next
  case (Suc m)
  have up: "[i..<unat n] = i # [Suc i..<unat n]" using Suc.prems(1) by (rule upt_conv_Cons)
  from Suc.prems(5) up obtain fr frs' where fr: "frs = fr # frs'"
    "pack_frame_raw L target (wire_flags (session_key b) FLAG_FRAGMENTED) (fragment_payload payload cs n sid (word_of_nat i)) (session_key b) = Inr fr"
    "list_all2 (\<lambda>p fr. pack_frame_raw L target (wire_flags (session_key b) FLAG_FRAGMENTED) p (session_key b) = Inr fr)
      (map (\<lambda>s. fragment_payload payload cs n sid (word_of_nat s)) [Suc i..<unat n]) frs'"
    by (auto simp: list_all2_Cons1)
  have q: "quiet (Suc m) b" using Suc.prems(3) Suc.hyps(2) by simp
  have st: "stream_of (reads b) = fr @ (concat frs' @ rest)" using Suc.prems(6) fr(1) by simp
  obtain b' k' where b': "recv_frame_with_deadline L None b =
      (if Suc i = unat n then (Ret (reassembled payload 0), b') else recv_frame_with_deadline L None b')"
    "\<not> ws_active b'" "session_key b' = session_key b" "quiet m b'" "stream_of (reads b') = concat frs' @ rest"
    "Suc i \<noteq> unat n \<Longrightarrow> awaits payload (unat cs) (ucast n) sid (Suc i) (clock b' k') (reassembly b')"
    by (rule recv_next_fragment [OF L n Suc.prems(1,2) q Suc.prems(4) fr(2) st]) blast
  show ?case
  proof (cases "Suc i = unat n")
    case True
    then show ?thesis using b'(1,5) fr(3) by simp
  next
    case False
    have m: "m = unat n - Suc i" using Suc.hyps(2) by simp
    have "\<exists>b2. recv_frame_with_deadline L None b' = (Ret (reassembled payload 0), b2) \<and> stream_of (reads b2) = rest"
      by (rule Suc.hyps(1) [OF m _ b'(2) _ b'(6) _ b'(5)]) (use False Suc.prems(1) b'(3,4) m fr(3) in simp_all)
    then show ?thesis using b'(1) False by simp
  qed
qed

section \<open>Authentication\<close>

lemma parse_frame_authentic:
  assumes "parse_frame_bytes L buf (Some k) = Inr (r, n)"
  shows "fr_has_mac r" "compute_tag L k (fr_raw_header r) (fr_payload r) = Inr (fr_mac r)"
proof -
  from assms have "fr_has_mac r \<and> verify_tag L k (fr_raw_header r) (fr_payload r) (fr_mac r) = Inr True"
    by (rule parse_frame_accepts) simp
  then show "fr_has_mac r" "compute_tag L k (fr_raw_header r) (fr_payload r) = Inr (fr_mac r)"
    by (simp_all add: verify_tag_Inr_True)
qed

lemma read_frame_full_with_timeout_parsed:
  assumes "read_frame_full_with_timeout L key T w = (Ret r, w')"
  shows "\<exists>buf n. parse_frame_bytes L buf key = Inr (r, n)"
proof -
  have lift: "lift_result (bind_result x (\<lambda>(r, n). Inr r)) = Ret r \<Longrightarrow> \<exists>n. x = Inr (r, n)" for x :: "(FrameResult \<times> nat) result"
    by (cases x) auto
  from assms show ?thesis
    unfolding read_frame_full_with_timeout_def Let_def andthen_Ret
    by (auto simp: andthen_Ret split: if_splits dest!: lift)
qed

lemma read_frame_full_with_deadline_parsed:
  assumes "read_frame_full_with_deadline L key d w = (Ret r, w')"
  shows "\<exists>buf n. parse_frame_bytes L buf key = Inr (r, n)"
  using assms
proof (induction "length (polls w)" arbitrary: w rule: less_induct)
  case less
  let ?x = "cast_int (ms_of_ns (d - fst (now w)))"
  obtain p w1 where p: "sys_poll ?x (snd (now w)) = (p, w1)" by fastforce
  have IH: "\<exists>buf n. parse_frame_bytes L buf key = Inr (r, n)"
    if "p = Some q" "read_frame_full_with_deadline L key d w1 = (Ret r, w')" for q
    using less.hyps [OF _ that(2)] sys_poll_measure [of q w1 ?x "snd (now w)"] p that(1) by simp
  show ?case
    using less.prems IH p read_frame_full_with_timeout_parsed
    by (subst (asm) read_frame_full_with_deadline.simps)
      (auto simp: Let_def split: if_splits option.splits poll_res.splits)
qed

lemma read_transport_parsed:
  assumes "read_transport_frame L d c = (Ret r, c')"
  shows "\<exists>buf n. parse_frame_bytes L buf (session_key c) = Inr (r, n)"
proof (cases "ws_active c")
  case True
  with assms obtain m c1 where m: "receive_binary_deadline d c = (Ret m, c1)"
    "lift_result (bind_result (parse_frame_from_buffer L m (session_key c1)) (\<lambda>(r, n). Inr r)) = Ret r"
    by (auto simp: read_transport_frame_def andthen_Ret)
  have "net.more c1 = net.more c" using m(1) receive_loop_more by (simp add: receive_binary_deadline_def)
  then have "session_key c1 = session_key c" by (cases c; cases c1) simp
  with m(2) obtain n where "parse_frame_bytes L m (session_key c) = Inr (r, n)"
    by (cases "parse_frame_from_buffer L m (session_key c)") (auto simp: parse_frame_from_buffer_def)
  then show ?thesis by blast
next
  case False
  with assms show ?thesis
    using read_frame_full_with_timeout_parsed read_frame_full_with_deadline_parsed
    by (auto simp: read_transport_frame_def read_frame_full_def split: option.splits)
qed

section \<open>Requests and responses\<close>

lemma wait_for_response_terminal:
  "wait_for_response L d t c = (Ret e, c') \<Longrightarrow> t e"
proof (induction "bytes_left c" arbitrary: c rule: less_induct)
  case less
  obtain r c1 where r: "recv_frame_with_deadline L (Some d) c = (r, c1)" by fastforce
  from less.prems r obtain f resp where f: "r = Ret f" "ParseFromArray L (fr_payload f) = Some resp"
    by (auto simp: wait_for_response.simps [of L d t c] split: outcome.splits option.splits)
  have "bytes_left c1 < bytes_left c" using recv_frame_with_deadline_progress r f(1) by metis
  with less r f show ?case by (auto simp: wait_for_response.simps [of L d t c] split: if_splits)
qed

lemma wait_for_response_first:
  "recv_frame_with_deadline L (Some d) c = (Ret f, c') \<Longrightarrow> ParseFromArray L (fr_payload f) = Some e \<Longrightarrow> t e \<Longrightarrow>
   wait_for_response L d t c = (Ret e, c')"
  by (subst wait_for_response.simps) simp

section \<open>A demonstration client\<close>

text \<open>
  The demonstration library with a serialiser that is exact on one envelope, and a client on a
  Unix socket over given scripts.
\<close>

definition demo_sdk :: "Envelope \<Rightarrow> sdklib" where
  "demo_sdk env = \<lparr>HMAC = HMAC demo_lib, HMAC_CTX_new = HMAC_CTX_new demo_lib, HMAC_chunks = HMAC_chunks demo_lib,
     ZSTD_getFrameContentSize = ZSTD_getFrameContentSize demo_lib, ZSTD_decompress = ZSTD_decompress demo_lib,
     ZSTD_compress = ZSTD_compress demo_lib, EVP_sha1 = (\<lambda>d. Some d), EVP_EncodeBlock = string_of,
     SerializeToString = (\<lambda>e. if e = env then [1, 2, 3] else []),
     ParseFromArray = (\<lambda>p. if p = [1, 2, 3] then Some env else None)\<rparr>"

definition demo_client :: "read_res list \<Rightarrow> write_res list \<Rightarrow> client" where
  "demo_client rs ws = \<lparr>reads = rs, polls = replicate 20 PReady, polled = [], writes = ws, sent = [],
     clock = (\<lambda>i. 0), ticks = 0, tls = False, ssl_reads = [], ssl_writes = [], read_buf = [], rng = (\<lambda>i j. 0),
     rand_ok = (\<lambda>i. True), draws = 0, ws_open = False, socket_path = [], fd = 3, ws_active = False, secret = [7],
     device_id = [], session_key = Some [7], reassembly = [], next_stream_id = 1, g_action_seq = 0,
     sys_millis = (\<lambda>i. 0), sys_ticks = 0, socket_result = 3, connect_result = True\<rparr>"

lemma demo_sdk_ok [simp]: "hmac_ok (demo_sdk e)" "zstd_ok (demo_sdk e)" "proto_roundtrip (demo_sdk e) e"
proof -
  show "hmac_ok (demo_sdk e)" using demo_hmac_ok by (simp add: hmac_ok_def demo_sdk_def)
  show "zstd_ok (demo_sdk e)" using demo_zstd_ok by (simp add: zstd_ok_def demo_sdk_def)
  show "proto_roundtrip (demo_sdk e) e" by (simp add: proto_roundtrip_def demo_sdk_def)
qed

lemma demo_sdk_pack: "pack_frame_raw (demo_sdk e) = pack_frame_raw demo_lib"
proof -
  have t: "compute_tag (demo_sdk e) = compute_tag demo_lib" by (intro ext) (simp add: compute_tag_def demo_sdk_def)
  have w: "wire_form (demo_sdk e) = wire_form demo_lib"
    by (intro ext) (simp add: wire_form_def zstd_compress_level3_def demo_sdk_def)
  show ?thesis by (intro ext) (simp add: pack_frame_raw_def t w Let_def split: option.split)
qed

lemma demo_sdk_parse: "ParseFromArray (demo_sdk e) [1, 2, 3] = Some e"
  by (simp add: demo_sdk_def)

lemma demo_sdk_pack_total: "length p \<le> MAX_PAYLOAD_SIZE \<Longrightarrow> \<exists>w. pack_frame_raw (demo_sdk e) t f p key = Inr w"
  unfolding demo_sdk_pack by (rule demo_pack_total)

lemma demo_quiet: "length rs + 2 * n \<le> 20 \<Longrightarrow> quiet n (demo_client rs ws)"
  by (simp add: quiet_def demo_client_def calm_def ready_count_def FRAME_READ_TIMEOUT_MS_def)

lemma write_all_whole:
  "writes w = WCount (length frame) # ws \<Longrightarrow> frame \<noteq> [] \<Longrightarrow>
   write_all frame w = (Ret (), w\<lparr>writes := ws, sent := sent w @ frame\<rparr>)"
  by (simp add: write_all.simps [of frame w] write_all.simps [of "[]"] sys_write_def)

lemma pack_frame_raw_nonempty:
  assumes "pack_frame_raw L t f p key = Inr w"
  shows "w \<noteq> []"
proof -
  have "length (build_header f (target_to_bytes t) p) = 44" for f p by simp
  then show ?thesis using assms
    by (elim pack_frame_raw_cases) (metis append_is_Nil_conv list.size(3) zero_neq_numeral)
qed

lemma demo_send_raw:
  assumes "pack_frame_raw L t (wire_flags (Some [7]) f) p (Some [7]) = Inr fr" "writes c = WCount (length fr) # ws"
    "session_key c = Some [7]" "\<not> ws_active c"
  shows "send_raw_with_flags L t f p c = (Ret (), c\<lparr>writes := ws, sent := sent c @ fr\<rparr>)"
  using assms write_all_whole [OF assms(2) pack_frame_raw_nonempty [OF assms(1)]]
  by (simp add: send_raw_with_flags_def Let_def wire_flags_def)

lemma read_deadline_ready:
  assumes "polls w = PReady # ps" "clock w = (\<lambda>i. 0)"
  shows "read_frame_full_with_deadline L key 30000000000 w =
    read_frame_full_with_timeout L key 30000 (w\<lparr>polled := polled w @ [30000], polls := ps, ticks := Suc (Suc (ticks w))\<rparr>)"
  by (subst read_frame_full_with_deadline.simps) (simp add: now_def sys_poll_def assms Let_def ms_of_ns_def cast_int_def)

section \<open>Properties\<close>

text \<open>
  C19: What one client sends, another receives. When a client has sent any number of envelopes over
  a Unix socket, the bytes it wrote, delivered in any segmentation and with interruptions, make as
  many calls of \<open>recv\<close> of a client with the same session key return the same envelopes in the same
  order, and what follows them stays in the stream.
\<close>

theorem client_send_recv:
  assumes "hmac_ok L" "zstd_ok L" "\<forall>env \<in> set envs. proto_roundtrip L env"
    and "send_each L target envs a = (Ret (), a')" "\<not> ws_active a"
    and "\<not> ws_active b" "session_key b = session_key a" "quiet (length envs) b"
    and "stream_of (reads b) = drop (length (sent a)) (sent a') @ rest"
  shows "\<exists>b'. recv_each L (length envs) b = (Ret envs, b') \<and> stream_of (reads b') = rest"
proof -
  obtain frs where frs: "list_all2 (\<lambda>env fr. pack_frame_raw L target (wire_flags (session_key a) 0) (SerializeToString L env) (session_key a) = Inr fr) envs frs"
    "sent a' = sent a @ concat frs"
    by (rule send_each_uds [OF assms(4,5)])
  show ?thesis
    by (rule recv_each_packed [OF assms(1-3,6) _ _ assms(8), of target frs]) (use assms(7,9) frs in simp_all)
qed

theorem client_send_recv_witness:
  "\<exists>(L :: sdklib) (a :: client) a' (b :: client) b'. send_each L ''kernel'' [envelope (M_event_ack ''e1''), envelope (M_event_ack ''e1'')] a = (Ret (), a') \<and>
     stream_of (reads b) = sent a' @ [9] \<and>
     recv_each L 2 b = (Ret [envelope (M_event_ack ''e1''), envelope (M_event_ack ''e1'')], b') \<and> stream_of (reads b') = [9]"
proof -
  let ?e = "envelope (M_event_ack ''e1'')" let ?L = "demo_sdk ?e"
  obtain fr where fr: "pack_frame_raw ?L ''kernel'' (wire_flags (Some [7]) 0) [1, 2, 3] (Some [7]) = Inr fr"
    using demo_sdk_pack_total [of "[1, 2, 3]"] by (simp add: MAX_PAYLOAD_SIZE_def) blast
  let ?a = "demo_client [] [WCount (length fr), WCount (length fr)]"
  let ?b = "demo_client [RIntr, RData (fr @ fr @ [9])] []"
  have s: "send ?L ''kernel'' ?e c = (Ret (), c\<lparr>writes := ws, sent := sent c @ fr\<rparr>)"
    if "writes c = WCount (length fr) # ws" "session_key c = Some [7]" "\<not> ws_active c" for c :: client and ws
    using demo_send_raw [OF fr that] by (simp add: send_def send_raw_def demo_sdk_def)
  obtain a' where a: "send_each ?L ''kernel'' [?e, ?e] ?a = (Ret (), a')" "sent a' = fr @ fr"
    using s [of ?a "[WCount (length fr)]"] s [of "?a\<lparr>writes := [WCount (length fr)], sent := fr\<rparr>" "[]"] by (simp add: demo_client_def)
  have b: "stream_of (reads ?b) = drop (length (sent ?a)) (sent a') @ [9]"
    using a(2) pack_frame_raw_nonempty [OF fr] by (cases fr) (simp_all add: demo_client_def)
  have ws: "\<not> ws_active ?a" "\<not> ws_active ?b" "session_key ?b = session_key ?a" "quiet (length [?e, ?e]) ?b"
    using demo_quiet [of "[RIntr, RData (fr @ fr @ [9])]" 2] by (simp_all add: demo_client_def numeral_2_eq_2)
  have pr: "\<forall>env \<in> set [?e, ?e]. proto_roundtrip ?L env" by simp
  have two: "length [?e, ?e] = 2" by simp
  obtain b' where "recv_each ?L 2 ?b = (Ret [?e, ?e], b')" "stream_of (reads b') = [9]"
    using client_send_recv [OF demo_sdk_ok(1,2) pr a(1) ws b] unfolding two by blast
  moreover have "stream_of (reads ?b) = sent a' @ [9]" using b by (simp add: demo_client_def)
  ultimately show ?thesis using a(1) by blast
qed

text \<open>
  C21: A fragmented message arrives as one frame. When \<open>send_fragmented\<close> has returned, the frames
  it wrote make \<open>recv_frame\<close> of a client with the same key, a free slot and no message under way
  on that stream id return one frame with the whole payload and no flags.
\<close>

theorem client_fragmented_roundtrip:
  assumes "hmac_ok L" "zstd_ok L" "fragment_count payload chunk_size = Inr n" "n \<noteq> 0"
    and "send_fragmented L target payload chunk_size a = (Ret (), a')" "\<not> ws_active b"
    and "session_key b = session_key a" "quiet (unat n) b" "reasm_ok (reassembly b)"
    and "tbl_find (reassembly b) (next_stream_id a) = None" "tbl_size (reassembly b) < MAX_REASSEMBLY_STREAMS"
    and "stream_of (reads b) = drop (length (sent a)) (sent a') @ rest"
  shows "\<exists>r b'. recv_frame L b = (Ret r, b') \<and> fr_payload r = payload \<and> fr_flags r = 0 \<and> stream_of (reads b') = rest"
proof -
  let ?ps = "map (\<lambda>s. fragment_payload payload chunk_size n (next_stream_id a) (word_of_nat s)) [0..<unat n]"
  let ?a = "a\<lparr>next_stream_id := advance_stream_id (next_stream_id a)\<rparr>"
  have a: "\<not> ws_active a" using assms(5) by (auto simp: send_fragmented_def split: if_splits)
  have "send_fragments L target ?ps ?a = (Ret (), a')"
    using assms(3,5) by (auto simp: send_fragmented_def Let_def split: if_splits)
  then obtain frs where frs: "list_all2 (\<lambda>p fr. pack_frame_raw L target (wire_flags (session_key b) FLAG_FRAGMENTED) p (session_key b) = Inr fr) ?ps frs"
    "sent a' = sent a @ concat frs"
    using send_fragments_uds [of L target ?ps ?a a'] a assms(7) by auto
  have "\<exists>b'. recv_frame_with_deadline L None b = (Ret (reassembled payload 0), b') \<and> stream_of (reads b') = rest"
    by (rule recv_fragments_loop [OF assms(1-4) _ assms(6), where i = 0])
      (use assms(4,8-12) frs in \<open>simp_all add: unat_gt_0 awaits_def\<close>)
  then show ?thesis by (auto simp: recv_frame_def reassembled_def)
qed

theorem client_fragmented_roundtrip_witness:
  "\<exists>(L :: sdklib) (a :: client) a' (b :: client) r b'. send_fragmented L ''kernel'' [1, 2, 3] 2 a = (Ret (), a') \<and>
     stream_of (reads b) = sent a' @ [9] \<and> recv_frame L b = (Ret r, b') \<and> fr_payload r = [1, 2, 3] \<and> stream_of (reads b') = [9]"
proof -
  let ?L = "demo_sdk (envelope NoPayload)" let ?f = "wire_flags (Some [7]) FLAG_FRAGMENTED"
  let ?p = "\<lambda>s. fragment_payload [1, 2, 3] 2 2 1 (word_of_nat s)"
  have n: "fragment_count [1, 2, 3] 2 = Inr 2"
    by (simp add: fragment_count_def Let_def MAX_PAYLOAD_SIZE_def FRAG_HEADER_SIZE_def)
  have len: "length (?p s) \<le> MAX_PAYLOAD_SIZE" for s
    by (simp add: fragment_payload_def Let_def MAX_PAYLOAD_SIZE_def)
  obtain f0 f1 where f0: "pack_frame_raw ?L ''kernel'' ?f (?p 0) (Some [7]) = Inr f0"
    and f1: "pack_frame_raw ?L ''kernel'' ?f (?p 1) (Some [7]) = Inr f1"
    using demo_sdk_pack_total [OF len] by metis
  let ?a = "demo_client [] [WCount (length f0), WCount (length f1)]"
  let ?a1 = "?a\<lparr>next_stream_id := advance_stream_id 1\<rparr>"
  let ?b = "demo_client [RData (f0 @ f1 @ [9])] []"
  have s0: "send_raw_with_flags ?L ''kernel'' FLAG_FRAGMENTED (?p 0) ?a1 =
      (Ret (), ?a1\<lparr>writes := [WCount (length f1)], sent := f0\<rparr>)"
    using demo_send_raw [OF f0, of ?a1] by (simp add: demo_client_def)
  have s1: "send_raw_with_flags ?L ''kernel'' FLAG_FRAGMENTED (?p 1) (?a1\<lparr>writes := [WCount (length f1)], sent := f0\<rparr>) =
      (Ret (), ?a1\<lparr>writes := [], sent := f0 @ f1\<rparr>)"
    using demo_send_raw [OF f1, of "?a1\<lparr>writes := [WCount (length f1)], sent := f0\<rparr>"] by (simp add: demo_client_def)
  have u: "[0..<unat (2 :: u64)] = [0, 1]" by code_simp
  have st: "next_stream_id ?a = 1" "\<not> ws_active ?a" by (simp_all add: demo_client_def)
  have "send_fragments ?L ''kernel'' (map ?p [0, 1]) ?a1 = (Ret (), ?a1\<lparr>writes := [], sent := f0 @ f1\<rparr>)"
    using s0 s1 by (simp only: send_fragments.simps list.map andthen_simps)
  then have a: "send_fragmented ?L ''kernel'' [1, 2, 3] 2 ?a = (Ret (), ?a1\<lparr>writes := [], sent := f0 @ f1\<rparr>)"
    unfolding send_fragmented_def n run_result_simps Let_def st u if_False using st by simp
  have b: "\<not> ws_active ?b" "session_key ?b = session_key ?a" "quiet (unat (2 :: u64)) ?b" "reasm_ok (reassembly ?b)"
    "tbl_find (reassembly ?b) (next_stream_id ?a) = None" "tbl_size (reassembly ?b) < MAX_REASSEMBLY_STREAMS"
    "stream_of (reads ?b) = drop (length (sent ?a)) (sent (?a1\<lparr>writes := [], sent := f0 @ f1\<rparr>)) @ [9]"
    using demo_quiet [of "[RData (f0 @ f1 @ [9])]" 2 "[]"] pack_frame_raw_nonempty [OF f0]
    by (simp_all add: demo_client_def reasm_ok_def MAX_REASSEMBLY_STREAMS_def)
  have "stream_of (reads ?b) = sent (?a1\<lparr>writes := [], sent := f0 @ f1\<rparr>) @ [9]" using b(7) by (simp add: demo_client_def)
  with client_fragmented_roundtrip [OF demo_sdk_ok(1,2) n _ a b] a show ?thesis by fastforce
qed

text \<open>
  C22: A secured client accepts nothing it cannot authenticate. Once a session key is set, every
  frame that the transport hands on, a fragment or a whole message, over the socket or over a
  WebSocket, with or without a deadline, carries a tag, and the tag is the HMAC of its header and
  payload under that key.
\<close>

theorem secured_client_authentic:
  assumes "session_key c = Some key" "read_transport_frame L deadline c = (Ret r, c')"
  shows "fr_has_mac r \<and> compute_tag L key (fr_raw_header r) (fr_payload r) = Inr (fr_mac r)"
  using read_transport_parsed [OF assms(2)] assms(1) parse_frame_authentic by metis

theorem secured_client_authentic_witness:
  "\<exists>(L :: sdklib) (c :: client) r c'. session_key c = Some [7] \<and> read_transport_frame L None c = (Ret r, c') \<and>
     fr_has_mac r \<and> compute_tag L [7] (fr_raw_header r) (fr_payload r) = Inr (fr_mac r)"
proof -
  let ?L = "demo_sdk (envelope NoPayload)"
  obtain fr where fr: "pack_frame_raw ?L ''kernel'' (wire_flags (Some [7]) 0) [1, 2, 3] (Some [7]) = Inr fr"
    using demo_sdk_pack_total [of "[1, 2, 3]"] by (simp add: MAX_PAYLOAD_SIZE_def) blast
  let ?b = "demo_client [RData fr] []"
  have b: "session_key ?b = Some [7]" "\<not> ws_active ?b" by (simp_all add: demo_client_def)
  have s: "sendable (wire_flags (session_key ?b) 0) (session_key ?b)" by (rule sendable_wire_flags) simp_all
  have fr': "pack_frame_raw ?L ''kernel'' (wire_flags (session_key ?b) 0) [1, 2, 3] (session_key ?b) = Inr fr" using fr b by simp
  have st: "stream_of (reads ?b) = fr @ []" using pack_frame_raw_nonempty [OF fr] by (simp add: demo_client_def)
  obtain r b' where r: "read_transport_frame ?L None ?b = (Ret r, b')"
    by (rule read_transport_pack [OF demo_sdk_ok(1,2) s b(2) fr' st, where n = 0]) (simp_all add: demo_quiet)
  with secured_client_authentic [OF b(1) r] b(1) show ?thesis by blast
qed

text \<open>
  C23: A request is answered by its own response. \<open>send_action\<close> returns only a response that
  carries the action id it sent, whatever other messages arrive before it.
\<close>

theorem send_action_correlated:
  assumes "send_action L action params_json timeout_ms c = (Ret r, c')"
  shows "rs_action_id r = fst (next_action_id c)"
proof -
  obtain aid c0 where id: "next_action_id c = (aid, c0)" by fastforce
  from assms obtain d c1 resp c2 where w: "wait_for_response L d (action_terminal aid) c1 = (Ret resp, c2)"
    and r: "(case en_payload resp of M_error e \<Rightarrow> (Throw (kernel_error e), c2)
           | M_action_stream_abort a \<Rightarrow> (Throw (VynkorInternal (''stream aborted: '' @ ab_reason a)), c2)
           | M_action_response r \<Rightarrow> (Ret r, c2)
           | _ \<Rightarrow> (Ret \<lparr>rs_action_id = [], rs_status = ACTION_UNKNOWN, rs_data_json = [], rs_error = []\<rparr>, c2)) = (Ret r, c')"
    unfolding send_action_def id by (auto simp: andthen_Ret case_prod_beta)
  from wait_for_response_terminal [OF w] r id show ?thesis
    by (cases "en_payload resp") (auto simp: action_terminal_def)
qed

theorem send_action_correlated_witness:
  "\<exists>(L :: sdklib) (c :: client) r c'. send_action L ''echo'' [] 0 c = (Ret r, c') \<and>
     rs_action_id r = ''act-0-0'' \<and> rs_action_id r = fst (next_action_id c)"
proof -
  let ?r = "\<lparr>rs_action_id = ''act-0-0'', rs_status = ACTION_OK, rs_data_json = [5], rs_error = []\<rparr>"
  let ?L = "demo_sdk (envelope (M_action_response ?r))"
  let ?f = "wire_flags (Some [7]) 0"
  obtain q fr where q: "pack_frame_raw ?L ''kernel'' ?f [] (Some [7]) = Inr q"
    and fr: "pack_frame_raw ?L ''kernel'' ?f [1, 2, 3] (Some [7]) = Inr fr"
    using demo_sdk_pack_total [of "[1, 2, 3]"] demo_sdk_pack_total [of "[]"] by (simp add: MAX_PAYLOAD_SIZE_def) blast
  let ?init = "demo_client [RData fr] [WCount (length q)]"
  let ?start = "?init\<lparr>g_action_seq := 1, sys_ticks := 1\<rparr>"
  let ?sent = "?start\<lparr>writes := [], sent := q, ticks := 1\<rparr>"
  have f: "to_string 0 = ''0''" by code_simp
  have g: "sys_millis ?init = (\<lambda>i. 0)" "sys_ticks ?init = 0" "g_action_seq ?init = 0" by (simp_all add: demo_client_def)
  have id: "next_action_id ?init = (''act-0-0'', ?start)"
    by (simp add: next_action_id_def system_now_def Let_def to_string_int_def f g)
  have s: "send ?L ''kernel'' (envelope (M_action_request x)) ?start = (Ret (), ?start\<lparr>writes := [], sent := q\<rparr>)" for x
    using demo_send_raw [OF q, of ?start "[]"] by (simp add: send_def send_raw_def demo_sdk_def demo_client_def envelope_def)
  have ok: "sendable ?f (Some [7])" by (rule sendable_wire_flags) simp_all
  let ?polled = "?sent\<lparr>polled := polled ?sent @ [30000], polls := replicate 19 PReady, ticks := Suc (Suc (ticks ?sent))\<rparr>"
  have rd: "read_frame_full_with_deadline ?L (Some [7]) 30000000000 ?sent = read_frame_full_with_timeout ?L (Some [7]) 30000 ?polled"
    by (rule read_deadline_ready) (simp_all add: demo_client_def numeral_eq_Suc)
  have st: "stream_of (reads ?polled) = fr @ []" using pack_frame_raw_nonempty [OF fr] by (simp add: demo_client_def)
  obtain f c3 where f: "read_frame_full_with_timeout ?L (Some [7]) 30000 ?polled = (Ret f, c3)" "fr_payload f = [1, 2, 3]" "fr_flags f = ?f"
    by (rule read_frame_pack_budget [OF demo_sdk_ok(1,2) ok fr st, of 30000 0])
      (simp_all add: demo_client_def calm_def ready_count_def)
  have "read_transport_frame ?L (Some 30000000000) ?sent = (Ret f, c3)"
    using rd f(1) by (simp add: read_transport_frame_def demo_client_def)
  then have "recv_frame_with_deadline ?L (Some 30000000000) ?sent = (Ret f, c3)"
    by (rule recv_frame_plain) (simp add: f(3) wire_flags_def)
  then have w: "wait_for_response ?L 30000000000 (action_terminal ''act-0-0'') ?sent = (Ret (envelope (M_action_response ?r)), c3)"
    by (rule wait_for_response_first) (simp_all add: f(2) demo_sdk_parse action_terminal_def)
  have d: "request_deadline 0 (?start\<lparr>writes := [], sent := q\<rparr>) = (30000000000, ?sent)"
    by (simp add: request_deadline_def now_def demo_client_def DEFAULT_REQUEST_TIMEOUT_def)
  have "send_action ?L ''echo'' [] 0 ?init = (Ret ?r, c3)"
    by (simp add: send_action_def id s d w del: One_nat_def)
  from send_action_correlated [OF this] this show ?thesis by fastforce
qed

text \<open>
  Action ids do not repeat. Two ids are equal only when the process-wide counter had the same
  value, whatever the system clock showed, so a process gives out \<open>2 ^ 64\<close> of them before one
  recurs.
\<close>

lemma action_ids_distinct:
  assumes "fst (next_action_id c) = fst (next_action_id d)"
  shows "g_action_seq c = g_action_seq d"
proof -
  from assms have "(''act-'' @ to_string_int (sys_millis c (sys_ticks c))) @ CHR ''-'' # to_string (unat (g_action_seq c)) =
      (''act-'' @ to_string_int (sys_millis d (sys_ticks d))) @ CHR ''-'' # to_string (unat (g_action_seq d))"
    by (simp add: next_action_id_def system_now_def Let_def)
  then have "to_string (unat (g_action_seq c)) = to_string (unat (g_action_seq d))" by (rule last_dash) simp_all
  then show ?thesis using to_string_inj word_unat_eq_iff by blast
qed

text \<open>
  C25: The chunk size check wraps. With the largest \<^verbatim>\<open>size_t\<close> as chunk size and a payload of at
  least two bytes both additions in \<open>send_fragmented\<close> overflow: the guard passes, the number of
  fragments comes out as 0, and the call returns normally without having sent anything.
\<close>

theorem send_fragmented_wraps:
  assumes "2 \<le> length payload" "length payload \<le> MAX_PAYLOAD_SIZE" "\<not> ws_active c"
  shows "\<exists>c'. send_fragmented L target payload (- 1) c = (Ret (), c') \<and> sent c' = sent c"
proof -
  let ?l = "word_of_nat (length payload) :: u64"
  have l: "unat ?l = length payload" using max_payload_u64 [of "length payload"] assms(2) by simp
  have u2: "unat (2 :: u64) = 2" by simp
  have "2 \<le> ?l" unfolding word_le_nat_alt l u2 by (rule assms(1))
  from unat_sub [OF this] have two: "unat (?l - 2) = length payload - 2" unfolding l u2 .
  have big: "unat (- 1 :: u64) = 18446744073709551615" by (simp add: unsigned_minus_1_eq_mask mask_eq_exp_minus_1)
  have "unat ((?l - 2) div (- 1)) = 0"
    unfolding unat_div two big using assms(2) by (simp add: MAX_PAYLOAD_SIZE_def)
  then have q: "(?l - 2) div (- 1) = 0" by (simp only: unat_eq_zero)
  have g: "\<not> word_of_nat MAX_PAYLOAD_SIZE < (- 1 :: u64) + word_of_nat FRAG_HEADER_SIZE"
    by (simp add: MAX_PAYLOAD_SIZE_def FRAG_HEADER_SIZE_def)
  have m: "(- 1 :: u64) \<noteq> 0" by simp
  have e: "?l + (- 1) - 1 = ?l - 2" by simp
  have "fragment_count payload (- 1) = Inr 0"
    unfolding fragment_count_def Let_def e q using assms(1,2) g m by auto
  then show ?thesis using assms(3) by (simp add: send_fragmented_def Let_def)
qed

theorem send_fragmented_wraps_witness:
  "\<exists>c'. send_fragmented (demo_sdk (envelope NoPayload)) ''kernel'' [1, 2, 3] (- 1) (demo_client [] []) = (Ret (), c') \<and> sent c' = []"
  using send_fragmented_wraps [of "[1, 2, 3]" "demo_client [] []" "demo_sdk (envelope NoPayload)" "''kernel''"]
  by (simp add: MAX_PAYLOAD_SIZE_def) (simp add: demo_client_def)

end
