(* ===== verification/Vyn_Client_Ws.thy ===== *)
theory Vyn_Client_Ws
  imports Vyn_Client_Spec
begin

text \<open>
  The client over a WebSocket: an envelope is packed into a frame without compression, masked into
  one binary message, unmasked and relayed by the server in any fragmentation, assembled from the
  TCP stream, parsed and decoded. The lemmas join the frame codec, the WebSocket codec and the
  connection.
\<close>

section \<open>Sending\<close>

lemma pack_frame_ws_length:
  assumes "hmac_ok L" "pack_frame_ws L target flags payload key = Inr m"
  shows "length m \<le> FRAME_HEADER_SIZE + MAX_PAYLOAD_SIZE + MAC_TAG_LEN"
  using assms
  by (cases key) (auto simp: pack_frame_ws_def serialize_header_ws_def Let_def bind_result_Inr MAC_TAG_LEN_def FRAME_HEADER_SIZE_def
      dest: compute_tag_length [rotated] split: if_splits)

lemma send_raw_with_flags_ws:
  assumes "send_raw_with_flags L target extra payload a = (Ret (), a')" "ws_active a" "hmac_ok L"
  obtains m fr where "pack_frame_ws L target (wire_flags (session_key a) extra) payload (session_key a) = Inr m"
    "sent a' = sent a @ fr" "rfc_read_client_frame fr = Some (True, OP_BINARY, m, length fr)"
proof -
  from assms(1,2) obtain m where m: "pack_frame_ws L target (wire_flags (session_key a) extra) payload (session_key a) = Inr m"
    and s: "ws_send_frame OP_BINARY m a = (Ret (), a')"
    by (auto simp: send_raw_with_flags_def Let_def run_result_def wire_flags_def send_binary_def split: sum.splits if_splits)
  have "length m < 2 ^ 64" using pack_frame_ws_length [OF assms(3) m]
    by (simp add: FRAME_HEADER_SIZE_def MAX_PAYLOAD_SIZE_def MAC_TAG_LEN_def)
  from ws_send_frame_sent [OF s _ this] m that show thesis by (auto simp: OP_BINARY_def)
qed

section \<open>Receiving\<close>

lemma recv_ws_pack:
  assumes L: "hmac_ok L" and ws: "ws_active b" "ws_calm b"
    and m: "pack_frame_ws L target (wire_flags (session_key b) 0) payload (session_key b) = Inr (body fs)"
    and p: "ParseFromArray L payload = Some env"
    and fs: "one_message False fs" "list_all valid_frame fs" "ws_accepting (pong_cost fs) b"
    and st: "incoming b = concat (map rfc_server_frame fs) @ rest"
  shows "\<exists>b' prs. recv L b = (Ret env, b') \<and> incoming b' = rest \<and>
    sent b' = sent b @ concat prs \<and> list_all2 is_pong_for (pings fs) prs"
proof -
  have len: "length ((if False then [] else []) @ body fs) \<le> WS_MAX_MESSAGE_SIZE"
    using pack_frame_ws_length [OF L m]
    by (simp add: FRAME_HEADER_SIZE_def MAX_PAYLOAD_SIZE_def MAC_TAG_LEN_def WS_MAX_MESSAGE_SIZE_def)
  obtain r b' where rb: "receive_loop None False [] b = (r, b')" by fastforce
  from receive_loop_message [OF fs(1,2) ws(2) st len fs(3)] rb obtain prs where
    r: "r = Ret (body fs)" "incoming b' = rest" "sent b' = sent b @ concat prs"
      "list_all2 is_pong_for (pings fs) prs"
    by (auto simp: received_message_def)
  have "net.more b' = net.more b" by (rule receive_loop_more [OF rb])
  then have key: "session_key b' = session_key b" by (cases b; cases b'; simp)
  have s: "sendable (wire_flags (session_key b) 0) (session_key b)" by (rule sendable_wire_flags) simp_all
  obtain tag where tag: "parse_frame_from_buffer L (body fs @ []) (session_key b) =
      Inr (received (wire_flags (session_key b) 0) target payload (session_key b) tag, length (body fs))"
    using pack_frame_ws_parse [OF L s m] by metis
  let ?r = "received (wire_flags (session_key b) 0) target payload (session_key b) tag"
  have "read_transport_frame L None b = (Ret ?r, b')"
    using rb r(1) key tag ws(1) by (simp add: read_transport_frame_def receive_binary_deadline_def)
  moreover have "\<not> bit (fr_flags ?r) 2" "\<not> bit (fr_flags ?r) 4" by (auto simp: received_def wire_flags_def)
  ultimately have "recv L b = (Ret env, b')" using p
    by (simp add: recv_def recv_frame_def recv_frame_plain decode_envelope_def received_def)
  with r(2-4) show ?thesis by blast
qed

section \<open>A demonstration\<close>

definition demo_ws_client :: "read_res list \<Rightarrow> write_res list \<Rightarrow> client" where
  "demo_ws_client rs ws = (demo_client rs ws)\<lparr>ws_active := True, polls := replicate 200 PReady\<rparr>"

lemma demo_ws_calm: "rweight rs \<le> 200 \<Longrightarrow> ws_calm (demo_ws_client rs ws)"
  by (simp add: ws_calm_def unread_weight_def demo_ws_client_def demo_client_def calm_def ready_count_def)

lemma demo_pack_ws:
  assumes "length p \<le> MAX_PAYLOAD_SIZE"
  obtains m where "pack_frame_ws (demo_sdk e) t f p (Some k) = Inr m" "length m = 76 + length p"
proof -
  have "compute_tag (demo_sdk e) k h p = compute_tag demo_lib k h p" for h by (simp add: compute_tag_def demo_sdk_def)
  with assms that show thesis by (simp add: pack_frame_ws_def serialize_header_ws_def demo_tag Let_def)
qed

section \<open>The property\<close>

text \<open>
  C20: What one client sends over a WebSocket, another receives. When \<open>send\<close> has returned, over TCP or
  TLS, the server reads one final binary message from the bytes it wrote; when it relays that
  message in any fragmentation, with control and text frames between the fragments and the byte
  stream cut anywhere, over TCP or TLS, \<open>recv\<close> of a client with the same session key returns the same envelope,
  answers the pings, and leaves what follows in the stream.
\<close>

theorem client_ws_send_recv:
  assumes "hmac_ok L" "proto_roundtrip L env"
    and "send L target env a = (Ret (), a')" "ws_active a"
    and "rfc_read_client_frame (drop (length (sent a)) (sent a')) = Some (fin, opc, body fs, used)"
    and "ws_active b" "session_key b = session_key a" "ws_calm b"
    and "one_message False fs" "list_all valid_frame fs" "ws_accepting (pong_cost fs) b"
    and "incoming b = concat (map rfc_server_frame fs) @ rest"
  shows "fin \<and> opc = OP_BINARY \<and> length (sent a) + used = length (sent a') \<and>
    (\<exists>b' prs. recv L b = (Ret env, b') \<and> incoming b' = rest \<and>
       sent b' = sent b @ concat prs \<and> list_all2 is_pong_for (pings fs) prs)"
proof -
  let ?p = "SerializeToString L env"
  from assms(3) have "send_raw_with_flags L target 0 ?p a = (Ret (), a')" by (simp add: send_def send_raw_def)
  from send_raw_with_flags_ws [OF this assms(4,1)] obtain m fr where
    m: "pack_frame_ws L target (wire_flags (session_key a) 0) ?p (session_key a) = Inr m"
    "sent a' = sent a @ fr" "rfc_read_client_frame fr = Some (True, OP_BINARY, m, length fr)" .
  with assms(5) have eq: "fin" "opc = OP_BINARY" "used = length fr" "m = body fs" by auto
  show ?thesis
    using recv_ws_pack [OF assms(1,6,8) _ _ assms(9-12), of target ?p env] m eq assms(2,7)
    by (simp add: proto_roundtrip_def)
qed

theorem client_ws_send_recv_witness:
  "\<exists>(L :: sdklib) (a :: client) a' (b :: client) b'. send L ''kernel'' (envelope (M_event_ack ''e1'')) a = (Ret (), a') \<and>
     recv L b = (Ret (envelope (M_event_ack ''e1'')), b') \<and> incoming b' = [9]"
proof -
  let ?e = "envelope (M_event_ack ''e1'')" let ?L = "demo_sdk ?e"
  have key: "session_key (demo_ws_client rs ws) = Some [7]" "ws_active (demo_ws_client rs ws)" for rs ws
    by (simp_all add: demo_ws_client_def demo_client_def)
  have ser: "SerializeToString ?L ?e = [1, 2, 3]" by (simp add: demo_sdk_def)
  obtain m where m: "pack_frame_ws ?L ''kernel'' (wire_flags (Some [7]) 0) [1, 2, 3] (Some [7]) = Inr m" "length m = 79"
    by (rule demo_pack_ws [of "[1, 2, 3]" ?e "''kernel''" "wire_flags (Some [7]) 0" "[7]"]) (simp_all add: MAX_PAYLOAD_SIZE_def)
  define fs where "fs = [\<lparr>wf_fin = True, wf_opcode = OP_BINARY, wf_payload = m\<rparr>]"
  let ?a = "demo_ws_client [] (replicate 100 (WCount 1))"
  let ?b = "demo_ws_client [RData (concat (map rfc_server_frame fs) @ [9])] []"
  note len = m(2)
  have run: "send ?L ''kernel'' ?e ?a = ws_send_frame OP_BINARY m ?a"
    using m by (simp add: send_def send_raw_def send_raw_with_flags_def Let_def key ser wire_flags_def send_binary_def MAX_PAYLOAD_SIZE_def)
  obtain a' where a: "send ?L ''kernel'' ?e ?a = (Ret (), a')"
    using ws_send_accepting [of ?a m 7 OP_BINARY] len run
    by (auto simp: demo_ws_client_def demo_client_def ws_accepting_def accepting_def)
  obtain fr where fr: "sent a' = sent ?a @ fr" "rfc_read_client_frame fr = Some (True, OP_BINARY, m, length fr)"
    using ws_send_frame_sent [OF a [unfolded run]] len by (auto simp: OP_BINARY_def)
  have b: "ws_calm ?b" "one_message False fs" "list_all valid_frame fs" "body fs = m" "pong_cost fs = 0"
    using len by (auto intro!: demo_ws_calm simp: fs_def op_codes valid_frame_def rfc_server_frame_def rfc_length_def WS_MAX_MESSAGE_SIZE_def)
  have act: "ws_active ?a" "ws_active ?b" "session_key ?b = session_key ?a" "sent ?a = []"
    "incoming ?b = concat (map rfc_server_frame fs) @ [9]" "ws_accepting (pong_cost fs) ?b"
    using b(5) by (simp_all add: demo_ws_client_def demo_client_def ws_accepting_def accepting_def incoming_def unread_def fs_def rfc_server_frame_def)
  have rd: "rfc_read_client_frame (drop (length (sent ?a)) (sent a')) = Some (True, OP_BINARY, body fs, length fr)"
    using fr b(4) by simp
  from client_ws_send_recv [OF demo_sdk_ok(1,3) a act(1) rd act(2,3) b(1-3) act(6,5)] a show ?thesis by blast
qed

end
