(* ===== verification/Vyn_Client_Ops.thy ===== *)
theory Vyn_Client_Ops
  imports Vyn_Client
begin

text \<open>
  What holds through the operations of the client. Every operation is composed of a few steps:
  handing a frame to the transport, taking a frame from it with reassembly, and reading a clock or
  a counter. A predicate that survives these steps survives every operation, however it ends. The
  locale states this once; the session, the remaining input and the well-formedness of the client
  are its instances.
\<close>

lemma andthen_snd:
  assumes "I (snd r)" "\<And>a s. I s \<Longrightarrow> I (snd (f a s))"
  shows "I (snd (andthen r f))"
  using assms by (cases r; cases "fst r") auto

lemma run_result_snd: "I c \<Longrightarrow> (\<And>x. r = Inr x \<Longrightarrow> I (snd (f x c))) \<Longrightarrow> I (snd (run_result r c f))"
  by (cases r) (simp_all add: run_result_def)

locale client_steps =
  fixes L :: "'l sdklib_scheme" and I :: "'a client_scheme \<Rightarrow> bool"
  assumes put: "I c \<Longrightarrow> I (snd (send_raw_with_flags L target flags payload c))"
    and get: "I c \<Longrightarrow> I (snd (recv_frame_with_deadline L deadline c))"
    and steady_clock: "I c \<Longrightarrow> I (snd (now c))"
    and system_clock: "I c \<Longrightarrow> I (snd (system_now c))"
    and counter: "I c \<Longrightarrow> I (c\<lparr>g_action_seq := n\<rparr>)"
begin

lemmas seq = andthen_snd [where I = I]
lemmas res = run_result_snd [where I = I]

lemma send: "I c \<Longrightarrow> I (snd (send L target env c))"
  by (simp add: send_def send_raw_def put)

lemma send_fragments: "I c \<Longrightarrow> I (snd (send_fragments L target ps c))"
  by (induction ps arbitrary: c) (auto intro!: seq put)

lemma recv: "I c \<Longrightarrow> I (snd (recv L c))"
  unfolding recv_def recv_frame_def by (auto intro!: seq get)

lemma recv_timeout: "I c \<Longrightarrow> I (snd (recv_timeout L ms c))"
  unfolding recv_timeout_def Let_def by (auto intro!: seq get steady_clock)

lemma wait_for_response: "I c \<Longrightarrow> I (snd (wait_for_response L deadline terminal c))"
proof (induction "bytes_left c" arbitrary: c rule: less_induct)
  case less
  obtain r c1 where r: "recv_frame_with_deadline L (Some deadline) c = (r, c1)" by fastforce
  have i: "I c1" using get [OF less.prems, of "Some deadline"] r by simp
  show ?case
  proof (cases r)
    case (Ret f)
    have lt: "bytes_left c1 < bytes_left c" using recv_frame_with_deadline_progress r Ret by metis
    then show ?thesis using less.hyps [OF lt i] i r Ret
      by (auto simp: wait_for_response.simps [of L deadline terminal c] split: option.splits)
  qed (use r i in \<open>simp_all add: wait_for_response.simps [of L deadline terminal c]\<close>)
qed

lemma request_deadline: "I c \<Longrightarrow> I (snd (request_deadline ms c))"
  by (simp add: request_deadline_def Let_def steady_clock)

lemma next_action_id: "I c \<Longrightarrow> I (snd (next_action_id c))"
  by (simp add: next_action_id_def Let_def case_prod_beta system_clock counter)

lemmas steps = send put get recv steady_clock system_clock counter wait_for_response request_deadline next_action_id

lemma publish_event: "I c \<Longrightarrow> I (snd (publish_event L e p t c))"
  unfolding publish_event_def case_prod_beta Let_def by (auto intro!: seq steps split: payload_case.splits)

lemma send_action: "I c \<Longrightarrow> I (snd (send_action L a p t c))"
  unfolding send_action_def case_prod_beta Let_def by (auto intro!: seq steps split: payload_case.splits)

lemma send_action_streaming: "I c \<Longrightarrow> I (snd (send_action_streaming L a t c))"
  unfolding send_action_streaming_def case_prod_beta Let_def by (auto intro!: seq steps)

lemma send_command: "I c \<Longrightarrow> I (snd (send_command L cid cmd p c))"
  unfolding send_command_def by (auto intro!: seq steps split: payload_case.splits)

lemma ping: "I c \<Longrightarrow> I (snd (ping L c))"
  unfolding ping_def case_prod_beta Let_def by (auto intro!: seq steps split: payload_case.splits)

lemma one_way:
  assumes "I c"
  shows "I (snd (subscribe L ts c))" "I (snd (unsubscribe L ts c))" "I (snd (ack_event L eid c))"
    "I (snd (send_request_chunk L aid sq d fin c))" "I (snd (send_response_chunk L aid sq d c))"
    "I (snd (close_session L aid why c))" "I (snd (send_audio_chunk L target chunk c))" "I (snd (send_raw_audio L target d c))"
  using assms by (simp_all add: subscribe_def unsubscribe_def ack_event_def send_request_chunk_def send_response_chunk_def
      close_session_def send_audio_chunk_def send_raw_audio_def steps)

end

text \<open>Two operations also write a member: fragmented sending draws a stream id, registration installs a key.\<close>

locale client_sender = client_steps L I for L :: "'l sdklib_scheme" and I :: "'a client_scheme \<Rightarrow> bool" +
  assumes new_stream: "I c \<Longrightarrow> I (c\<lparr>next_stream_id := advance_stream_id (next_stream_id c)\<rparr>)"
begin

lemma send_fragmented: "I c \<Longrightarrow> I (snd (send_fragmented L target payload cs c))"
  unfolding send_fragmented_def Let_def by (auto intro!: res send_fragments new_stream)

end

locale client_object = client_sender L I for L :: "'l sdklib_scheme" and I :: "'a client_scheme \<Rightarrow> bool" +
  assumes new_key: "I c \<Longrightarrow> derive_session_key L s n p = Inr k \<Longrightarrow> I (c\<lparr>session_key := Some k\<rparr>)"
begin

lemma register_full: "I c \<Longrightarrow> I (snd (register_full L pid v m jwt c))"
  unfolding register_full_def by (auto intro!: seq res steps new_key split: payload_case.splits)

end

end
