(* ===== verification/Vyn_Session.thy ===== *)
theory Vyn_Session
  imports Vyn_Client_Spec Vyn_Client_Ops
begin

text \<open>
  The session of a client: the secret, the device id and the key stay what they are through sending
  and receiving on both transports; registration alone installs a key.
\<close>

section \<open>What sending and receiving leave alone\<close>

definition same_session :: "'a client_scheme \<Rightarrow> 'a client_scheme \<Rightarrow> bool" where
  "same_session c c' \<longleftrightarrow> session_key c' = session_key c \<and> secret c' = secret c \<and> device_id c' = device_id c \<and>
     ws_active c' = ws_active c \<and> fd c' = fd c \<and> next_stream_id c' = next_stream_id c"

lemma same_session_refl [simp]: "same_session c c"
  by (simp add: same_session_def)

lemma same_session_trans: "same_session a b \<Longrightarrow> same_session b c \<Longrightarrow> same_session a c"
  by (simp add: same_session_def)

lemma same_session_world: "world.more c' = world.more c \<Longrightarrow> same_session c c'"
  by (cases c; cases c') (simp add: same_session_def)

lemma same_session_net: "net.more c' = net.more c \<Longrightarrow> same_session c c'"
  by (cases c; cases c') (simp add: same_session_def)

lemma same_session_read: "read_transport_frame L d c = (r, c') \<Longrightarrow> same_session c c'"
proof -
  assume r: "read_transport_frame L d c = (r, c')"
  show ?thesis
  proof (cases "ws_active c")
    case True
    obtain x c1 where x: "receive_binary_deadline d c = (x, c1)" by fastforce
    have "net.more c1 = net.more c" using x receive_loop_more by (simp add: receive_binary_deadline_def)
    with True x r same_session_net show ?thesis by (cases x) (auto simp: read_transport_frame_def)
  next
    case False
    have "reads_only c (snd (read_frame_full_with_timeout L k T c))" "reads_only c (snd (read_frame_full_with_deadline L k t c))" for k T t
      using read_frame_full_with_timeout_step [of c L k T] read_frame_full_with_deadline_step [of c L k t] by (simp_all add: read_step_def)
    then have "world.more c' = world.more c"
      using False r by (auto simp: read_transport_frame_def read_frame_full_def reads_only_def split: option.splits) (metis snd_conv)+
    then show ?thesis by (rule same_session_world)
  qed
qed

lemma same_session_absorb: "client_absorb f c = (r, c') \<Longrightarrow> same_session c c'"
  by (auto simp: client_absorb_def Let_def now_def same_session_def split: prod.splits)

lemma same_session_recv_frame: "recv_frame_with_deadline L d c = (r, c') \<Longrightarrow> same_session c c'"
proof (induction "bytes_left c" arbitrary: c rule: less_induct)
  case less
  obtain x c1 where x: "read_transport_frame L d c = (x, c1)" by fastforce
  note s1 = same_session_read [OF x]
  show ?case
  proof (cases x)
    case (Ret frame)
    obtain a c2 where a: "client_absorb frame c1 = (a, c2)" by fastforce
    have lt: "bytes_left c2 < bytes_left c"
      using read_transport_frame_progress [of L d c frame c1] x Ret client_absorb_bytes_left [OF a] by simp
    from less.prems x Ret a consider "c' = c1" | "c' = c2" | "recv_frame_with_deadline L d c2 = (r, c')"
      by (auto simp: recv_frame_with_deadline.simps [of L d c] split: if_splits outcome.splits option.splits)
    then show ?thesis
      using s1 same_session_trans [OF s1 same_session_absorb [OF a]] less.hyps [OF lt] same_session_trans by cases blast+
  qed (use less.prems x s1 in \<open>auto simp: recv_frame_with_deadline.simps [of L d c]\<close>)
qed

text \<open>Neither does any request or any other operation that does not register or fragment.\<close>

lemma same_session_put: "same_session c (snd (send_raw_with_flags L target flags payload c))"
proof -
  have "same_session c (snd (write_all fr c))" for fr by (rule same_session_world [OF write_all_more])
  moreover have "same_session c (snd (send_binary m c))" for m
    using ws_send_frame_only [of c OP_BINARY m] same_session_net [of "snd (ws_send_frame OP_BINARY m c)" c]
    by (auto simp: send_binary_def writes_only_def)
  ultimately show ?thesis by (auto simp: send_raw_with_flags_def run_result_def Let_def split: sum.splits)
qed

interpretation ses: client_steps L "same_session c0" for L c0
proof unfold_locales
  show "same_session c0 c \<Longrightarrow> same_session c0 (snd (send_raw_with_flags L target flags payload c))" for c target flags payload
    by (rule same_session_trans [OF _ same_session_put])
  show "same_session c0 c \<Longrightarrow> same_session c0 (snd (recv_frame_with_deadline L deadline c))" for c deadline
    by (erule same_session_trans) (rule same_session_recv_frame [OF prod.collapse [symmetric]])
qed (simp_all add: same_session_def now_def system_now_def)

lemma same_session_send: "send L target env c = (r, c') \<Longrightarrow> same_session c c'"
  using ses.send [OF same_session_refl, of c L target env] by simp

lemma same_session_recv: "recv L c = (r, c') \<Longrightarrow> same_session c c'"
  using ses.recv [OF same_session_refl, of c L] by simp

section \<open>Registration\<close>

lemma register_full_Ret:
  assumes "register_full L pid v m jwt c = (Ret a, c')"
  obtains c1 ack c2 where "send L ''kernel'' (envelope (M_plugin_register \<lparr>rg_plugin_id = pid, rg_version = v,
      rg_manifest = m, rg_jwt_token = jwt, rg_device_id = device_id c\<rparr>)) c = (Ret (), c1)"
    "recv L c1 = (Ret ack, c2)" "en_payload ack = M_plugin_register_ack a"
    "if secret c2 \<noteq> [] \<and> ak_session_nonce a \<noteq> []
     then \<exists>k. derive_session_key L (secret c2) (ak_session_nonce a) pid = Inr k \<and> c' = c2\<lparr>session_key := Some k\<rparr> else c' = c2"
proof -
  from assms obtain c1 ack c2 where s: "send L ''kernel'' (envelope (M_plugin_register \<lparr>rg_plugin_id = pid, rg_version = v,
      rg_manifest = m, rg_jwt_token = jwt, rg_device_id = device_id c\<rparr>)) c = (Ret (), c1)" "recv L c1 = (Ret ack, c2)"
    and k: "(case en_payload ack of
          M_plugin_register_ack a \<Rightarrow>
            if secret c2 \<noteq> [] \<and> ak_session_nonce a \<noteq> [] then
              run_result (derive_session_key L (secret c2) (ak_session_nonce a) pid) c2 (\<lambda>k c. (Ret a, c\<lparr>session_key := Some k\<rparr>))
            else (Ret a, c2)
        | M_error e \<Rightarrow> (Throw (VynkorInternal (''registration rejected: '' @ er_message e @ '' ('' @ er_details e @ '')'')), c2)
        | _ \<Rightarrow> (Throw (VynkorInternal ''expected PluginRegisterAck''), c2)) = (Ret a, c')"
    unfolding register_full_def by (auto simp: andthen_Ret)
  show thesis
  proof (rule that [OF s])
    show "en_payload ack = M_plugin_register_ack a"
      using k by (cases "en_payload ack") (auto simp: run_result_def split: if_splits sum.splits)
    with k show "if secret c2 \<noteq> [] \<and> ak_session_nonce a \<noteq> []
     then \<exists>k. derive_session_key L (secret c2) (ak_session_nonce a) pid = Inr k \<and> c' = c2\<lparr>session_key := Some k\<rparr> else c' = c2"
      by (auto simp: run_result_def split: if_splits sum.splits)
  qed
qed

section \<open>A registration run\<close>

text \<open>The demonstration library with a given serialiser and parser.\<close>

definition demo_codec :: "(Envelope \<Rightarrow> bytes) \<Rightarrow> (bytes \<Rightarrow> Envelope option) \<Rightarrow> sdklib" where
  "demo_codec ser par = (demo_sdk (envelope NoPayload))\<lparr>SerializeToString := ser, ParseFromArray := par\<rparr>"

lemma demo_codec_simps [simp]:
  "SerializeToString (demo_codec ser par) = ser" "ParseFromArray (demo_codec ser par) = par"
  by (simp_all add: demo_codec_def)

lemma demo_codec_ok [simp]: "hmac_ok (demo_codec ser par)" "zstd_ok (demo_codec ser par)"
  using demo_sdk_ok(1,2) [of "envelope NoPayload"] by (simp_all add: hmac_ok_def zstd_ok_def demo_codec_def)

lemma demo_codec_pack: "length p \<le> MAX_PAYLOAD_SIZE \<Longrightarrow> \<exists>w. pack_frame_raw (demo_codec ser par) t f p key = Inr w"
proof -
  have "compute_tag (demo_codec ser par) = compute_tag (demo_sdk (envelope NoPayload))"
    "wire_form (demo_codec ser par) = wire_form (demo_sdk (envelope NoPayload))"
    by (intro ext, simp add: demo_codec_def compute_tag_def wire_form_def zstd_compress_level3_def)+
  then have "pack_frame_raw (demo_codec ser par) = pack_frame_raw (demo_sdk (envelope NoPayload))"
    by (intro ext) (simp add: pack_frame_raw_def Let_def split: option.split)
  then show "length p \<le> MAX_PAYLOAD_SIZE \<Longrightarrow> \<exists>w. pack_frame_raw (demo_codec ser par) t f p key = Inr w"
    using demo_sdk_pack_total by metis
qed

lemma demo_exchange:
  assumes "session_key c = Some [7]" "\<not> ws_active c" "hmac_ok L" "zstd_ok L"
    and "pack_frame_raw L ''kernel'' (wire_flags (Some [7]) 0) (SerializeToString L env) (Some [7]) = Inr q" "writes c = WCount (length q) # ws"
    and "pack_frame_raw L ''kernel'' (wire_flags (Some [7]) 0) payload (Some [7]) = Inr fr" "stream_of (reads c) = fr @ rest"
    and "quiet (Suc n) c" "ParseFromArray L payload = Some ack"
  obtains c1 c2 where "send L ''kernel'' env c = (Ret (), c1)" "recv L c1 = (Ret ack, c2)" "same_session c c2"
    "stream_of (reads c2) = rest" "quiet n c2"
proof -
  let ?c1 = "c\<lparr>writes := ws, sent := sent c @ q\<rparr>"
  have s: "send L ''kernel'' env c = (Ret (), ?c1)"
    using demo_send_raw [OF assms(5,6,1,2)] by (simp add: send_def send_raw_def)
  have st: "stream_of (reads ?c1) = fr @ rest" "quiet (Suc n) ?c1" "\<not> ws_active ?c1"
    using assms by (simp_all add: quiet_def)
  have fr: "pack_frame_raw L ''kernel'' (wire_flags (session_key ?c1) 0) payload (session_key ?c1) = Inr fr" using assms(1,7) by simp
  obtain c2 where c2: "recv L ?c1 = (Ret ack, c2)" "stream_of (reads c2) = rest" "quiet n c2"
    by (rule recv_pack [OF assms(3,4) st(3) fr st(1,2) assms(10)])
  have "same_session c ?c1" by (simp add: same_session_def)
  then show thesis using that [OF s c2(1)] c2 same_session_trans same_session_recv by blast
qed

section \<open>What registration installs\<close>

text \<open>Only a registration that returns, with a secret and a nonce, installs a key.\<close>

lemma register_full_installs:
  assumes "register_full L plugin_id version manifest jwt_token c = (Ret ack, c')"
  shows "secret c' = secret c \<and> device_id c' = device_id c \<and>
    (if secret c \<noteq> [] \<and> ak_session_nonce ack \<noteq> []
     then \<exists>k. derive_session_key L (secret c) (ak_session_nonce ack) plugin_id = Inr k \<and> session_key c' = Some k
     else session_key c' = session_key c)"
proof -
  obtain c1 env c2 where s: "same_session c c1" "same_session c1 c2"
    and k: "if secret c2 \<noteq> [] \<and> ak_session_nonce ack \<noteq> []
     then \<exists>k. derive_session_key L (secret c2) (ak_session_nonce ack) plugin_id = Inr k \<and> c' = c2\<lparr>session_key := Some k\<rparr> else c' = c2"
    using register_full_Ret [OF assms] same_session_send same_session_recv by metis
  from same_session_trans [OF s] k show ?thesis by (auto simp: same_session_def split: if_splits)
qed

lemma register_full_fails:
  assumes "register_full L plugin_id version manifest jwt_token c = (r, c')" "\<And>ack. r \<noteq> Ret ack"
  shows "same_session c c'"
proof -
  let ?env = "envelope (M_plugin_register \<lparr>rg_plugin_id = plugin_id, rg_version = version, rg_manifest = manifest,
      rg_jwt_token = jwt_token, rg_device_id = device_id c\<rparr>)"
  obtain s c1 where s: "send L ''kernel'' ?env c = (s, c1)" by fastforce
  obtain q c2 where q: "recv L c1 = (q, c2)" by fastforce
  note s1 = same_session_send [OF s] and s2 = same_session_trans [OF same_session_send [OF s] same_session_recv [OF q]]
  from assms s q have "c' = c1 \<or> c' = c2"
    by (cases s; cases q) (auto simp: register_full_def run_result_def split: payload_case.splits if_splits sum.splits)
  with s1 s2 show ?thesis by blast
qed

end
