(* ===== verification/Vyn_Client_Type.thy ===== *)
theory Vyn_Client_Type
  imports Vyn_Session Vyn_Ws_Handshake
begin

text \<open>
  The well-formedness of a client object. Whatever a program calls on a \<open>VynkorClient\<close>, in whatever
  order, however the calls end and whatever the peer sends, the object keeps its invariant: one
  transport at a time, a session key of 32 bytes, a stream id that is never 0, a reassembly table
  within its limits and a WebSocket buffer within its limit. And of these operations only the
  registrations change the session key.
\<close>

section \<open>The read buffer of a WebSocket connection\<close>

lemma stream_fill_grows: "stream_fill d w = (r, w') \<Longrightarrow> length (read_buf w') \<le> length (read_buf w) + 4096"
proof (induction d w rule: stream_fill.induct)
  case (1 d w)
  obtain p w1 where p: "(if \<not> tls w \<or> SSL_pending w = 0 then poll_readable d w else (Ret (), w)) = (p, w1)" by fastforce
  then have w1: "read_buf w1 = read_buf w" using poll_readable_keeps by (auto split: if_splits)
  show ?case
  proof (cases "p = Ret ()")
    case False
    with "1.prems" p have "w' = w1" by (cases p; cases "tls w") (simp_all add: stream_fill.simps [of d w])
    with w1 show ?thesis by simp
  next
    case pr: True
    show ?thesis
    proof (cases "tls w")
      case True
      obtain x w2 where x: "SSL_read 4096 w1 = (x, w2)" by fastforce
      have w2: "read_buf w2 = read_buf w" "\<And>bs. x = Some (SslData bs) \<Longrightarrow> length bs \<le> 4096"
        using x w1 by (auto simp: SSL_read_def split: list.splits ssl_read_res.splits if_splits)
      have p': "(if SSL_pending w = 0 then poll_readable d w else (Ret (), w)) = (Ret (), w1)" using p True pr by simp
      have "w' = w2 \<or> (x = Some SslWant \<and> stream_fill d w2 = (r, w')) \<or> (\<exists>bs. x = Some (SslData bs) \<and> w' = w2\<lparr>read_buf := read_buf w2 @ bs\<rparr>)"
        using "1.prems" True p pr x by (auto simp: stream_fill.simps [of d w] split: option.splits ssl_read_res.splits if_splits)
      then show ?thesis using w2 "1.IH"(1) [OF True p' x [symmetric]] by auto
    next
      case False
      obtain x w2 where x: "sys_read 4096 w1 = (x, w2)" by fastforce
      have w2: "read_buf w2 = read_buf w" "\<And>bs. x = Some (RData bs) \<Longrightarrow> length bs \<le> 4096"
        using x w1 by (auto simp: sys_read_def split: list.splits read_res.splits if_splits)
      have p': "poll_readable d w = (Ret (), w1)" using p False pr by simp
      have "w' = w2 \<or> (x = Some RIntr \<and> stream_fill d w2 = (r, w')) \<or> (\<exists>bs. x = Some (RData bs) \<and> w' = w2\<lparr>read_buf := read_buf w2 @ bs\<rparr>)"
        using "1.prems" False p pr x by (auto simp: stream_fill.simps [of d w] split: option.splits read_res.splits if_splits)
      then show ?thesis using w2 "1.IH"(2) [OF False p' x [symmetric]] by auto
    qed
  qed
qed

definition ws_buffer_ok :: "'a net_scheme \<Rightarrow> bool" where
  "ws_buffer_ok w \<longleftrightarrow> length (read_buf w) \<le> WS_MAX_MESSAGE_SIZE + 4096"

lemma receive_loop_buffer: "receive_loop d im m w = (r, w') \<Longrightarrow> ws_buffer_ok w \<Longrightarrow> ws_buffer_ok w'"
proof (induction d im m w arbitrary: r w' rule: receive_loop.induct)
  case (1 d im m w)
  show ?case
  proof (cases "ws_try_decode_server_frame (read_buf w)")
    case (Inl e)
    with "1.prems" show ?thesis by (auto simp: receive_loop.simps [of d im m w])
  next
    case (Inr o1)
    show ?thesis
    proof (cases o1)
      case None
      obtain f w1 where f: "stream_fill d w = (f, w1)" by fastforce
      have ok: "\<not> WS_MAX_MESSAGE_SIZE < length (read_buf w) \<Longrightarrow> ws_buffer_ok w1"
        using stream_fill_grows [OF f] by (simp add: ws_buffer_ok_def)
      have "w' = w \<or> \<not> WS_MAX_MESSAGE_SIZE < length (read_buf w) \<and> (w' = w1 \<or> (f = Ret () \<and> receive_loop d im m w1 = (r, w')))"
        using "1.prems"(1) Inr None f by (cases f) (auto simp: receive_loop.simps [of d im m w] split: if_splits)
      then show ?thesis using "1.IH"(1) [OF Inr None _ f [symmetric]] ok "1.prems"(2) by auto
    next
      case (Some p)
      obtain frame k where p: "p = (frame, k)" by (cases p)
      let ?w = "w\<lparr>read_buf := drop k (read_buf w)\<rparr>"
      obtain h w1 where h: "ws_handle_frame im m frame ?w = (h, w1)" by fastforce
      have ok: "ws_buffer_ok w1" using ws_handle_frame_only [OF h] "1.prems"(2) by (simp add: writes_only_def ws_buffer_ok_def)
      have ih: "receive_loop d im' m' w1 = (r, w') \<Longrightarrow> h = Ret (Inl (im', m')) \<Longrightarrow> ws_buffer_ok w'" for im' m'
        using "1.IH"(2) [OF Inr Some p [symmetric]] h ok by auto
      have "w' = w1 \<or> (\<exists>im' m'. h = Ret (Inl (im', m')) \<and> receive_loop d im' m' w1 = (r, w'))"
        using "1.prems" Inr Some p h by (auto simp: receive_loop.simps [of d im m w] split: outcome.splits sum.splits)
      with ih ok show ?thesis by auto
    qed
  qed
qed

lemma read_head_buffer:
  "read_head w = (Ret n, w') \<Longrightarrow> length (read_buf w) \<le> 16384 + 4096 \<Longrightarrow>
   length (read_buf w') \<le> 16384 + 4096 \<and> net.more w' = net.more w"
proof (induction w rule: read_head.induct)
  case (1 w)
  show ?case
  proof (cases "find_sub (bytes_of (CRLF @ CRLF)) (read_buf w)")
    case (Some i)
    then show ?thesis using "1.prems" by (simp add: read_head.simps [of w])
  next
    case None
    obtain r v where r: "stream_fill (Some (fst (now w) + 30 * 1000000000)) (snd (now w)) = (r, v)" by fastforce
    from "1.prems" None r have h: "r = Ret ()" "read_head v = (Ret n, w')" "\<not> length (read_buf w) > 16384"
      by (auto simp: read_head.simps [of w] split: if_splits outcome.splits)
    have "length (read_buf v) \<le> 16384 + 4096" "net.more v = net.more w"
      using stream_fill_grows [OF r] stream_fill_more [OF r] h(3) by (simp_all add: now_def)
    with "1.IH" [OF None h(3) r [symmetric] h(1) h(2)] show ?thesis by simp
  qed
qed

lemma ws_connect_buffer:
  assumes "ws_connect L E url protocol w = (Ret (), w')"
  shows "ws_buffer_ok w' \<and> net.more w' = net.more w"
proof -
  let ?v = "(opened url w)\<lparr>draws := Suc (draws w)\<rparr>" and ?req = "bytes_of (next_request L url protocol w)"
  obtain w1 n w2 where s: "stream_write_all ?req ?v = (Ret (), w1)" "read_head w1 = (Ret n, w2)"
    "w' = w2\<lparr>read_buf := drop (n + 4) (read_buf w2)\<rparr>"
    using ws_connect_Ret [OF assms] by (auto simp: handshake_def andthen_Ret)
  have "read_buf w1 = []" "net.more w1 = net.more w"
    using writes_only_stream_write_all [of ?v ?req] s(1) by (simp_all add: writes_only_def opened_def)
  with read_head_buffer [OF s(2)] s(3) show ?thesis by (simp add: ws_buffer_ok_def WS_MAX_MESSAGE_SIZE_def) linarith
qed

section \<open>The invariant of the client\<close>

definition client_ok :: "'a client_scheme \<Rightarrow> bool" where
  "client_ok c \<longleftrightarrow> reasm_ok (reassembly c) \<and> next_stream_id c \<noteq> 0 \<and>
     (\<forall>k. session_key c = Some k \<longrightarrow> length k = 32) \<and> (ws_active c \<longrightarrow> fd c < 0 \<and> ws_buffer_ok c)"

lemma derive_session_key_length: "hmac_ok L \<Longrightarrow> derive_session_key L s n p = Inr k \<Longrightarrow> length k = 32"
  by (auto simp: derive_session_key_def hkdf_extract_def hkdf_expand_def hmac_sha256_def hmac_ok_def bind_result_Inr
      split: option.splits)

lemma advance_stream_id_nonzero [simp]: "advance_stream_id sid \<noteq> 0"
  by (simp add: advance_stream_id_def Let_def)

lemma client_ok_world: "client_ok c \<Longrightarrow> world.more c' = world.more c \<Longrightarrow> client_ok c'"
  by (cases c; cases c') (simp add: client_ok_def ws_buffer_ok_def)

lemma client_ok_net: "client_ok c \<Longrightarrow> net.more c' = net.more c \<Longrightarrow> (ws_active c \<Longrightarrow> ws_buffer_ok c') \<Longrightarrow> client_ok c'"
  by (cases c; cases c') (simp add: client_ok_def)

lemma read_transport_frame_payload:
  "read_transport_frame L d c = (Ret f, c') \<Longrightarrow> length (fr_payload f) \<le> MAX_PAYLOAD_SIZE"
proof -
  assume "read_transport_frame L d c = (Ret f, c')"
  from read_transport_parsed [OF this] obtain buf n where b: "parse_frame_bytes L buf (session_key c) = Inr (f, n)" by blast
  from parse_frame_accepts [OF b] obtain len where len: "44 \<le> length buf" "un16 (field buf 0 2) = FRAME_MAGIC"
    "len = unat (un32 (field buf 4 4))" "len \<le> MAX_PAYLOAD_SIZE" "vynkor_crc32 (field buf 44 len) = un32 (field buf 40 4)"
    "normalise_frame L buf (un16 (field buf 2 2)) (field buf 44 len) = Inr (fr_flags f, fr_payload f, fr_raw_header f)"
    "44 + len \<le> length buf"
    by (metis le_add1 le_trans)
  have "length (field buf 44 len) = len" using len(7) by (simp add: field_def)
  with normalise_frame_sound [OF len(6,1,2)] len show ?thesis by simp
qed

lemma client_ok_read: "client_ok c \<Longrightarrow> client_ok (snd (read_transport_frame L d c))"
proof (cases "ws_active c")
  case True
  assume ok: "client_ok c"
  obtain x c1 where x: "receive_loop d False [] c = (x, c1)" by fastforce
  have "client_ok c1"
    using client_ok_net [OF ok receive_loop_more [OF x]] receive_loop_buffer [OF x] ok True by (simp add: client_ok_def)
  with True x show ?thesis by (cases x) (simp_all add: read_transport_frame_def receive_binary_deadline_def)
next
  case False
  assume ok: "client_ok c"
  have "reads_only c (snd (read_frame_full_with_timeout L k T c))" "reads_only c (snd (read_frame_full_with_deadline L k t c))" for k T t
    using read_frame_full_with_timeout_step [of c L k T] read_frame_full_with_deadline_step [of c L k t] by (simp_all add: read_step_def)
  then have "world.more (snd (read_transport_frame L d c)) = world.more c"
    using False by (simp add: read_transport_frame_def read_frame_full_def reads_only_def split: option.splits)
  with ok show ?thesis by (rule client_ok_world)
qed

lemma client_ok_absorb:
  assumes "client_ok c" "length (fr_payload f) \<le> MAX_PAYLOAD_SIZE"
  shows "client_ok (snd (client_absorb f c))"
proof -
  obtain r tab where a: "absorb_fragment (clock c (ticks c)) (clock c (Suc (ticks c))) f (reassembly c) = (r, tab)" by fastforce
  have "reasm_ok tab" using absorb_fragment_ok [OF _ assms(2) a] assms(1) by (simp add: client_ok_def)
  with a assms(1) show ?thesis by (simp add: client_absorb_def Let_def now_def client_ok_def ws_buffer_ok_def)
qed

lemma client_ok_recv_frame: "client_ok c \<Longrightarrow> client_ok (snd (recv_frame_with_deadline L d c))"
proof (induction "bytes_left c" arbitrary: c rule: less_induct)
  case less
  obtain x c1 where x: "read_transport_frame L d c = (x, c1)" by fastforce
  have ok1: "client_ok c1" using client_ok_read [OF less.prems, of L d] x by simp
  show ?case
  proof (cases x)
    case (Ret f)
    obtain a c2 where a: "client_absorb f c1 = (a, c2)" by fastforce
    have ok2: "client_ok c2"
      using client_ok_absorb [OF ok1 read_transport_frame_payload [OF x [unfolded Ret]]] a by simp
    have "bytes_left c2 < bytes_left c"
      using read_transport_frame_progress [OF x [unfolded Ret]] client_absorb_bytes_left [OF a] by simp
    from less.hyps [OF this ok2] x Ret a ok1 ok2 show ?thesis
      by (auto simp: recv_frame_with_deadline.simps [of L d c] split: outcome.splits option.splits)
  qed (use x ok1 in \<open>simp_all add: recv_frame_with_deadline.simps [of L d c]\<close>)
qed

lemma client_ok_writes: "client_ok c \<Longrightarrow> writes_only c w \<Longrightarrow> client_ok w"
  by (rule client_ok_net) (auto simp: writes_only_def client_ok_def ws_buffer_ok_def)

lemma client_ok_put: "client_ok c \<Longrightarrow> client_ok (snd (send_raw_with_flags L target flags payload c))"
proof -
  assume ok: "client_ok c"
  have "client_ok (snd (write_all fr c))" for fr by (rule client_ok_world [OF ok write_all_more])
  moreover have "client_ok (snd (send_binary m c))" for m
    by (simp add: send_binary_def client_ok_writes [OF ok ws_send_frame_only])
  ultimately show ?thesis using ok by (auto simp: send_raw_with_flags_def run_result_def Let_def split: sum.splits)
qed

text \<open>Every operation keeps the invariant, as long as HMAC-SHA256 gives 32 bytes.\<close>

interpretation wfc: client_object L "\<lambda>c. hmac_ok L \<longrightarrow> client_ok c" for L
proof unfold_locales
  show "hmac_ok L \<longrightarrow> client_ok (c\<lparr>session_key := Some k\<rparr>)"
    if "hmac_ok L \<longrightarrow> client_ok c" "derive_session_key L s n p = Inr k" for c s n p k
    using that derive_session_key_length [of L s n p k] by (auto simp: client_ok_def ws_buffer_ok_def)
  show "hmac_ok L \<longrightarrow> client_ok (snd (send_raw_with_flags L target flags payload c))"
    if "hmac_ok L \<longrightarrow> client_ok c" for c target flags payload
    using that client_ok_put by blast
  show "hmac_ok L \<longrightarrow> client_ok (snd (recv_frame_with_deadline L deadline c))"
    if "hmac_ok L \<longrightarrow> client_ok c" for c deadline
    using that client_ok_recv_frame by blast
qed (simp_all add: client_ok_def ws_buffer_ok_def now_def system_now_def)

section \<open>What a program can do with a client\<close>

text \<open>The public operations, and the object after a call, however the call ends.\<close>

datatype client_op =
    Connect | Close | SetDeviceId string
  | RegisterPlugin string PluginManifest | RegisterWithToken string PluginManifest string
  | RegisterFull string string PluginManifest string
  | Send string Envelope | SendRaw string bytes | SendRawWithFlags string u16 bytes | SendFragmented string bytes u64
  | RecvFrame | Recv | RecvTimeout int
  | Subscribe "string list" | Unsubscribe "string list" | AckEvent string | PublishEvent string bytes u32
  | SendAction string bytes u32 | SendActionStreaming string u32
  | SendRequestChunk string u32 bytes bool | SendResponseChunk string u32 bytes | CloseSession string string
  | SendCommand string string bytes | Ping | SendAudioChunk string AudioStreamChunk | SendRawAudio string bytes

fun client_call :: "'l sdklib_scheme \<Rightarrow> client_op \<Rightarrow> 'a client_scheme \<Rightarrow> 'a client_scheme" where
  "client_call L Connect c = snd (client_connect c)"
| "client_call L Close c = snd (client_close c)"
| "client_call L (SetDeviceId did) c = set_device_id did c"
| "client_call L (RegisterPlugin pid m) c = snd (register_plugin L pid m c)"
| "client_call L (RegisterWithToken pid m jwt) c = snd (register_with_token L pid m jwt c)"
| "client_call L (RegisterFull pid v m jwt) c = snd (register_full L pid v m jwt c)"
| "client_call L (Send t env) c = snd (send L t env c)"
| "client_call L (SendRaw t p) c = snd (send_raw L t p c)"
| "client_call L (SendRawWithFlags t fl p) c = snd (send_raw_with_flags L t fl p c)"
| "client_call L (SendFragmented t p cs) c = snd (send_fragmented L t p cs c)"
| "client_call L RecvFrame c = snd (recv_frame L c)"
| "client_call L Recv c = snd (recv L c)"
| "client_call L (RecvTimeout ms) c = snd (recv_timeout L ms c)"
| "client_call L (Subscribe ts) c = snd (subscribe L ts c)"
| "client_call L (Unsubscribe ts) c = snd (unsubscribe L ts c)"
| "client_call L (AckEvent eid) c = snd (ack_event L eid c)"
| "client_call L (PublishEvent e p ms) c = snd (publish_event L e p ms c)"
| "client_call L (SendAction a p ms) c = snd (send_action L a p ms c)"
| "client_call L (SendActionStreaming a ms) c = snd (send_action_streaming L a ms c)"
| "client_call L (SendRequestChunk aid sq d fin) c = snd (send_request_chunk L aid sq d fin c)"
| "client_call L (SendResponseChunk aid sq d) c = snd (send_response_chunk L aid sq d c)"
| "client_call L (CloseSession aid why) c = snd (close_session L aid why c)"
| "client_call L (SendCommand cid cmd p) c = snd (send_command L cid cmd p c)"
| "client_call L Ping c = snd (ping L c)"
| "client_call L (SendAudioChunk t chunk) c = snd (send_audio_chunk L t chunk c)"
| "client_call L (SendRawAudio t d) c = snd (send_raw_audio L t d c)"

text \<open>What an operation may do to the secret and the key.\<close>

fun registers :: "client_op \<Rightarrow> string option" where
  "registers (RegisterPlugin pid m) = Some pid"
| "registers (RegisterWithToken pid m jwt) = Some pid"
| "registers (RegisterFull pid v m jwt) = Some pid"
| "registers _ = None"

definition same_key :: "'a client_scheme \<Rightarrow> 'a client_scheme \<Rightarrow> bool" where
  "same_key c c' \<longleftrightarrow> secret c' = secret c \<and> session_key c' = session_key c"

lemma same_key_session: "same_session c c' \<Longrightarrow> same_key c c'"
  by (simp add: same_session_def same_key_def)

lemma same_key_trans: "same_key a b \<Longrightarrow> same_key b c \<Longrightarrow> same_key a c"
  by (simp add: same_key_def)

interpretation key: client_sender L "same_key c0" for L c0
proof unfold_locales
  show "same_key c0 c \<Longrightarrow> same_key c0 (snd (send_raw_with_flags L target flags payload c))" for c target flags payload
    by (erule same_key_trans) (rule same_key_session [OF same_session_put])
  show "same_key c0 c \<Longrightarrow> same_key c0 (snd (recv_frame_with_deadline L deadline c))" for c deadline
    by (erule same_key_trans) (rule same_key_session [OF same_session_recv_frame [OF prod.collapse [symmetric]]])
qed (simp_all add: same_key_def now_def system_now_def)

definition key_step :: "'l sdklib_scheme \<Rightarrow> string option \<Rightarrow> 'a client_scheme \<Rightarrow> 'a client_scheme \<Rightarrow> bool" where
  "key_step L reg c c' \<longleftrightarrow> secret c' = secret c \<and> (session_key c' = session_key c \<or>
     (\<exists>pid nonce k. reg = Some pid \<and> secret c \<noteq> [] \<and> nonce \<noteq> [] \<and> derive_session_key L (secret c) nonce pid = Inr k \<and> session_key c' = Some k))"

lemma key_step_same: "same_key c c' \<Longrightarrow> key_step L reg c c'"
  by (simp add: key_step_def same_key_def)

lemma register_full_key: "key_step L (Some pid) c (snd (register_full L pid v m jwt c))"
proof -
  obtain r c' where r: "register_full L pid v m jwt c = (r, c')" by fastforce
  show ?thesis
  proof (cases "\<exists>ack. r = Ret ack")
    case True
    then obtain ack where "register_full L pid v m jwt c = (Ret ack, c')" using r by blast
    from register_full_installs [OF this] r show ?thesis by (auto simp: key_step_def split: if_splits)
  next
    case False
    then have "same_session c c'" by (intro register_full_fails [OF r]) blast
    with r show ?thesis by (simp add: key_step_same same_key_session)
  qed
qed

lemma same_key_close: "same_key c (snd (client_close c))"
proof -
  obtain r w where s: "ws_send_frame OP_CLOSE [] c = (r, w)" by fastforce
  have "same_session c w" using ws_send_frame_only [of c OP_CLOSE "[]"] s by (intro same_session_net) (simp add: writes_only_def)
  then have "same_key c w" by (rule same_key_session)
  with s show ?thesis by (cases r) (simp_all add: client_close_def ws_close_def teardown_def same_key_def)
qed

lemma same_key_connect: "same_key c (snd (client_connect c))"
proof -
  obtain r c1 where c1: "client_close c = (r, c1)" by fastforce
  with same_key_close [of c] have "same_key c c1" by simp
  with c1 show ?thesis by (cases r) (auto simp: client_connect_def Let_def same_key_def)
qed

lemma client_call_key: "key_step L (registers op) c (client_call L op c)"
proof -
  have i: "same_key c c" by (simp add: same_key_def)
  have did: "same_key c (set_device_id did c)" for did by (simp add: set_device_id_def same_key_def)
  note calls = key.send [OF i] key.put [OF i] key.send_fragmented [OF i] key.get [OF i] key.recv [OF i]
    key.recv_timeout [OF i] key.publish_event [OF i] key.send_action [OF i] key.send_action_streaming [OF i] key.send_command [OF i]
    key.ping [OF i] key.one_way [OF i]
  show ?thesis
    by (cases op) (simp_all add: register_plugin_def register_with_token_def send_raw_def recv_frame_def register_full_key
        key_step_same calls did same_key_close same_key_connect)
qed

lemma client_ok_close: "client_ok c \<Longrightarrow> client_ok (snd (client_close c))"
proof -
  assume ok: "client_ok c"
  obtain r w where s: "ws_send_frame OP_CLOSE [] c = (r, w)" by fastforce
  have "writes_only c w" using ws_send_frame_only [of c OP_CLOSE "[]"] s by simp
  then have w: "client_ok w" by (rule client_ok_writes [OF ok])
  have shut: "client_ok (v\<lparr>tls := False, ws_open := False, ws_active := False\<rparr>)" "client_ok (v\<lparr>fd := -1\<rparr>)" if "client_ok v" for v :: "'a client_scheme"
    using that by (simp_all add: client_ok_def ws_buffer_ok_def)
  have shut2: "client_ok (v\<lparr>tls := False, ws_open := False, ws_active := False, fd := -1\<rparr>)" if "client_ok v" for v :: "'a client_scheme"
    using shut(2) [OF shut(1) [OF that]] .
  show ?thesis
    using s ok w by (cases r) (simp_all add: client_close_def ws_close_def teardown_def shut shut2)
qed

lemma client_close_inactive: "fst (client_close c) = Ret () \<Longrightarrow> \<not> ws_active (snd (client_close c))"
proof (cases "ws_close c")
  case (Pair r w)
  assume "fst (client_close c) = Ret ()"
  with Pair show ?thesis by (cases r) (simp_all add: client_close_def split: if_splits)
qed

lemma client_ok_connect: "client_ok c \<Longrightarrow> client_ok (snd (client_connect c))"
proof -
  assume ok: "client_ok c"
  obtain r c1 where c1: "client_close c = (r, c1)" by fastforce
  with client_ok_close [OF ok] have "client_ok c1" by simp
  with c1 client_close_inactive [of c] show ?thesis
    by (cases r) (auto simp: client_connect_def Let_def client_ok_def)
qed

lemma client_call_ok:
  assumes L: "hmac_ok L" and ok: "client_ok c"
  shows "client_ok (client_call L op c)"
proof -
  have i: "hmac_ok L \<longrightarrow> client_ok c" using ok by simp
  have did: "client_ok (set_device_id did c)" for did using ok by (simp add: set_device_id_def client_ok_def ws_buffer_ok_def)
  note calls = wfc.register_full [OF i] wfc.send [OF i] wfc.put [OF i] wfc.send_fragmented [OF i] wfc.get [OF i] wfc.recv [OF i]
    wfc.recv_timeout [OF i] wfc.publish_event [OF i] wfc.send_action [OF i] wfc.send_action_streaming [OF i] wfc.send_command [OF i]
    wfc.ping [OF i] wfc.one_way [OF i]
  show ?thesis
    by (cases op) (simp_all add: register_plugin_def register_with_token_def send_raw_def recv_frame_def
        calls L did client_ok_connect [OF ok] client_ok_close [OF ok])
qed

text \<open>
  The objects a program can hold: built by a constructor or by one of the connecting functions,
  moved, moved from, assigned to, or left by a call.
\<close>

inductive client_reach :: "'l sdklib_scheme \<Rightarrow> 'a client_scheme \<Rightarrow> bool" for L :: "'l sdklib_scheme" where
  from_path: "client_reach L (client_for_path path sec c)"
| from_fd: "client_reach L (client_for_fd f sec c)"
| by_path: "connect_path path c = (Ret (), c') \<Longrightarrow> client_reach L c'"
| by_secret: "connect_with_secret path sec c = (Ret (), c') \<Longrightarrow> client_reach L c'"
| by_env: "connect_from_env OS c = (Ret (), c') \<Longrightarrow> client_reach L c'"
| by_ws: "connect_ws (W :: wslib) E url jwt sec c = (Ret (), c') \<Longrightarrow> client_reach L c'"
| by_device: "connect_ws_device (W :: wslib) E url jwt did sec c = (Ret (), c') \<Longrightarrow> client_reach L c'"
| moved: "client_reach L c \<Longrightarrow> client_reach L (client_move c)"
| moved_from: "client_reach L c \<Longrightarrow> client_reach L (client_moved_from c)"
| assigned: "client_reach L self \<Longrightarrow> client_reach L c \<Longrightarrow> client_reach L (client_move_assign self c)"
| called: "client_reach L c \<Longrightarrow> client_reach L (client_call L op c)"

lemma constructed_ok: "client_ok (client_for_path path sec c)" "client_ok (client_for_fd f sec c)"
  by (simp_all add: client_for_path_def client_for_fd_def client_ok_def reasm_ok_def)

lemma connected_ok: "connect_path path c = (Ret (), c') \<Longrightarrow> client_ok c'" "connect_with_secret path sec c = (Ret (), c') \<Longrightarrow> client_ok c'"
  using client_ok_connect [OF constructed_ok(1)] by (metis connect_path_def connect_with_secret_def snd_conv)+

lemma connected_ws_ok: "connect_ws W E url jwt sec c = (Ret (), c') \<Longrightarrow> client_ok c'"
proof -
  assume a: "connect_ws W E url jwt sec c = (Ret (), c')"
  then obtain u c1 where u: "ws_connect W E u (ws_protocol jwt) (client_for_path [] sec c) = (Ret (), c1)" "c' = c1\<lparr>ws_active := True\<rparr>"
    by (auto simp: connect_ws_def run_result_def andthen_Ret split: sum.splits)
  have w: "ws_buffer_ok c1" "net.more c1 = net.more (client_for_path [] sec c)" using ws_connect_buffer [OF u(1)] by simp_all
  have "client_ok c1" "fd c1 = - 1"
    using client_ok_net [OF constructed_ok(1) w(2)] w by (simp, cases c, cases c1) (simp add: client_for_path_def)
  with u(2) w(1) show ?thesis by (simp add: client_ok_def ws_buffer_ok_def)
qed

lemma client_reach_ok: "client_reach L c \<Longrightarrow> hmac_ok L \<Longrightarrow> client_ok c"
proof (induction rule: client_reach.induct)
  case (by_env OS c c')
  then show ?case using connected_ok by (auto simp: connect_from_env_def Let_def split: prod.splits if_splits)
next
  case (by_device W E url jwt did sec c c')
  then show ?case using connected_ws_ok
    by (fastforce simp: connect_ws_device_def andthen_Ret set_device_id_def client_ok_def ws_buffer_ok_def)
qed (auto intro: constructed_ok connected_ok connected_ws_ok client_call_ok
    simp: client_move_def client_moved_from_def client_move_assign_def, auto simp: client_ok_def ws_buffer_ok_def)

section \<open>The memory held for incomplete messages\<close>

definition buffered_total :: "reassembly \<Rightarrow> nat" where
  "buffered_total tab = sum_list (map (\<lambda>(sid, buf). stored (fragments buf)) tab)"

lemma sum_list_bounded: "(\<And>x. x \<in> set xs \<Longrightarrow> f x \<le> k) \<Longrightarrow> sum_list (map f xs) \<le> length xs * (k :: nat)"
  by (induction xs) (simp, fastforce)

lemma buffered_total_bounded:
  assumes "reasm_ok tab"
  shows "buffered_total tab \<le> MAX_REASSEMBLY_STREAMS * MAX_PAYLOAD_SIZE"
proof -
  have "stored (fragments buf) \<le> MAX_PAYLOAD_SIZE" if "(sid, buf) \<in> set tab" for sid buf
    using assms that by (simp add: reasm_ok_def tbl_ok_def tbl_find_def buf_ok_def)
  then have "buffered_total tab \<le> length tab * MAX_PAYLOAD_SIZE"
    unfolding buffered_total_def by (intro sum_list_bounded) auto
  also have "\<dots> \<le> MAX_REASSEMBLY_STREAMS * MAX_PAYLOAD_SIZE" using assms by (simp add: reasm_ok_def tbl_size_def)
  finally show ?thesis .
qed

section \<open>Properties\<close>

text \<open>
  C11: The client object is always well-formed. Take any client a program can hold: built by a
  constructor or by a connecting function over any environment, then moved, assigned or used by any
  sequence of the public operations, each of which may return, throw or block, while the peer sends
  anything at all. Its two transports are never active together, a session key has 32 bytes, the
  next stream id is not 0, the WebSocket buffer holds at most a message and a chunk, every
  incomplete stream is within its limits, and the incomplete messages together hold at most 64 MiB.
\<close>

theorem client_type_safe:
  assumes "hmac_ok L" "client_reach L c"
  shows "(ws_active c \<longrightarrow> fd c < 0 \<and> length (read_buf c) \<le> WS_MAX_MESSAGE_SIZE + 4096) \<and>
    (\<forall>k. session_key c = Some k \<longrightarrow> length k = 32) \<and> next_stream_id c \<noteq> 0 \<and> reasm_ok (reassembly c) \<and>
    buffered_total (reassembly c) \<le> 64 * 1024 * 1024"
proof -
  have ok: "client_ok c" by (rule client_reach_ok [OF assms(2,1)])
  then have "buffered_total (reassembly c) \<le> MAX_REASSEMBLY_STREAMS * MAX_PAYLOAD_SIZE"
    by (intro buffered_total_bounded) (simp add: client_ok_def)
  with ok show ?thesis by (simp add: client_ok_def ws_buffer_ok_def MAX_REASSEMBLY_STREAMS_def MAX_PAYLOAD_SIZE_def)
qed

text \<open>
  Witness: a client on a descriptor sends a fragmented message, receives, and is moved. The stream
  id it would draw next is not 0.
\<close>

theorem client_type_safe_witness:
  "next_stream_id (client_move (client_call (demo_sdk (envelope NoPayload)) RecvFrame
     (client_call (demo_sdk (envelope NoPayload)) (SendFragmented ''kernel'' [1, 2, 3] 2)
       (client_for_fd 3 [7] (demo_client [RData [1, 2]] []))))) \<noteq> 0"
proof -
  let ?L = "demo_sdk (envelope NoPayload)"
  have "client_reach ?L (client_move (client_call ?L RecvFrame (client_call ?L (SendFragmented ''kernel'' [1, 2, 3] 2)
      (client_for_fd 3 [7] (demo_client [RData [1, 2]] [])))))"
    by (intro client_reach.intros)
  from client_type_safe [OF demo_sdk_ok(1) this] show ?thesis by blast
qed

text \<open>
  C33: Registration installs the session key, and no other operation does. When \<open>register_full\<close>
  returns, on either transport, and both the client's secret and the nonce of the acknowledgement
  are non-empty, the client is secured with the key derived from its own secret, that nonce and the
  plugin id; with an empty secret or nonce it keeps the key state it had; the secret and the device id
  do not change. And whatever public operation is called, however it ends, it leaves the secret
  alone, and it changes the key only when it is one of the three registrations, the secret is not
  empty, and the new key is derived from the secret, a non-empty nonce and the plugin id it was
  given. (Moving and move assignment make another object of it and are not operations here.)
\<close>

theorem register_installs_key:
  "(\<forall>ack c'. register_full L plugin_id version manifest jwt_token c = (Ret ack, c') \<longrightarrow>
      secret c' = secret c \<and> device_id c' = device_id c \<and>
      (if secret c \<noteq> [] \<and> ak_session_nonce ack \<noteq> []
       then \<exists>k. derive_session_key L (secret c) (ak_session_nonce ack) plugin_id = Inr k \<and> session_key c' = Some k
       else session_key c' = session_key c)) \<and>
   secret (client_call L op c) = secret c \<and>
   (session_key (client_call L op c) = session_key c \<or>
      (\<exists>pid nonce k. registers op = Some pid \<and> secret c \<noteq> [] \<and> nonce \<noteq> [] \<and>
         derive_session_key L (secret c) nonce pid = Inr k \<and> session_key (client_call L op c) = Some k))"
  using register_full_installs client_call_key [of L op c] unfolding key_step_def by blast

theorem register_installs_key_witness:
  "\<exists>(L :: sdklib) (c :: client) mf ack c' k. register_full L ''echo'' ''1.0.0'' mf [] c = (Ret ack, c') \<and>
     derive_session_key L [7] [3] ''echo'' = Inr k \<and> session_key c' = Some k \<and> session_key (client_call L Recv c') = Some k"
proof -
  let ?a = "\<lparr>ak_accepted = True, ak_reject_reason = [], ak_granted_permissions = [], ak_session_nonce = [3]\<rparr>"
  let ?L = "demo_codec (\<lambda>e. []) (\<lambda>p. Some (envelope (M_plugin_register_ack ?a)))"
  obtain q where q: "pack_frame_raw ?L ''kernel'' (wire_flags (Some [7]) 0) [] (Some [7]) = Inr q"
    using demo_codec_pack [of "[]"] by simp blast
  obtain fr where fr: "pack_frame_raw ?L ''kernel'' (wire_flags (Some [7]) 0) [1] (Some [7]) = Inr fr"
    using demo_codec_pack [of "[1]"] by (simp add: MAX_PAYLOAD_SIZE_def) blast
  let ?c = "demo_client [RData fr] [WCount (length q)]"
  let ?mf = "\<lparr>mf_permissions = [], mf_actions = [], mf_events = [], mf_ipc_targets = [], mf_platforms = [], mf_action_specs = []\<rparr>"
  let ?e = "envelope (M_plugin_register \<lparr>rg_plugin_id = ''echo'', rg_version = ''1.0.0'', rg_manifest = ?mf, rg_jwt_token = [],
      rg_device_id = device_id ?c\<rparr>)"
  have c: "session_key ?c = Some [7]" "\<not> ws_active ?c" "writes ?c = WCount (length q) # []" "stream_of (reads ?c) = fr @ []" "quiet (Suc 0) ?c"
    using demo_quiet [of "[RData fr]" 1] pack_frame_raw_nonempty [OF fr] by (simp_all add: demo_client_def)
  have q': "pack_frame_raw ?L ''kernel'' (wire_flags (Some [7]) 0) (SerializeToString ?L ?e) (Some [7]) = Inr q" by (simp add: q)
  have p: "ParseFromArray ?L [1] = Some (envelope (M_plugin_register_ack ?a))" by simp
  obtain c1 c2 where x: "send ?L ''kernel'' ?e ?c = (Ret (), c1)" "recv ?L c1 = (Ret (envelope (M_plugin_register_ack ?a)), c2)" "same_session ?c c2"
    by (rule demo_exchange [OF c(1,2) demo_codec_ok q' c(3) fr c(4,5) p])
  have sec: "secret c2 = [7]" "secret ?c = [7]" using x(3) by (simp_all add: same_session_def demo_client_def)
  obtain k where k: "derive_session_key ?L [7] [3] ''echo'' = Inr k"
    by (simp add: derive_session_key_def hkdf_extract_def hkdf_expand_def hmac_sha256_def demo_codec_def demo_sdk_def demo_lib_def)
  have r: "register_full ?L ''echo'' ''1.0.0'' ?mf [] ?c = (Ret ?a, c2\<lparr>session_key := Some k\<rparr>)"
    using x k by (simp add: register_full_def sec)
  let ?c' = "c2\<lparr>session_key := Some k\<rparr>"
  have "session_key ?c' = Some k"
    using register_installs_key [of ?L "''echo''" "''1.0.0''" ?mf "[]" ?c Recv] r k sec by simp
  moreover have "session_key (client_call ?L Recv ?c') = session_key ?c'"
    using register_installs_key [of ?L "''echo''" "''1.0.0''" ?mf "[]" ?c' Recv] by simp
  ultimately show ?thesis using r k by metis
qed

end
