(* ===== verification/Vyn_Actions.thy ===== *)
theory Vyn_Actions
  imports Vyn_Client
begin

text \<open>
  The result of one action and the envelope that carries it (\<^verbatim>\<open>include/vynkor/concurrent.hpp\<close>,
  \<open>response_envelope\<close> of \<^verbatim>\<open>src/concurrent.cpp\<close>); used by the confirmation gate and by the
  concurrent loop.
\<close>

record ActionResult =
  ar_ok :: bool
  ar_data_json :: bytes
  ar_error :: string

definition ActionResult_Ok :: "bytes \<Rightarrow> ActionResult" where
  "ActionResult_Ok d = \<lparr>ar_ok = True, ar_data_json = d, ar_error = []\<rparr>"

definition ActionResult_Err :: "string \<Rightarrow> ActionResult" where
  "ActionResult_Err m = \<lparr>ar_ok = False, ar_data_json = [], ar_error = m\<rparr>"

definition response_envelope :: "string \<Rightarrow> ActionResult \<Rightarrow> Envelope" where
  "response_envelope action_id result = envelope (M_action_response
     (if ar_ok result
      then \<lparr>rs_action_id = action_id, rs_status = ACTION_OK, rs_data_json = ar_data_json result, rs_error = []\<rparr>
      else \<lparr>rs_action_id = action_id, rs_status = ACTION_ERROR, rs_data_json = [], rs_error = ar_error result\<rparr>))"

text \<open>The id of the request that an envelope answers.\<close>

definition answers :: "Envelope \<Rightarrow> string option" where
  "answers env = (case en_payload env of M_action_response r \<Rightarrow> Some (rs_action_id r) | _ \<Rightarrow> None)"

lemma answers_response_envelope [simp]: "answers (response_envelope aid r) = Some aid"
  by (simp add: answers_def response_envelope_def)

lemma ActionResult_simps [simp]:
  "ar_ok (ActionResult_Ok d)" "ar_data_json (ActionResult_Ok d) = d"
  "\<not> ar_ok (ActionResult_Err m)" "ar_error (ActionResult_Err m) = m"
  by (simp_all add: ActionResult_Ok_def ActionResult_Err_def)

end
