(* ===== verification/Vyn_Json.thy ===== *)
theory Vyn_Json
  imports Vyn_Prelude
begin

text \<open>
  The two JSON helpers of \<^verbatim>\<open>src/confirmation_gate.cpp\<close>: \<open>json_escape\<close> writes a string
  literal's contents, \<open>json_find_string\<close> reads the string value of a key. Strings are the bytes of
  \<^verbatim>\<open>std::string\<close>. The result of \<open>json_find_string\<close> is an exception (from
  \<^verbatim>\<open>std::stoul\<close>), no value, or the value.
\<close>

section \<open>Escaping\<close>

definition hex_digit :: "nat \<Rightarrow> char" where
  "hex_digit n = (if n < 10 then char_of (48 + n) else char_of (87 + n))"

text \<open>\<^verbatim>\<open>%04x\<close> of a value below \<open>2 ^ 16\<close>.\<close>

definition hex4 :: "nat \<Rightarrow> string" where
  "hex4 n = [hex_digit (n div 4096 mod 16), hex_digit (n div 256 mod 16), hex_digit (n div 16 mod 16), hex_digit (n mod 16)]"

definition BACKSLASH :: char where "BACKSLASH = CHR 0x5C"
definition QUOTE :: char where "QUOTE = CHR 0x22"

definition escape_char :: "char \<Rightarrow> string" where
  "escape_char c =
     (if c = QUOTE then [BACKSLASH, QUOTE]
      else if c = BACKSLASH then [BACKSLASH, BACKSLASH]
      else if c = CHR 0x08 then [BACKSLASH, CHR ''b'']
      else if c = CHR 0x0C then [BACKSLASH, CHR ''f'']
      else if c = CHR 0x0A then [BACKSLASH, CHR ''n'']
      else if c = CHR 0x0D then [BACKSLASH, CHR ''r'']
      else if c = CHR 0x09 then [BACKSLASH, CHR ''t'']
      else if (of_char c :: nat) < 0x20 then BACKSLASH # CHR ''u'' # hex4 (of_char c)
      else [c])"

definition json_escape :: "string \<Rightarrow> string" where
  "json_escape s = concat (map escape_char s)"

section \<open>Reading a value\<close>

text \<open>
  \<^verbatim>\<open>std::stoul(s, nullptr, 16)\<close>: leading white space, a sign, an optional \<^verbatim>\<open>0x\<close>, then hex
  digits up to the first other character. A prefix with no digit after it reads as the 0 of the
  prefix. A minus sign negates modulo \<open>2 ^ 64\<close>; the caller keeps the low 32 bits.
\<close>

definition is_space :: "char \<Rightarrow> bool" where
  "is_space c \<longleftrightarrow> c = CHR '' '' \<or> 9 \<le> (of_char c :: nat) \<and> (of_char c :: nat) \<le> 13"

definition hex_value :: "char \<Rightarrow> nat option" where
  "hex_value c = (let n = of_char c in
     if 48 \<le> n \<and> n \<le> 57 then Some (n - 48)
     else if 97 \<le> n \<and> n \<le> 102 then Some (n - 87)
     else if 65 \<le> n \<and> n \<le> 70 then Some (n - 55)
     else None)"

fun hex_digits :: "nat \<Rightarrow> string \<Rightarrow> nat" where
  "hex_digits acc [] = acc"
| "hex_digits acc (c # cs) = (case hex_value c of None \<Rightarrow> acc | Some d \<Rightarrow> hex_digits (16 * acc + d) cs)"

definition stoul16 :: "string \<Rightarrow> u64 result" where
  "stoul16 s =
     (let s = dropWhile is_space s;
          neg = (s \<noteq> [] \<and> hd s = CHR ''-'');
          s = (if s \<noteq> [] \<and> (hd s = CHR ''-'' \<or> hd s = CHR ''+'') then tl s else s);
          prefixed = (take 2 s = ''0x'' \<or> take 2 s = ''0X'');
          body = (if prefixed then drop 2 s else s) in
      if body = [] \<or> hex_value (hd body) = None then
        if prefixed then Inr 0 else Inl (StdInvalidArgument ''stoul'')
      else let v = word_of_nat (hex_digits 0 body) in Inr (if neg then - v else v))"

text \<open>The UTF-8 bytes appended for one escape.\<close>

definition utf8_of :: "u32 \<Rightarrow> string" where
  "utf8_of cp =
     (let ch = (\<lambda>w :: u32. char_of (unat (ucast w :: byte))) in
      if cp < 0x80 then [ch cp]
      else if cp < 0x800 then [ch (0xC0 OR drop_bit 6 cp), ch (0x80 OR (cp AND 0x3F))]
      else [ch (0xE0 OR drop_bit 12 cp), ch (0x80 OR (drop_bit 6 cp AND 0x3F)), ch (0x80 OR (cp AND 0x3F))])"

text \<open>The loop that collects the value, on the text after the opening quote.\<close>

definition simple_escape :: "char \<Rightarrow> char option" where
  "simple_escape c =
     (if c = QUOTE then Some QUOTE else if c = BACKSLASH then Some BACKSLASH else if c = CHR ''/'' then Some (CHR ''/'')
      else if c = CHR ''b'' then Some (CHR 0x08) else if c = CHR ''f'' then Some (CHR 0x0C)
      else if c = CHR ''n'' then Some (CHR 0x0A) else if c = CHR ''r'' then Some (CHR 0x0D)
      else if c = CHR ''t'' then Some (CHR 0x09) else None)"

function read_value :: "string \<Rightarrow> string \<Rightarrow> string option result" where
  "read_value [] value = Inr None"
| "read_value (c # cs) value =
     (if c = QUOTE then Inr (Some value)
      else if c \<noteq> BACKSLASH then read_value cs (value @ [c])
      else (case cs of
          [] \<Rightarrow> Inr None
        | e # es \<Rightarrow>
            if e = CHR ''u'' then
              if length es < 4 then Inr None
              else bind_result (stoul16 (take 4 es)) (\<lambda>cp. read_value (drop 4 es) (value @ utf8_of (ucast cp)))
            else (case simple_escape e of
                None \<Rightarrow> Inr None
              | Some x \<Rightarrow> read_value es (value @ [x]))))"
  by pat_completeness auto
termination by (relation "measure (\<lambda>(cs, v). length cs)") auto

text \<open>\<^verbatim>\<open>json.find(needle, pos)\<close>.\<close>

definition find_sub :: "string \<Rightarrow> string \<Rightarrow> nat \<Rightarrow> nat option" where
  "find_sub json needle pos = find (\<lambda>i. starts_with needle (drop i json)) [pos..<Suc (length json)]"

definition is_blank :: "char \<Rightarrow> bool" where
  "is_blank c \<longleftrightarrow> c = CHR '' '' \<or> c = CHR 0x09"

text \<open>
  The text after the opening quote of the value, when the text after a key is optional blanks, a
  colon, optional blanks and a quote.
\<close>

definition value_start :: "string \<Rightarrow> string option" where
  "value_start s = (case dropWhile is_blank s of
      [] \<Rightarrow> None
    | c # cs \<Rightarrow> if c \<noteq> CHR '':'' then None
        else (case dropWhile is_blank cs of [] \<Rightarrow> None | q # qs \<Rightarrow> if q = QUOTE then Some qs else None))"

lemma find_sub_Some:
  "find_sub json needle pos = Some i \<longleftrightarrow> pos \<le> i \<and> i \<le> length json \<and> starts_with needle (drop i json) \<and>
     (\<forall>j. pos \<le> j \<and> j < i \<longrightarrow> \<not> starts_with needle (drop j json))"
proof
  assume "find_sub json needle pos = Some i"
  then obtain k where k: "k < length [pos..<Suc (length json)]" "starts_with needle (drop ([pos..<Suc (length json)] ! k) json)"
    "i = [pos..<Suc (length json)] ! k" "\<forall>j<k. \<not> starts_with needle (drop ([pos..<Suc (length json)] ! j) json)"
    by (auto simp: find_sub_def find_Some_iff)
  have "\<not> starts_with needle (drop j json)" if "pos \<le> j" "j < i" for j
    using k(1,3) k(4) [rule_format, of "j - pos"] that by (simp del: upt_Suc)
  with k show "pos \<le> i \<and> i \<le> length json \<and> starts_with needle (drop i json) \<and> (\<forall>j. pos \<le> j \<and> j < i \<longrightarrow> \<not> starts_with needle (drop j json))"
    by (auto simp del: upt_Suc)
next
  assume "pos \<le> i \<and> i \<le> length json \<and> starts_with needle (drop i json) \<and> (\<forall>j. pos \<le> j \<and> j < i \<longrightarrow> \<not> starts_with needle (drop j json))"
  then show "find_sub json needle pos = Some i"
    unfolding find_sub_def find_Some_iff by (intro exI [of _ "i - pos"]) (auto simp del: upt_Suc)
qed

function json_find_from :: "string \<Rightarrow> string \<Rightarrow> nat \<Rightarrow> string option result" where
  "json_find_from json key pos =
     (case find_sub json (QUOTE # key @ [QUOTE]) pos of
        None \<Rightarrow> Inr None
      | Some i \<Rightarrow>
          let key_start_ok = (i = 0 \<or> json ! (i - 1) = CHR ''{'' \<or> json ! (i - 1) = CHR '','');
              after = i + length (QUOTE # key @ [QUOTE]) in
          if \<not> key_start_ok then json_find_from json key after
          else (case value_start (drop after json) of
              None \<Rightarrow> json_find_from json key after
            | Some s \<Rightarrow> read_value s []))"
  by pat_completeness auto
termination
  by (relation "measure (\<lambda>(json, key, pos). Suc (length json) - pos)") (auto simp: find_sub_Some)

declare json_find_from.simps [simp del]

definition json_find_string :: "string \<Rightarrow> string \<Rightarrow> string option result" where
  "json_find_string json key = json_find_from json key 0"

section \<open>Reading what was written\<close>

lemma hex_value_digit: "n < 16 \<Longrightarrow> hex_value (hex_digit n) = Some n"
  by (auto simp: hex_value_def hex_digit_def Let_def)

lemma zero_digit: "hex_digit 0 = CHR ''0''"
  by code_simp

lemma stoul16_hex4:
  assumes "n < 256"
  shows "stoul16 (hex4 n) = Inr (word_of_nat n)"
proof -
  have h: "hex4 n = CHR ''0'' # CHR ''0'' # [hex_digit (n div 16 mod 16), hex_digit (n mod 16)]"
    using assms by (simp add: hex4_def zero_digit)
  have z: "\<not> is_space (CHR ''0'')" "hex_value (CHR ''0'') = Some 0" by code_simp+
  have "n div 16 mod 16 = n div 16" using assms by simp
  then have "16 * (n div 16 mod 16) + n mod 16 = n" by simp
  then have "hex_digits 0 (hex4 n) = n" by (simp add: h z hex_value_digit)
  then show ?thesis by (simp add: stoul16_def h z Let_def)
qed

lemma utf8_of_small:
  assumes "n < 128"
  shows "utf8_of (ucast (word_of_nat n :: u64)) = [char_of n]"
proof -
  have a: "unat (word_of_nat n :: u64) = n" using assms by (simp add: unat_of_nat)
  have b: "(ucast (word_of_nat n :: u64) :: u32) = word_of_nat n"
    using a by (simp add: word_unat_eq_iff unat_of_nat unsigned_ucast_eq unsigned_take_bit_eq take_bit_eq_mod)
  have c: "unat (word_of_nat n :: u32) = n" using assms by (simp add: unat_of_nat)
  have d: "unat (ucast (word_of_nat n :: u32) :: byte) = n" using assms c by (simp add: unsigned_ucast_eq unsigned_take_bit_eq take_bit_nat_eq_self)
  have "(word_of_nat n :: u32) < 0x80" unfolding word_less_nat_alt c using assms by simp
  then show ?thesis unfolding b utf8_of_def Let_def d by simp
qed

lemma char_simps: "QUOTE \<noteq> BACKSLASH" "CHR ''u'' \<noteq> QUOTE" "CHR ''u'' \<noteq> BACKSLASH"
  by code_simp+

lemma simple_escape_simps:
  "simple_escape QUOTE = Some QUOTE" "simple_escape BACKSLASH = Some BACKSLASH" "simple_escape (CHR ''b'') = Some (CHR 0x08)"
  "simple_escape (CHR ''f'') = Some (CHR 0x0C)" "simple_escape (CHR ''n'') = Some (CHR 0x0A)"
  "simple_escape (CHR ''r'') = Some (CHR 0x0D)" "simple_escape (CHR ''t'') = Some (CHR 0x09)"
  by code_simp+

lemma read_value_escape:
  "simple_escape e = Some x \<Longrightarrow> e \<noteq> CHR ''u'' \<Longrightarrow> read_value (BACKSLASH # e # cs) acc = read_value cs (acc @ [x])"
  using char_simps(1) by auto

lemma read_value_escape_char: "read_value (escape_char c @ rest) acc = read_value rest (acc @ [c])"
proof -
  consider "c = QUOTE" | "c = BACKSLASH" | "c = CHR 0x08" | "c = CHR 0x0C" | "c = CHR 0x0A" | "c = CHR 0x0D" | "c = CHR 0x09"
    | "escape_char c = BACKSLASH # CHR ''u'' # hex4 (of_char c)" "(of_char c :: nat) < 0x20"
    | "escape_char c = [c]" "c \<noteq> QUOTE" "c \<noteq> BACKSLASH"
    unfolding escape_char_def by argo
  then show ?thesis
  proof cases
    case 8
    have l: "length (hex4 (of_char c)) = 4" by (simp add: hex4_def)
    have "read_value (BACKSLASH # CHR ''u'' # hex4 (of_char c) @ rest) acc = read_value rest (acc @ utf8_of (ucast (word_of_nat (of_char c) :: u64)))"
      using char_simps(1) 8(2) l by (simp add: stoul16_hex4)
    with 8 show ?thesis using utf8_of_small [of "of_char c"] by simp
  next
    case 9
    then show ?thesis by simp
  qed (simp_all add: escape_char_def QUOTE_def BACKSLASH_def simple_escape_def)
qed

lemma read_value_after_escape: "read_value (json_escape s @ txt) acc = read_value txt (acc @ s)"
proof (induction s arbitrary: acc)
  case (Cons c s)
  then show ?case using read_value_escape_char [of c "json_escape s @ txt" acc] by (simp add: json_escape_def)
qed (simp add: json_escape_def)

text \<open>
  A text that starts with a number for \<^verbatim>\<open>std::stoul\<close>: after blanks and a sign there is a hex digit;
  it throws on every other text.
\<close>

definition starts_number :: "string \<Rightarrow> bool" where
  "starts_number s \<longleftrightarrow> (\<exists>ws sign d ds. s = ws @ sign @ d # ds \<and> (\<forall>c \<in> set ws. is_space c) \<and> sign \<in> {[], ''-'', ''+''} \<and> hex_value d \<noteq> None)"

lemma stoul16_throws:
  assumes "\<not> starts_number s"
  shows "stoul16 s = Inl (StdInvalidArgument ''stoul'')"
proof -
  define t where "t = dropWhile is_space s"
  define sign where "sign = (if t \<noteq> [] \<and> (hd t = CHR ''-'' \<or> hd t = CHR ''+'') then [hd t] else [])"
  define u where "u = (if t \<noteq> [] \<and> (hd t = CHR ''-'' \<or> hd t = CHR ''+'') then tl t else t)"
  have "s = takeWhile is_space s @ sign @ u" "sign \<in> {[], ''-'', ''+''}"
    using takeWhile_dropWhile_id [of is_space s] by (auto simp: t_def sign_def u_def)
  with assms have none: "hex_value d = None" if "u = d # ds" for d ds
    using that set_takeWhileD unfolding starts_number_def by metis
  have zero: "hex_value (CHR ''0'') = Some 0" by code_simp
  have pre: "\<not> (take 2 u = ''0x'' \<or> take 2 u = ''0X'')"
    using none zero by (cases u) auto
  have "u = [] \<or> hex_value (hd u) = None" using none by (cases u) auto
  with pre show ?thesis by (simp add: stoul16_def Let_def t_def [symmetric] u_def [symmetric])
qed

lemma read_value_json_escape: "read_value (json_escape s @ QUOTE # rest) acc = Inr (Some (acc @ s))"
  by (simp add: read_value_after_escape)

text \<open>The value of the first key of an object; then for a value written with \<open>json_escape\<close>.\<close>

lemma json_find_value:
  "json_find_string (CHR ''{'' # QUOTE # key @ [QUOTE] @ CHR '':'' # QUOTE # txt) key = read_value txt []"
    (is "json_find_string ?json key = _")
proof -
  let ?needle = "QUOTE # key @ [QUOTE]"
  have n: "find_sub ?json ?needle 0 = Some 1"
  proof -
    have "\<not> starts_with ?needle (drop j ?json)" if "j < 1" for j
      using that by (simp add: starts_with_def QUOTE_def)
    then show ?thesis by (simp add: find_sub_Some) (simp add: starts_with_def)
  qed
  have d: "drop (1 + length ?needle) ?json = CHR '':'' # QUOTE # txt" by simp
  have v: "value_start (CHR '':'' # QUOTE # txt) = Some txt"
    by (simp add: value_start_def is_blank_def QUOTE_def)
  show ?thesis
    unfolding json_find_string_def json_find_from.simps [of ?json key 0] n option.case Let_def d v by simp
qed

lemma json_find_first:
  "json_find_string (CHR ''{'' # QUOTE # key @ [QUOTE] @ CHR '':'' # QUOTE # json_escape v @ QUOTE # rest) key = Inr (Some v)"
  using json_find_value [of key "json_escape v @ QUOTE # rest"] by (simp add: read_value_json_escape)

end
