(* ===== verification/Vyn_Gate.thy ===== *)
theory Vyn_Gate
  imports Vyn_Actions Vyn_Json
begin

text \<open>
  \<open>ConfirmationGate\<close> of \<^verbatim>\<open>src/confirmation_gate.cpp\<close>: construction, the manifest entries, the
  allowlist, the pending table with its lifetime, the routing of a request, and the two caller-side
  helpers. The record \<open>gate\<close> holds the members of the class and, after them, the environment it
  reads: the steady clock in nanoseconds, the system clock in milliseconds, and the process-wide
  counter of \<open>next_seq\<close>. Each public operation takes the mutex once around its access to the
  table, so an interleaving of concurrent calls is a sequence of the operations below.
\<close>

section \<open>State\<close>

record PendingAction =
  pa_action :: string
  pa_params :: bytes
  pa_caller_plugin_id :: string
  pa_created_at :: int

record gate =
  gt_op :: string
  gt_description :: string
  gt_params_schema :: string
  gt_risk :: ActionRisk
  gt_confirm_callers :: "string list"
  gt_pending_ttl :: int
  gt_pending :: "(string, PendingAction) table"
  gt_clock :: "nat \<Rightarrow> int"
  gt_ticks :: nat
  gt_millis :: "nat \<Rightarrow> int"
  gt_mticks :: nat
  gt_seq :: u64

definition DEFAULT_PENDING_TTL :: int where "DEFAULT_PENDING_TTL = 300000"

definition steady_now :: "gate \<Rightarrow> int \<times> gate" where
  "steady_now g = (gt_clock g (gt_ticks g), g\<lparr>gt_ticks := Suc (gt_ticks g)\<rparr>)"

definition unix_millis :: "gate \<Rightarrow> u64 \<times> gate" where
  "unix_millis g = (word_of_int (gt_millis g (gt_mticks g)), g\<lparr>gt_mticks := Suc (gt_mticks g)\<rparr>)"

definition next_seq :: "gate \<Rightarrow> u64 \<times> gate" where
  "next_seq g = (gt_seq g, g\<lparr>gt_seq := gt_seq g + 1\<rparr>)"

section \<open>Construction\<close>

text \<open>\<^verbatim>\<open>std::isalnum\<close> in the C locale.\<close>

definition is_alnum :: "char \<Rightarrow> bool" where
  "is_alnum c \<longleftrightarrow> (let n = (of_char c :: nat) in 48 \<le> n \<and> n \<le> 57 \<or> 65 \<le> n \<and> n \<le> 90 \<or> 97 \<le> n \<and> n \<le> 122)"

definition invalid :: "string \<Rightarrow> vyn_error" where
  "invalid why = StdInvalidArgument (''ConfirmationGate: '' @ why)"

definition ConfirmationGate :: "string \<Rightarrow> string \<Rightarrow> string \<Rightarrow> ActionRisk \<Rightarrow> string list \<Rightarrow> gate \<Rightarrow> gate result" where
  "ConfirmationGate op description params_schema risk confirm_callers env =
     (if op = [] then Inl (invalid ''operation name must not be empty'')
      else if \<not> list_all (\<lambda>c. is_alnum c \<or> c = CHR ''-'' \<or> c = CHR ''_'') op
      then Inl (invalid (''operation name may only contain ASCII alphanumerics, '' @ [CHR 0x27, CHR ''-'', CHR 0x27] @
        '' and '' @ [CHR 0x27, CHR ''_'', CHR 0x27]))
      else if starts_with ''request_'' op \<or> starts_with ''confirm_'' op
      then Inl (invalid (''operation name must not start with request_/confirm_ '' @ ''(would collide with the gate'' @ [CHR 0x27] @ ''s own action names)''))
      else if description = [] then Inl (invalid ''description must not be empty'')
      else if confirm_callers = [] then Inl (invalid ''confirm_callers must name at least one caller allowed to confirm'')
      else Inr (env\<lparr>gt_op := op, gt_description := description, gt_params_schema := params_schema, gt_risk := risk,
        gt_confirm_callers := confirm_callers, gt_pending_ttl := DEFAULT_PENDING_TTL, gt_pending := []\<rparr>))"

definition with_pending_ttl :: "int \<Rightarrow> gate \<Rightarrow> gate" where
  "with_pending_ttl ttl g = g\<lparr>gt_pending_ttl := ttl\<rparr>"

text \<open>The em dash of the two descriptions, in UTF-8.\<close>

definition EM_DASH :: string where "EM_DASH = [CHR 0xE2, CHR 0x80, CHR 0x94]"

definition PENDING_ID_SCHEMA :: string where
  "PENDING_ID_SCHEMA =
     (let q = (\<lambda>s. QUOTE # s @ [QUOTE]) in
      ''{'' @ q ''type'' @ '':'' @ q ''object'' @ '','' @ q ''properties'' @ '':{'' @ q ''pending_id'' @ '':{'' @ q ''type'' @ '':'' @ q ''string'' @ ''}},'' @
      q ''required'' @ '':['' @ q ''pending_id'' @ '']}'')"

definition manifest_entries :: "gate \<Rightarrow> string list \<times> ActionSpec list" where
  "manifest_entries g =
     (let request = ''request_'' @ gt_op g; confirm = ''confirm_'' @ gt_op g;
          request_spec = \<lparr>sp_name = request,
            sp_description = gt_description g @ '' '' @ EM_DASH @
              '' requests execution; the operation only runs after an approved caller confirms'' @ '' (requires_confirmation).'',
            sp_params_schema = gt_params_schema g, sp_risk = gt_risk g, sp_requires_confirmation = True\<rparr>;
          confirm_spec = \<lparr>sp_name = confirm,
            sp_description = gt_description g @ '' '' @ EM_DASH @
              '' executes a previously requested operation; only approved callers may invoke.'',
            sp_params_schema = PENDING_ID_SCHEMA, sp_risk = gt_risk g, sp_requires_confirmation = False\<rparr> in
      ([request, confirm], [request_spec, confirm_spec]))"

section \<open>The allowlist\<close>

definition caller_allowed :: "string \<Rightarrow> string \<Rightarrow> bool" where
  "caller_allowed caller allowed =
     (if length allowed > 2 \<and> drop (length allowed - 2) allowed = ''.*'' then
        let pre = take (length allowed - 2) allowed in
        starts_with pre caller \<and> length caller > length pre \<and> caller ! length pre = CHR ''.''
      else caller = allowed)"

definition may_confirm :: "gate \<Rightarrow> string \<Rightarrow> bool" where
  "may_confirm g caller = list_ex (caller_allowed caller) (gt_confirm_callers g)"

section \<open>The pending table\<close>

definition pending_count :: "gate \<Rightarrow> nat" where
  "pending_count g = tbl_size (gt_pending g)"

definition expired :: "int \<Rightarrow> gate \<Rightarrow> PendingAction \<Rightarrow> bool" where
  "expired t g p \<longleftrightarrow> t - pa_created_at p \<ge> gt_pending_ttl g * 1000000"

definition sweep_expired_locked :: "gate \<Rightarrow> gate" where
  "sweep_expired_locked g =
     (let (t, g) = steady_now g in g\<lparr>gt_pending := tbl_sweep (expired t g) (gt_pending g)\<rparr>)"

text \<open>\<^verbatim>\<open>std::map::emplace\<close> leaves an existing entry alone.\<close>

definition emplace :: "'k \<Rightarrow> 'v \<Rightarrow> ('k, 'v) table \<Rightarrow> ('k, 'v) table" where
  "emplace k v m = (case tbl_find m k of None \<Rightarrow> tbl_put k v m | Some _ \<Rightarrow> m)"

definition pending_name :: "u64 \<Rightarrow> u64 \<Rightarrow> string" where
  "pending_name ms seq = ''pending-'' @ to_string (unat ms) @ ''-'' @ to_string (unat seq)"

definition store_request :: "ActionRequest \<Rightarrow> gate \<Rightarrow> string \<times> gate" where
  "store_request req g =
     (let g = sweep_expired_locked g; (ms, g) = unix_millis g; (seq, g) = next_seq g;
          pid = pending_name ms seq; (t, g) = steady_now g;
          p = \<lparr>pa_action = rq_action req, pa_params = rq_params_json req,
               pa_caller_plugin_id = rq_caller_plugin_id req, pa_created_at = t\<rparr> in
      (pid, g\<lparr>gt_pending := emplace pid p (gt_pending g)\<rparr>))"

definition take_pending :: "string \<Rightarrow> gate \<Rightarrow> PendingAction option \<times> gate" where
  "take_pending pid g =
     (let g = sweep_expired_locked g in
      case tbl_find (gt_pending g) pid of
        None \<Rightarrow> (None, g)
      | Some p \<Rightarrow> (Some p, g\<lparr>gt_pending := tbl_erase pid (gt_pending g)\<rparr>))"

section \<open>Routing\<close>

definition not_found :: "string \<Rightarrow> Envelope list" where
  "not_found action_id = [envelope (M_action_response \<lparr>rs_action_id = action_id, rs_status = ACTION_NOT_FOUND,
     rs_data_json = [], rs_error = ''unknown action''\<rparr>)]"

text \<open>\<^verbatim>\<open>duration_cast<seconds>\<close> of milliseconds.\<close>

definition ttl_secs :: "gate \<Rightarrow> int" where
  "ttl_secs g = (let t = gt_pending_ttl g in if 0 \<le> t then t div 1000 else - ((- t) div 1000))"

definition request_data :: "gate \<Rightarrow> string \<Rightarrow> string \<Rightarrow> string" where
  "request_data g pid action =
     ''{'' @ [QUOTE] @ ''pending_id'' @ [QUOTE] @ '':'' @ [QUOTE] @ json_escape pid @
     [QUOTE] @ '','' @ [QUOTE] @ ''action'' @ [QUOTE] @ '':'' @ [QUOTE] @ json_escape action @
     [QUOTE] @ '','' @ [QUOTE] @ ''ttl_secs'' @ [QUOTE] @ '':'' @ to_string_int (ttl_secs g) @ ''}''"

fun join_comma :: "string list \<Rightarrow> string" where
  "join_comma [] = []"
| "join_comma [x] = x"
| "join_comma (x # xs) = x @ '', '' @ join_comma xs"

text \<open>
  The executor is the user's callback; it may throw. The calls made to it are returned next to
  the result.
\<close>

definition route :: "ActionRequest \<Rightarrow> (bytes \<Rightarrow> ActionResult result) \<Rightarrow> gate \<Rightarrow> Envelope list result \<times> bytes list \<times> gate" where
  "route req executor g =
     (let action = rq_action req; reply = (\<lambda>r. [response_envelope (rq_action_id req) r]) in
      if starts_with ''request_'' action then
        if drop 8 action \<noteq> gt_op g then (Inr (not_found (rq_action_id req)), [], g)
        else let (pid, g) = store_request req g in
          (Inr (reply (ActionResult_Ok (bytes_of (request_data g pid action)))), [], g)
      else if starts_with ''confirm_'' action then
        if drop 8 action \<noteq> gt_op g then (Inr (not_found (rq_action_id req)), [], g)
        else if \<not> may_confirm g (rq_caller_plugin_id req) then
          (Inr (reply (ActionResult_Err (''permission denied: caller '' @ rq_caller_plugin_id req @ '' may not confirm '' @ gt_op g @
             '' (approved callers: '' @ join_comma (gt_confirm_callers g) @ '')''))), [], g)
        else (case json_find_string (string_of (rq_params_json req)) ''pending_id'' of
            Inl e \<Rightarrow> (Inl e, [], g)
          | Inr None \<Rightarrow> (Inr (reply (ActionResult_Err ''invalid confirm params: confirm params must include a string pending_id'')), [], g)
          | Inr (Some pid) \<Rightarrow>
              (case take_pending pid g of
                 (None, g) \<Rightarrow> (Inr (reply (ActionResult_Err (''no pending '' @ gt_op g @ '' request with id '' @ pid))), [], g)
               | (Some p, g) \<Rightarrow> (bind_result (executor (pa_params p)) (\<lambda>r. Inr (reply r)), [pa_params p], g)))
      else (Inr (not_found (rq_action_id req)), [], g))"

section \<open>Caller-side helpers\<close>

definition send_confirmation_request ::
    "'l sdklib_scheme \<Rightarrow> string \<Rightarrow> bytes \<Rightarrow> 'a client_scheme \<Rightarrow> string outcome \<times> 'a client_scheme" where
  "send_confirmation_request L op params_json c =
     andthen (send_action L (''request_'' @ op) params_json 0 c) (\<lambda>resp c.
       if rs_status resp \<noteq> ACTION_OK then (Throw (VynkorInternal (''request_'' @ op @ '' failed: '' @ rs_error resp)), c)
       else (case json_find_string (string_of (rs_data_json resp)) ''pending_id'' of
           Inl e \<Rightarrow> (Throw e, c)
         | Inr None \<Rightarrow> (Throw (VynkorInternal ''pending response missing pending_id''), c)
         | Inr (Some pid) \<Rightarrow> (Ret pid, c)))"

definition confirm_params :: "string \<Rightarrow> string" where
  "confirm_params pid = ''{'' @ [QUOTE] @ ''pending_id'' @ [QUOTE] @ '':'' @ [QUOTE] @ json_escape pid @ [QUOTE] @ ''}''"

definition send_confirmation ::
    "'l sdklib_scheme \<Rightarrow> string \<Rightarrow> string \<Rightarrow> 'a client_scheme \<Rightarrow> ActionResponse outcome \<times> 'a client_scheme" where
  "send_confirmation L op pid c = send_action L (''confirm_'' @ op) (bytes_of (confirm_params pid)) 0 c"

end
