(* ===== verification/Vyn_Gate_Spec.thy ===== *)
theory Vyn_Gate_Spec
  imports Vyn_Gate
begin

text \<open>
  What the gate guarantees. Its table is a state machine: requests store entries, confirmations take
  them, other gates of the process advance the shared counter. Over every interleaving an entry is
  taken at most once and is the one its request stored. The executor runs only for an approved
  caller, on stored parameters that have not expired.
\<close>

section \<open>The operations on the table\<close>

definition live :: "gate \<Rightarrow> string \<Rightarrow> PendingAction \<Rightarrow> bool" where
  "live g pid p \<longleftrightarrow> tbl_find (gt_pending g) pid = Some p \<and> \<not> expired (gt_clock g (gt_ticks g)) g p"

definition pending_of :: "ActionRequest \<Rightarrow> int \<Rightarrow> PendingAction" where
  "pending_of req t = \<lparr>pa_action = rq_action req, pa_params = rq_params_json req,
     pa_caller_plugin_id = rq_caller_plugin_id req, pa_created_at = t\<rparr>"

definition next_pending_id :: "gate \<Rightarrow> string" where
  "next_pending_id g = pending_name (word_of_int (gt_millis g (gt_mticks g))) (gt_seq g)"

lemma expired_cong [simp]:
  "expired t (g\<lparr>gt_ticks := a\<rparr>) = expired t g" "expired t (g\<lparr>gt_pending := b\<rparr>) = expired t g"
  by (simp_all add: expired_def fun_eq_iff)

lemma sweep_find:
  "tbl_ok (gt_pending g) \<Longrightarrow> tbl_find (gt_pending (sweep_expired_locked g)) pid = Some p \<longleftrightarrow> live g pid p"
  by (simp add: sweep_expired_locked_def steady_now_def live_def tbl.find_sweep_Some)

lemma sweep_fields [simp]:
  "gt_op (sweep_expired_locked g) = gt_op g" "gt_confirm_callers (sweep_expired_locked g) = gt_confirm_callers g"
  "gt_pending_ttl (sweep_expired_locked g) = gt_pending_ttl g" "gt_clock (sweep_expired_locked g) = gt_clock g"
  "gt_ticks (sweep_expired_locked g) = Suc (gt_ticks g)" "gt_millis (sweep_expired_locked g) = gt_millis g"
  "gt_mticks (sweep_expired_locked g) = gt_mticks g" "gt_seq (sweep_expired_locked g) = gt_seq g"
  by (simp_all add: sweep_expired_locked_def steady_now_def)

lemma sweep_ok [simp]: "tbl_ok (gt_pending g) \<Longrightarrow> tbl_ok (gt_pending (sweep_expired_locked g))"
  by (simp add: sweep_expired_locked_def steady_now_def tbl.ok_sweep)

lemma emplace_ok: "tbl_ok m \<Longrightarrow> tbl_ok (emplace k v m)"
  by (simp add: emplace_def tbl.ok_put split: option.split)

lemma store_request_eq:
  "store_request req g = (next_pending_id g,
     (sweep_expired_locked g)\<lparr>gt_mticks := Suc (gt_mticks g), gt_seq := gt_seq g + 1, gt_ticks := Suc (Suc (gt_ticks g)),
       gt_pending := emplace (next_pending_id g) (pending_of req (gt_clock g (Suc (gt_ticks g)))) (gt_pending (sweep_expired_locked g))\<rparr>)"
  by (simp add: store_request_def unix_millis_def next_seq_def steady_now_def Let_def next_pending_id_def pending_of_def)

lemma take_pending_Some:
  assumes "tbl_ok (gt_pending g)"
  shows "take_pending pid g = (Some p, g') \<longleftrightarrow>
    live g pid p \<and> g' = (sweep_expired_locked g)\<lparr>gt_pending := tbl_erase pid (gt_pending (sweep_expired_locked g))\<rparr>"
  using sweep_find [OF assms, of pid]
  by (cases "tbl_find (gt_pending (sweep_expired_locked g)) pid") (auto simp: take_pending_def Let_def live_def)

lemma take_pending_None:
  assumes "tbl_ok (gt_pending g)"
  shows "take_pending pid g = (None, g') \<longleftrightarrow> (\<forall>p. \<not> live g pid p) \<and> g' = sweep_expired_locked g"
  using sweep_find [OF assms, of pid]
  by (auto simp: take_pending_def Let_def split: option.split)

section \<open>Interleavings\<close>

text \<open>
  The events of a run; the other gates of the process draw from the same counter.
\<close>

datatype gate_event = Stored string ActionRequest | Took string PendingAction | Missed string | OtherGate

inductive gate_step :: "gate \<Rightarrow> gate_event \<Rightarrow> gate \<Rightarrow> bool" where
  store: "store_request req g = (pid, g') \<Longrightarrow> gate_step g (Stored pid req) g'"
| took: "take_pending pid g = (Some p, g') \<Longrightarrow> gate_step g (Took pid p) g'"
| missed: "take_pending pid g = (None, g') \<Longrightarrow> gate_step g (Missed pid) g'"
| other: "gate_step g OtherGate (g\<lparr>gt_seq := gt_seq g + 1\<rparr>)"

inductive gate_run :: "gate \<Rightarrow> gate_event list \<Rightarrow> gate \<Rightarrow> bool" where
  start: "gate_run g [] g"
| step: "gate_run g evs g' \<Longrightarrow> gate_step g' e g'' \<Longrightarrow> gate_run g (evs @ [e]) g''"

inductive_cases gate_stepE: "gate_step g e g'"
inductive_simps gate_step_simps:
  "gate_step g (Stored pid req) g'" "gate_step g (Took pid p) g'" "gate_step g (Missed pid) g'" "gate_step g OtherGate g'"

fun stored_ids :: "gate_event list \<Rightarrow> string list" where
  "stored_ids [] = []"
| "stored_ids (Stored pid req # evs) = pid # stored_ids evs"
| "stored_ids (_ # evs) = stored_ids evs"

fun taken_ids :: "gate_event list \<Rightarrow> string list" where
  "taken_ids [] = []"
| "taken_ids (Took pid p # evs) = pid # taken_ids evs"
| "taken_ids (_ # evs) = taken_ids evs"

fun draws_of :: "gate_event list \<Rightarrow> nat" where
  "draws_of [] = 0"
| "draws_of (Stored pid req # evs) = Suc (draws_of evs)"
| "draws_of (OtherGate # evs) = Suc (draws_of evs)"
| "draws_of (_ # evs) = draws_of evs"

lemma event_append [simp]:
  "stored_ids (a @ b) = stored_ids a @ stored_ids b"
  "taken_ids (a @ b) = taken_ids a @ taken_ids b"
  "draws_of (a @ b) = draws_of a + draws_of b"
proof -
  show "stored_ids (a @ b) = stored_ids a @ stored_ids b" by (induction a rule: stored_ids.induct) simp_all
  show "taken_ids (a @ b) = taken_ids a @ taken_ids b" by (induction a rule: taken_ids.induct) simp_all
  show "draws_of (a @ b) = draws_of a + draws_of b" by (induction a rule: draws_of.induct) simp_all
qed

lemma draws_le: "draws_of evs \<le> length evs"
  by (induction evs rule: draws_of.induct) simp_all

lemma in_stored_ids: "pid \<in> set (stored_ids evs) \<longleftrightarrow> (\<exists>req. Stored pid req \<in> set evs)"
  by (induction evs rule: stored_ids.induct) auto

lemma in_taken_ids: "pid \<in> set (taken_ids evs) \<longleftrightarrow> (\<exists>p. Took pid p \<in> set evs)"
  by (induction evs rule: taken_ids.induct) auto

lemma pending_name_seq:
  assumes "pending_name a s = pending_name b t"
  shows "s = t"
proof -
  have "to_string (unat s) = to_string (unat t)"
    by (rule last_dash [of "''pending-'' @ to_string (unat a)" _ "''pending-'' @ to_string (unat b)"])
      (use assms in \<open>simp_all add: pending_name_def\<close>)
  then show ?thesis using to_string_inj word_unat_eq_iff by blast
qed

definition gate_inv :: "gate \<Rightarrow> gate_event list \<Rightarrow> gate \<Rightarrow> bool" where
  "gate_inv g0 evs g \<longleftrightarrow> tbl_ok (gt_pending g) \<and> gt_seq g = gt_seq g0 + word_of_nat (draws_of evs) \<and>
     (\<forall>pid \<in> set (stored_ids evs). \<exists>ms j. j < draws_of evs \<and> pid = pending_name ms (gt_seq g0 + word_of_nat j)) \<and>
     (\<forall>pid p. tbl_find (gt_pending g) pid = Some p \<longrightarrow>
        (\<exists>req t. Stored pid req \<in> set evs \<and> p = pending_of req t) \<and> pid \<notin> set (taken_ids evs)) \<and>
     set (taken_ids evs) \<subseteq> set (stored_ids evs) \<and> distinct (stored_ids evs) \<and> distinct (taken_ids evs)"

lemma gate_inv_entry:
  "gate_inv g0 evs g \<Longrightarrow> tbl_find (gt_pending g) pid = Some p \<Longrightarrow> pid \<in> set (stored_ids evs) \<and> pid \<notin> set (taken_ids evs)"
  unfolding gate_inv_def in_stored_ids by blast

lemma gate_fresh:
  assumes "gate_inv g0 evs g" "length evs < 2 ^ 64"
  shows "pending_name ms (gt_seq g) \<notin> set (stored_ids evs)"
proof
  assume "pending_name ms (gt_seq g) \<in> set (stored_ids evs)"
  with assms(1) obtain ms' j where j: "j < draws_of evs" "pending_name ms (gt_seq g) = pending_name ms' (gt_seq g0 + word_of_nat j)"
    by (auto simp: gate_inv_def)
  have "gt_seq g0 + word_of_nat (draws_of evs) = gt_seq g0 + word_of_nat j"
    using pending_name_seq [OF j(2)] assms(1) by (simp add: gate_inv_def)
  then have "(word_of_nat (draws_of evs) :: u64) = word_of_nat j" by simp
  then have "draws_of evs = j"
    using draws_le [of evs] assms(2) j(1) by (simp add: word_unat_eq_iff unat_of_nat)
  with j(1) show False by simp
qed

lemma gate_inv_store:
  assumes "gate_inv g0 evs g" "length evs < 2 ^ 64" "store_request req g = (pid, g')"
  shows "gate_inv g0 (evs @ [Stored pid req]) g'"
proof -
  note inv = assms(1) [unfolded gate_inv_def]
  let ?s = "sweep_expired_locked g"
  have pid: "pid = next_pending_id g" using assms(3) by (simp add: store_request_eq)
  have new: "pid \<notin> set (stored_ids evs)" unfolding pid next_pending_id_def by (rule gate_fresh [OF assms(1,2)])
  have swept: "tbl_find (gt_pending ?s) k = Some p \<Longrightarrow> tbl_find (gt_pending g) k = Some p" for k p
    using sweep_find [of g k p] inv by (simp add: live_def)
  have none: "tbl_find (gt_pending ?s) pid = None"
    using swept [of pid] new gate_inv_entry [OF assms(1), of pid] by (cases "tbl_find (gt_pending ?s) pid") auto
  let ?p = "pending_of req (gt_clock g (Suc (gt_ticks g)))"
  have tab: "gt_pending g' = tbl_put pid ?p (gt_pending ?s)" and seq: "gt_seq g' = gt_seq g + 1"
    using assms(3) none pid by (auto simp: store_request_eq emplace_def)
  have ok: "tbl_ok (gt_pending g')" unfolding tab using inv by (simp add: tbl.ok_put)
  have ids: "\<forall>i \<in> set (stored_ids (evs @ [Stored pid req])). \<exists>ms j. j < Suc (draws_of evs) \<and> i = pending_name ms (gt_seq g0 + word_of_nat j)"
  proof
    fix i assume "i \<in> set (stored_ids (evs @ [Stored pid req]))"
    then consider "i = pid" | "i \<in> set (stored_ids evs)" by auto
    then show "\<exists>ms j. j < Suc (draws_of evs) \<and> i = pending_name ms (gt_seq g0 + word_of_nat j)"
    proof cases
      case 1
      then show ?thesis using inv by (intro exI conjI) (auto simp: pid next_pending_id_def)
    next
      case 2
      with inv show ?thesis by (meson less_SucI)
    qed
  qed
  have entries: "(\<exists>req' t. Stored k req' \<in> set (evs @ [Stored pid req]) \<and> p = pending_of req' t) \<and> k \<notin> set (taken_ids (evs @ [Stored pid req]))"
    if "tbl_find (gt_pending g') k = Some p" for k p
  proof (cases "k = pid")
    case True
    have "p = ?p" using that True by (simp add: tab tbl.find_put)
    moreover have "k \<notin> set (taken_ids evs)" using True new inv by blast
    ultimately show ?thesis using True by auto
  next
    case False
    then have "tbl_find (gt_pending g) k = Some p" using that swept by (simp add: tab tbl.find_put)
    with inv obtain req' t where "Stored k req' \<in> set evs" "p = pending_of req' t" "k \<notin> set (taken_ids evs)" by blast
    then show ?thesis by auto
  qed
  show ?thesis unfolding gate_inv_def using inv ok seq ids entries new by auto
qed

lemma gate_inv_take:
  assumes "gate_inv g0 evs g" "take_pending pid g = (Some p, g')"
  shows "gate_inv g0 (evs @ [Took pid p]) g'"
proof -
  note inv = assms(1) [unfolded gate_inv_def]
  from assms(2) inv have lv: "live g pid p"
    and g': "g' = (sweep_expired_locked g)\<lparr>gt_pending := tbl_erase pid (gt_pending (sweep_expired_locked g))\<rparr>"
    by (simp_all add: take_pending_Some)
  have tab: "tbl_find (gt_pending g') k = Some q \<Longrightarrow> k \<noteq> pid \<and> tbl_find (gt_pending g) k = Some q" for k q
    using inv sweep_find [of g k q] by (auto simp: g' tbl.find_erase live_def split: if_splits)
  have "pid \<in> set (stored_ids evs)" "pid \<notin> set (taken_ids evs)"
    using lv gate_inv_entry [OF assms(1)] by (auto simp: live_def)
  moreover have "tbl_ok (gt_pending g')" using inv by (simp add: g' tbl.ok_erase)
  moreover have "gt_seq g' = gt_seq g" by (simp add: g')
  ultimately show ?thesis unfolding gate_inv_def using inv tab by auto
qed

lemma gate_inv_step:
  assumes "gate_step g e g'" "gate_inv g0 evs g" "length evs < 2 ^ 64"
  shows "gate_inv g0 (evs @ [e]) g'"
  using assms
proof (cases rule: gate_step.cases)
  case (missed pid)
  note inv = assms(2) [unfolded gate_inv_def]
  have g': "g' = sweep_expired_locked g" using missed inv by (simp add: take_pending_None)
  have "tbl_find (gt_pending g') k = Some q \<Longrightarrow> tbl_find (gt_pending g) k = Some q" for k q
    using inv sweep_find [of g k q] by (simp add: g' live_def)
  then show ?thesis unfolding gate_inv_def using inv missed(1) g' by auto
next
  case other
  note inv = assms(2) [unfolded gate_inv_def]
  have "\<forall>pid \<in> set (stored_ids evs). \<exists>ms j. j < Suc (draws_of evs) \<and> pid = pending_name ms (gt_seq g0 + word_of_nat j)"
    using inv by (meson less_SucI)
  then show ?thesis unfolding gate_inv_def using inv other by simp
next
  case (store req pid)
  then show ?thesis using gate_inv_store [OF assms(2,3)] by blast
next
  case (took pid p)
  then show ?thesis using gate_inv_take [OF assms(2)] by blast
qed

lemma gate_run_inv:
  "gate_run g0 evs g \<Longrightarrow> gt_pending g0 = [] \<Longrightarrow> length evs \<le> 2 ^ 64 \<Longrightarrow> gate_inv g0 evs g"
proof (induction rule: gate_run.induct)
  case (start g)
  then show ?case by (simp add: gate_inv_def)
next
  case (step g evs g' e g'')
  then show ?case by (intro gate_inv_step) simp_all
qed

lemma gate_run_prefix: "gate_run g0 evs g \<Longrightarrow> evs = pre @ post \<Longrightarrow> \<exists>g'. gate_run g0 pre g'"
proof (induction arbitrary: post rule: gate_run.induct)
  case (start g)
  then show ?case using gate_run.start by auto
next
  case (step g evs g' e g'')
  then show ?case by (cases post rule: rev_cases) (auto intro: gate_run.intros)
qed

lemma gate_run_last: "gate_run g0 evs g \<Longrightarrow> evs = pre @ [e] \<Longrightarrow> \<exists>g'. gate_run g0 pre g' \<and> gate_step g' e g"
  by (cases rule: gate_run.cases) auto

section \<open>The abstract gate\<close>

text \<open>
  What a user of the gate may rely on: a partial map of outstanding requests. Requests enter under
  an id that is not outstanding, a confirmation removes the one it names or finds none, and
  entries may lapse at any operation.
\<close>

inductive ticket_step :: "(string \<Rightarrow> PendingAction option) \<Rightarrow> gate_event \<Rightarrow> (string \<Rightarrow> PendingAction option) \<Rightarrow> bool" where
  t_store: "m' \<subseteq>\<^sub>m m \<Longrightarrow> pid \<notin> dom m \<Longrightarrow> ticket_step m (Stored pid req) (m'(pid \<mapsto> pending_of req t))"
| t_took: "m' \<subseteq>\<^sub>m m \<Longrightarrow> m' pid = Some p \<Longrightarrow> ticket_step m (Took pid p) (m'(pid := None))"
| t_missed: "m' \<subseteq>\<^sub>m m \<Longrightarrow> m' pid = None \<Longrightarrow> ticket_step m (Missed pid) m'"
| t_other: "ticket_step m OtherGate m"

inductive ticket_run :: "(string \<Rightarrow> PendingAction option) \<Rightarrow> gate_event list \<Rightarrow> (string \<Rightarrow> PendingAction option) \<Rightarrow> bool" where
  t_start: "ticket_run m [] m"
| t_step: "ticket_run m evs m' \<Longrightarrow> ticket_step m' e m'' \<Longrightarrow> ticket_run m (evs @ [e]) m''"

definition outstanding :: "gate \<Rightarrow> string \<Rightarrow> PendingAction option" where
  "outstanding g = tbl_find (gt_pending g)"

lemma sweep_map_le: "tbl_ok (gt_pending g) \<Longrightarrow> outstanding (sweep_expired_locked g) \<subseteq>\<^sub>m outstanding g"
  by (auto simp: map_le_def outstanding_def sweep_find live_def dom_def)

lemma gate_step_refines:
  assumes "gate_step g e g'" "gate_inv g0 evs g" "length evs < 2 ^ 64"
  shows "ticket_step (outstanding g) e (outstanding g')"
  using assms(1)
proof (cases rule: gate_step.cases)
  case (store req pid)
  have ok: "tbl_ok (gt_pending g)" using assms(2) by (simp add: gate_inv_def)
  have pid: "pid = next_pending_id g" using store by (simp add: store_request_eq)
  have "pid \<notin> set (stored_ids evs)" unfolding pid next_pending_id_def by (rule gate_fresh [OF assms(2,3)])
  then have new: "pid \<notin> dom (outstanding g)" using gate_inv_entry [OF assms(2)] by (auto simp: outstanding_def)
  then have "tbl_find (gt_pending (sweep_expired_locked g)) pid = None"
    using sweep_map_le [OF ok] map_le_implies_dom_le by (fastforce simp: outstanding_def dom_def)
  then have "outstanding g' = (outstanding (sweep_expired_locked g))(pid \<mapsto> pending_of req (gt_clock g (Suc (gt_ticks g))))"
    using store(2) pid by (auto simp: store_request_eq outstanding_def emplace_def tbl.find_put fun_eq_iff)
  then show ?thesis using store(1) ticket_step.t_store [OF sweep_map_le [OF ok] new] by simp
next
  case (took pid p)
  have ok: "tbl_ok (gt_pending g)" using assms(2) by (simp add: gate_inv_def)
  have "outstanding g' = (outstanding (sweep_expired_locked g))(pid := None)" "outstanding (sweep_expired_locked g) pid = Some p"
    using took(2) ok sweep_find [OF ok, of pid p] by (auto simp: take_pending_Some outstanding_def tbl.find_erase fun_eq_iff)
  then show ?thesis using took(1) ticket_step.t_took [OF sweep_map_le [OF ok]] by simp
next
  case (missed pid)
  have ok: "tbl_ok (gt_pending g)" using assms(2) by (simp add: gate_inv_def)
  have "g' = sweep_expired_locked g" "outstanding (sweep_expired_locked g) pid = None"
    using missed(2) ok sweep_find [OF ok, of pid]
    by (cases "outstanding (sweep_expired_locked g) pid"; simp add: take_pending_None outstanding_def)+
  then show ?thesis using missed(1) ticket_step.t_missed [OF sweep_map_le [OF ok]] by simp
next
  case other
  then show ?thesis using ticket_step.t_other by (simp add: outstanding_def)
qed

section \<open>Routing\<close>

lemma route_request:
  "rq_action req = ''request_'' @ gt_op g \<Longrightarrow> route req executor g =
     (Inr [response_envelope (rq_action_id req) (ActionResult_Ok (bytes_of
        (request_data (snd (store_request req g)) (fst (store_request req g)) (rq_action req))))], [], snd (store_request req g))"
  by (simp add: route_def starts_with_def case_prod_beta Let_def)

lemma route_confirm:
  "rq_action req = ''confirm_'' @ gt_op g \<Longrightarrow> route req executor g =
     (if \<not> may_confirm g (rq_caller_plugin_id req) then
        (Inr [response_envelope (rq_action_id req) (ActionResult_Err (''permission denied: caller '' @ rq_caller_plugin_id req @
           '' may not confirm '' @ gt_op g @ '' (approved callers: '' @ join_comma (gt_confirm_callers g) @ '')''))], [], g)
      else (case json_find_string (string_of (rq_params_json req)) ''pending_id'' of
          Inl e \<Rightarrow> (Inl e, [], g)
        | Inr None \<Rightarrow> (Inr [response_envelope (rq_action_id req)
             (ActionResult_Err ''invalid confirm params: confirm params must include a string pending_id'')], [], g)
        | Inr (Some pid) \<Rightarrow>
            (case take_pending pid g of
               (None, g) \<Rightarrow> (Inr [response_envelope (rq_action_id req) (ActionResult_Err (''no pending '' @ gt_op g @ '' request with id '' @ pid))], [], g)
             | (Some p, g) \<Rightarrow> (bind_result (executor (pa_params p)) (\<lambda>r. Inr [response_envelope (rq_action_id req) r]), [pa_params p], g))))"
  by (simp add: route_def starts_with_def Let_def)

lemma confirm_params_find: "json_find_string (string_of (bytes_of (confirm_params pid))) ''pending_id'' = Inr (Some pid)"
  using json_find_first [of "''pending_id''" pid "''}''"] by (simp add: confirm_params_def)

lemma request_data_find: "json_find_string (string_of (bytes_of (request_data g pid action))) ''pending_id'' = Inr (Some pid)"
  using json_find_first [of "''pending_id''" pid "'','' @ [QUOTE] @ ''action'' @ [QUOTE] @ '':'' @ [QUOTE] @ json_escape action @
     [QUOTE] @ '','' @ [QUOTE] @ ''ttl_secs'' @ [QUOTE] @ '':'' @ to_string_int (ttl_secs g) @ ''}''"]
  by (simp add: request_data_def)

text \<open>A gate over given clocks, for the concrete runs.\<close>

definition demo_gate :: gate where
  "demo_gate = \<lparr>gt_op = ''wipe'', gt_description = ''Wipe'', gt_params_schema = ''{}'', gt_risk = ACTION_RISK_HIGH,
     gt_confirm_callers = [''phone-1'', ''ui.*''], gt_pending_ttl = 300000, gt_pending = [], gt_clock = (\<lambda>i. int i), gt_ticks = 0,
     gt_millis = (\<lambda>i. 1700000000000), gt_mticks = 0, gt_seq = 41\<rparr>"

definition demo_request :: "string \<Rightarrow> string \<Rightarrow> bytes \<Rightarrow> ActionRequest" where
  "demo_request action caller params = \<lparr>rq_action_id = ''a1'', rq_action = action, rq_params_json = params, rq_timeout_ms = 0,
     rq_streaming = False, rq_caller_plugin_id = caller\<rparr>"

section \<open>Properties\<close>

text \<open>
  C26: A pending request is executed at most once, with its own parameters. In every interleaving
  of requests and confirmations on a new gate, with other gates drawing from the same counter and
  fewer than \<open>2 ^ 64\<close> events, no two requests get the same id, no id is taken twice, and whatever
  a confirmation takes was stored before by the request of that id, parameters and caller included.
\<close>

theorem gate_single_use:
  assumes "gate_run g0 evs g" "gt_pending g0 = []" "length evs \<le> 2 ^ 64"
  shows "distinct (stored_ids evs) \<and> distinct (taken_ids evs) \<and>
    (\<forall>pre pid p post. evs = pre @ Took pid p # post \<longrightarrow> (\<exists>req. Stored pid req \<in> set pre \<and> pa_params p = rq_params_json req \<and>
       pa_caller_plugin_id p = rq_caller_plugin_id req \<and> pa_action p = rq_action req))"
proof (intro conjI allI impI)
  show "distinct (stored_ids evs)" "distinct (taken_ids evs)" using gate_run_inv [OF assms] by (simp_all add: gate_inv_def)
  fix pre pid p post
  assume evs: "evs = pre @ Took pid p # post"
  then obtain g2 where g2: "gate_run g0 (pre @ [Took pid p]) g2" using gate_run_prefix [OF assms(1), of "pre @ [Took pid p]" post] by auto
  obtain g1 where g1: "gate_run g0 pre g1" "gate_step g1 (Took pid p) g2" using gate_run_last [OF g2] by blast
  have inv: "gate_inv g0 pre g1" using gate_run_inv [OF g1(1) assms(2)] assms(3) evs by simp
  then have "live g1 pid p" using g1(2) by (simp add: gate_step_simps take_pending_Some gate_inv_def)
  with inv show "\<exists>req. Stored pid req \<in> set pre \<and> pa_params p = rq_params_json req \<and>
       pa_caller_plugin_id p = rq_caller_plugin_id req \<and> pa_action p = rq_action req"
    unfolding gate_inv_def live_def by (metis pending_of_def PendingAction.select_convs(1-3))
qed

theorem gate_single_use_witness:
  "\<exists>pid p g. gate_run demo_gate [Stored pid (demo_request ''request_wipe'' ''ai'' [1]), Took pid p] g \<and>
     distinct (taken_ids [Stored pid (demo_request ''request_wipe'' ''ai'' [1]), Took pid p]) \<and> pa_params p = [1]"
proof -
  let ?r = "demo_request ''request_wipe'' ''ai'' [1]" let ?pid = "next_pending_id demo_gate"
  obtain g1 where g1: "store_request ?r demo_gate = (?pid, g1)" by (simp add: store_request_eq)
  have ok: "tbl_ok (gt_pending demo_gate)" by (simp add: demo_gate_def)
  let ?p = "pending_of ?r 1"
  have f: "gt_pending g1 = [(?pid, ?p)]" "gt_clock g1 = (\<lambda>i. int i)" "gt_ticks g1 = 2" "gt_pending_ttl g1 = 300000"
    using g1 by (auto simp: store_request_eq emplace_def sweep_expired_locked_def steady_now_def demo_gate_def tbl_sweep_def tbl_find_def tbl_put_def)
  have "live g1 ?pid ?p" using f by (simp add: live_def expired_def tbl_find_def pending_of_def)
  then obtain g2 where g2: "take_pending ?pid g1 = (Some ?p, g2)" using f(1) by (simp add: take_pending_Some tbl_ok_def)
  note run = gate_run.step [OF gate_run.step [OF gate_run.start gate_step.store [OF g1]] gate_step.took [OF g2]]
  from gate_single_use [OF run] show ?thesis using run
    by (intro exI [of _ ?pid] exI [of _ ?p] exI [of _ g2]) (simp add: demo_gate_def pending_of_def demo_request_def)
qed

text \<open>
  C27: Nothing runs without approval. Whenever \<open>route\<close> calls the executor, the action was the
  gate's \<^verbatim>\<open>confirm_\<close> action, the caller is on the allowlist, the call is made once, with the
  parameters of a stored entry that has not reached its lifetime, and that entry is gone from the
  table afterwards.
\<close>

theorem gate_executor_guard:
  assumes "tbl_ok (gt_pending g)" "route req executor g = (r, calls, g')" "calls \<noteq> []"
  shows "\<exists>pid p. rq_action req = ''confirm_'' @ gt_op g \<and> may_confirm g (rq_caller_plugin_id req) \<and> calls = [pa_params p] \<and>
    tbl_find (gt_pending g) pid = Some p \<and> gt_clock g (gt_ticks g) - pa_created_at p < gt_pending_ttl g * 1000000 \<and>
    tbl_find (gt_pending g') pid = None"
proof -
  obtain pid p where a: "starts_with ''confirm_'' (rq_action req)" "drop 8 (rq_action req) = gt_op g" "may_confirm g (rq_caller_plugin_id req)"
    and t: "take_pending pid g = (Some p, g')" and c: "calls = [pa_params p]"
    using assms(2,3) by (auto simp: route_def Let_def split: if_splits prod.splits sum.splits option.splits)
  have l: "length ''confirm_'' = 8" by simp
  have "take 8 (rq_action req) = ''confirm_''" using a(1) unfolding starts_with_def l .
  then have act: "rq_action req = ''confirm_'' @ gt_op g" using a(2) append_take_drop_id [of 8 "rq_action req"] by metis
  from t assms(1) have lv: "live g pid p"
    and g': "g' = (sweep_expired_locked g)\<lparr>gt_pending := tbl_erase pid (gt_pending (sweep_expired_locked g))\<rparr>"
    by (simp_all add: take_pending_Some)
  have "tbl_find (gt_pending g') pid = None" using assms(1) by (simp add: g' tbl.find_erase)
  with act a(3) c lv show ?thesis by (intro exI [of _ pid] exI [of _ p]) (simp add: live_def expired_def)
qed

theorem gate_executor_guard_witness:
  "\<exists>(g :: gate) r g'. route (demo_request ''confirm_wipe'' ''phone-1'' (bytes_of (confirm_params ''p''))) (\<lambda>x. Inr (ActionResult_Ok x)) g = (r, [[5]], g') \<and>
     may_confirm g ''phone-1'' \<and> (\<exists>pid. tbl_find (gt_pending g) pid \<noteq> None \<and> tbl_find (gt_pending g') pid = None)"
proof -
  let ?p = "\<lparr>pa_action = ''request_wipe'', pa_params = [5], pa_caller_plugin_id = ''ai'', pa_created_at = 0\<rparr>"
  let ?g = "demo_gate\<lparr>gt_pending := [(''p'', ?p)]\<rparr>"
  let ?r = "demo_request ''confirm_wipe'' ''phone-1'' (bytes_of (confirm_params ''p''))"
  let ?x = "\<lambda>x. Inr (ActionResult_Ok x)"
  have ok: "tbl_ok (gt_pending ?g)" by (simp add: tbl_ok_def)
  have "live ?g ''p'' ?p" by (simp add: live_def tbl_find_def expired_def demo_gate_def)
  then obtain g' where t: "take_pending ''p'' ?g = (Some ?p, g')" using ok by (simp add: take_pending_Some)
  have m: "may_confirm ?g ''phone-1''" by (simp add: may_confirm_def demo_gate_def caller_allowed_def)
  have f: "rq_action ?r = ''confirm_'' @ gt_op ?g" "rq_caller_plugin_id ?r = ''phone-1''"
    "rq_params_json ?r = bytes_of (confirm_params ''p'')" by (simp_all add: demo_request_def demo_gate_def)
  obtain r where r: "route ?r ?x ?g = (r, [[5]], g')"
    unfolding route_confirm [OF f(1)] f(2,3) confirm_params_find using m t by simp
  from gate_executor_guard [OF ok r] r m show ?thesis by blast
qed

text \<open>
  C29: A caller who may not confirm learns nothing and changes nothing. The reply to a
  \<^verbatim>\<open>confirm_\<close> from a caller off the allowlist is an error, the executor is not called, the
  gate is unchanged, and the reply does not depend on which requests are pending.
\<close>

theorem gate_denied_learns_nothing:
  assumes "rq_action req = ''confirm_'' @ gt_op g" "\<not> may_confirm g (rq_caller_plugin_id req)"
  shows "\<exists>m. route req executor g = (Inr [response_envelope (rq_action_id req) (ActionResult_Err m)], [], g) \<and>
    fst (route req executor (g\<lparr>gt_pending := tab\<rparr>)) = fst (route req executor g)"
proof -
  have "may_confirm (g\<lparr>gt_pending := tab\<rparr>) = may_confirm g" by (simp add: may_confirm_def fun_eq_iff)
  with assms show ?thesis by (simp add: route_confirm del: append.append_Cons append.append_Nil) blast
qed

theorem gate_denied_learns_nothing_witness:
  "\<exists>m. route (demo_request ''confirm_wipe'' ''phone-10'' []) (\<lambda>x. Inr (ActionResult_Ok x)) demo_gate =
      (Inr [response_envelope ''a1'' (ActionResult_Err m)], [], demo_gate)"
proof -
  let ?r = "demo_request ''confirm_wipe'' ''phone-10'' []"
  have "rq_action ?r = ''confirm_'' @ gt_op demo_gate" "\<not> may_confirm demo_gate (rq_caller_plugin_id ?r)"
    by (simp_all add: demo_request_def demo_gate_def may_confirm_def caller_allowed_def)
  from gate_denied_learns_nothing [OF this] show ?thesis by (auto simp: demo_request_def)
qed

text \<open>
  The two-step flow works. A \<^verbatim>\<open>request_\<close> from any caller is stored and answered with an id
  that the requester's side reads back from the JSON reply; the parameters that the confirming
  side builds for this id, from an approved caller within the lifetime, make the gate run the
  executor on the requester's parameters and reply with its result; a second confirmation is
  refused without running anything.
\<close>

lemma gate_request_confirm:
  assumes "tbl_ok (gt_pending g)" "rq_action req = ''request_'' @ gt_op g" "rq_action conf = ''confirm_'' @ gt_op g"
    and "may_confirm g (rq_caller_plugin_id conf)" "tbl_find (gt_pending g) (next_pending_id g) = None"
    and "rq_params_json conf = bytes_of (confirm_params (next_pending_id g))"
    and "\<forall>i j. gt_clock g i < gt_clock g j + gt_pending_ttl g * 1000000"
  shows "\<exists>d g1 g2 g3 m. route req executor g = (Inr [response_envelope (rq_action_id req) (ActionResult_Ok d)], [], g1) \<and>
    json_find_string (string_of d) ''pending_id'' = Inr (Some (next_pending_id g)) \<and>
    route conf executor g1 = (bind_result (executor (rq_params_json req)) (\<lambda>r. Inr [response_envelope (rq_action_id conf) r]), [rq_params_json req], g2) \<and>
    route conf executor g2 = (Inr [response_envelope (rq_action_id conf) (ActionResult_Err m)], [], g3)"
proof -
  let ?pid = "next_pending_id g" let ?p = "pending_of req (gt_clock g (Suc (gt_ticks g)))"
  define g1 where "g1 = snd (store_request req g)"
  have s: "store_request req g = (?pid, g1)" by (simp add: g1_def store_request_eq)
  have none: "tbl_find (gt_pending (sweep_expired_locked g)) ?pid = None"
    using sweep_find [OF assms(1), of ?pid] assms(5) by (cases "tbl_find (gt_pending (sweep_expired_locked g)) ?pid") (auto simp: live_def)
  have f1: "gt_pending g1 = tbl_put ?pid ?p (gt_pending (sweep_expired_locked g))" "gt_op g1 = gt_op g"
    "gt_confirm_callers g1 = gt_confirm_callers g" "gt_clock g1 = gt_clock g" "gt_pending_ttl g1 = gt_pending_ttl g"
    using none by (simp_all add: g1_def store_request_eq emplace_def)
  have ok1: "tbl_ok (gt_pending g1)" using assms(1) by (simp add: f1(1) tbl.ok_put)
  have "gt_clock g (gt_ticks g1) - gt_clock g (Suc (gt_ticks g)) < gt_pending_ttl g * 1000000"
    using assms(7) by (metis diff_less_eq add.commute)
  then have lv: "live g1 ?pid ?p"
    using f1 by (simp add: live_def expired_def tbl.find_put pending_of_def)
  then obtain g2 where g2: "take_pending ?pid g1 = (Some ?p, g2)" using ok1 by (simp add: take_pending_Some)
  have f2: "g2 = (sweep_expired_locked g1)\<lparr>gt_pending := tbl_erase ?pid (gt_pending (sweep_expired_locked g1))\<rparr>"
    using g2 ok1 by (simp add: take_pending_Some)
  have ok2: "tbl_ok (gt_pending g2)" "tbl_find (gt_pending g2) ?pid = None"
    using ok1 by (simp_all add: f2 tbl.ok_erase tbl.find_erase)
  obtain g3 where g3: "take_pending ?pid g2 = (None, g3)" using ok2 by (simp add: take_pending_None live_def)
  have c1: "rq_action conf = ''confirm_'' @ gt_op g1" "may_confirm g1 (rq_caller_plugin_id conf)"
    and c2: "rq_action conf = ''confirm_'' @ gt_op g2" "may_confirm g2 (rq_caller_plugin_id conf)"
    using assms(3,4) f1(2,3) by (simp_all add: f2 may_confirm_def)
  have r1: "route conf executor g1 = (bind_result (executor (rq_params_json req)) (\<lambda>r. Inr [response_envelope (rq_action_id conf) r]), [rq_params_json req], g2)"
    unfolding route_confirm [OF c1(1)] assms(6) confirm_params_find using c1(2) g2 by (simp add: pending_of_def)
  obtain m where r2: "route conf executor g2 = (Inr [response_envelope (rq_action_id conf) (ActionResult_Err m)], [], g3)"
    unfolding route_confirm [OF c2(1)] assms(6) confirm_params_find using c2(2) g3 by simp
  show ?thesis
    using route_request [OF assms(2), of executor] s r1 r2 request_data_find [of g1 ?pid "rq_action req"] by auto
qed

text \<open>
  C30: The gate implements the abstract map of outstanding requests: every interleaving of its
  operations (below \<open>2 ^ 64\<close> events, so that the counter does not wrap) is a run of the abstract
  gate from the empty map, event for event, ending in the abstraction of the final table.
\<close>

theorem gate_refines_tickets:
  assumes "gate_run g0 evs g" "gt_pending g0 = []" "length evs \<le> 2 ^ 64"
  shows "ticket_run (\<lambda>pid. None) evs (outstanding g)"
  using assms
proof (induction rule: gate_run.induct)
  case (start g)
  then have "outstanding g = (\<lambda>pid. None)" by (simp add: outstanding_def fun_eq_iff)
  then show ?case using ticket_run.t_start by simp
next
  case (step g evs g' e g'')
  then have "length evs < 2 ^ 64" "gate_inv g evs g'" using gate_run_inv by simp_all
  with step show ?case using ticket_run.t_step gate_step_refines by (metis length_append_singleton Suc_leD)
qed

theorem gate_refines_tickets_witness:
  "\<exists>g. ticket_run (\<lambda>pid. None) [Stored (next_pending_id demo_gate) (demo_request ''request_wipe'' ''ai'' [1])] (outstanding g)"
proof -
  let ?r = "demo_request ''request_wipe'' ''ai'' [1]"
  obtain g1 where g1: "store_request ?r demo_gate = (next_pending_id demo_gate, g1)" by (simp add: store_request_eq)
  from gate_refines_tickets [OF gate_run.step [OF gate_run.start gate_step.store [OF g1]]] show ?thesis
    by (auto simp: demo_gate_def)
qed

text \<open>
  The allowlist means what its documentation says: a caller may confirm iff its id is listed,
  or an entry \<open>prefix.*\<close> with a non-empty prefix is listed and the id is the prefix, a dot, and
  anything. (An entry that ends in \<open>.*\<close> stands only for its prefix.)
\<close>

lemma may_confirm_iff:
  "may_confirm g caller \<longleftrightarrow> (\<exists>allowed \<in> set (gt_confirm_callers g).
     (\<exists>pre rest. pre \<noteq> [] \<and> allowed = pre @ ''.*'' \<and> caller = pre @ ''.'' @ rest) \<or>
     (\<nexists>pre. pre \<noteq> [] \<and> allowed = pre @ ''.*'') \<and> caller = allowed)"
proof -
  have "caller_allowed caller a \<longleftrightarrow> (\<exists>pre rest. pre \<noteq> [] \<and> a = pre @ ''.*'' \<and> caller = pre @ ''.'' @ rest) \<or>
     (\<nexists>pre. pre \<noteq> [] \<and> a = pre @ ''.*'') \<and> caller = a" for a
  proof (cases "length a > 2 \<and> drop (length a - 2) a = ''.*''")
    case True
    define pre where "pre = take (length a - 2) a"
    have pre: "a = pre @ ''.*''" "pre \<noteq> []"
      using True append_take_drop_id [of "length a - 2" a] by (auto simp: pre_def)
    have "(starts_with pre caller \<and> length caller > length pre \<and> caller ! length pre = CHR ''.'') \<longleftrightarrow> (\<exists>rest. caller = pre @ ''.'' @ rest)"
      by (auto simp: starts_with_def nth_append) (metis Cons_nth_drop_Suc append_take_drop_id)
    with pre show ?thesis by (auto simp: caller_allowed_def Let_def)
  next
    case False
    then have "\<nexists>pre. pre \<noteq> [] \<and> a = pre @ ''.*''" by auto
    with False show ?thesis by (auto simp: caller_allowed_def)
  qed
  then show ?thesis by (simp add: may_confirm_def list_ex_iff)
qed

text \<open>
  What \<open>json_escape\<close> writes, \<open>json_find_string\<close> reads: the first member of an object, with any
  key and any bytes as value, quotes, backslashes and control characters included, comes back
  unchanged whatever follows it.
\<close>

lemma json_value_roundtrip:
  "json_find_string (''{'' @ [QUOTE] @ key @ [QUOTE] @ '':'' @ [QUOTE] @ json_escape v @ [QUOTE] @ rest) key = Inr (Some v)"
  using json_find_first [of key v rest] by simp

text \<open>
  C31: An escape without a number is an exception. When an approved caller confirms with a
  \<^verbatim>\<open>pending_id\<close> whose value contains, after any correctly written text, a \<^verbatim>\<open>\u\<close> followed by four
  characters that do not start with a number (blanks and a sign may come first), \<open>route\<close> throws
  \<^verbatim>\<open>std::invalid_argument\<close> from \<^verbatim>\<open>std::stoul\<close> instead of returning an \<^verbatim>\<open>ACTION_ERROR\<close> envelope,
  and nothing is executed or taken. (With a number in front, as in \<^verbatim>\<open>\u12zz\<close>, the number is taken
  and the rest of the four characters ignored.)
\<close>

theorem malformed_escape_throws:
  assumes "rq_action req = ''confirm_'' @ gt_op g" "may_confirm g (rq_caller_plugin_id req)"
    and "rq_params_json req = bytes_of (''{'' @ [QUOTE] @ ''pending_id'' @ [QUOTE] @ '':'' @ [QUOTE] @ json_escape v @ [BACKSLASH, CHR ''u''] @ ds @ rest)"
    and "length ds = 4" "\<not> starts_number ds"
  shows "route req executor g = (Inl (StdInvalidArgument ''stoul''), [], g)"
proof -
  let ?txt = "json_escape v @ [BACKSLASH, CHR ''u''] @ ds @ rest"
  have "read_value ?txt [] = Inl (StdInvalidArgument ''stoul'')"
    using stoul16_throws [OF assms(5)] char_simps(1) assms(4) by (simp add: read_value_after_escape)
  then have "json_find_string (''{'' @ [QUOTE] @ ''pending_id'' @ [QUOTE] @ '':'' @ [QUOTE] @ ?txt) ''pending_id'' = Inl (StdInvalidArgument ''stoul'')"
    using json_find_value [of "''pending_id''" ?txt] by simp
  with assms(2,3) show ?thesis unfolding route_confirm [OF assms(1)] by simp
qed

theorem malformed_escape_throws_witness:
  "route (demo_request ''confirm_wipe'' ''phone-1'' (bytes_of (''{'' @ [QUOTE] @ ''pending_id'' @ [QUOTE] @ '':'' @
      [QUOTE] @ json_escape ''1'' @ [BACKSLASH, CHR ''u''] @ '' -z0'' @ [QUOTE] @ ''}''))) (\<lambda>x. Inr (ActionResult_Ok x)) demo_gate =
    (Inl (StdInvalidArgument ''stoul''), [], demo_gate)"
proof -
  have "hex_value (CHR ''z'') = None" "hex_value (CHR '' '') = None" "hex_value (CHR ''-'') = None" "\<not> is_space (CHR ''-'')" by code_simp+
  then have "\<not> starts_number '' -z0''" by (auto simp: starts_number_def Cons_eq_append_conv append_eq_Cons_conv)
  then show ?thesis
    by (intro malformed_escape_throws [where v = "''1''" and ds = "'' -z0''" and rest = "[QUOTE] @ ''}''"])
      (simp_all add: demo_request_def demo_gate_def may_confirm_def caller_allowed_def)
qed

end
