(* ===== verification/Vyn_Request.thy ===== *)
theory Vyn_Request
  imports Vyn_Session Vyn_Gate_Spec
begin

text \<open>
  Requests that complete. Over a Unix socket that takes the request and delivers the response within
  the deadline, possibly after other messages, \<open>send_action\<close> returns that response. On top of it,
  the confirmation of a high-risk operation runs through from end to end: the requesting client, the
  gate of the plugin, and the confirming client.
\<close>

section \<open>Sending the request\<close>

lemma write_all_keeps:
  "reads (snd (write_all fr w)) = reads w \<and> polls (snd (write_all fr w)) = polls w \<and> clock (snd (write_all fr w)) = clock w \<and>
   ticks (snd (write_all fr w)) = ticks w"
proof (induction fr w rule: write_all.induct)
  case (1 fr w)
  obtain r w' where s: "sys_write fr w = (r, w')" by fastforce
  have "reads w' = reads w \<and> polls w' = polls w \<and> clock w' = clock w \<and> ticks w' = ticks w"
    using s by (auto simp: sys_write_def split: list.splits write_res.splits)
  with 1 s show ?case by (auto simp: write_all.simps [of fr w] split: option.splits write_res.splits)
qed

lemma send_accepted:
  assumes "\<not> ws_active c" "pack_frame_raw L target (wire_flags (session_key c) 0) (SerializeToString L env) (session_key c) = Inr q"
    and "accepting (length q) (writes c)"
  obtains c' where "send L target env c = (Ret (), c')" "sent c' = sent c @ q" "reads c' = reads c" "polls c' = polls c"
    "clock c' = clock c" "ticks c' = ticks c" "same_session c c'"
proof -
  obtain c' where w: "write_all q c = (Ret (), c')" using write_all_accepting [of q 0 c] assms(3) by auto
  have "send L target env c = (Ret (), c')"
    using assms(1,2) w by (simp add: send_def send_raw_def send_raw_with_flags_def Let_def wire_flags_def)
  moreover have "sent c' = sent c @ q" using write_all_sent [OF w] by auto
  moreover have "same_session c c'" using same_session_world write_all_more [of q c] w by simp
  ultimately show thesis using write_all_keeps [of q c] w by (intro that) simp_all
qed

section \<open>Receiving before a deadline\<close>

text \<open>
  A network that delivers in time: the clock moves by less than the frame timeout, polls neither fail
  nor time out, and they report readiness often enough for \<open>n\<close> more frames with a deadline. The
  deadline is at least one frame timeout away, and near enough for \<^verbatim>\<open>poll\<close>.
\<close>

definition prompt :: "nat \<Rightarrow> 'a world_scheme \<Rightarrow> bool" where
  "prompt n b \<longleftrightarrow> (\<forall>i j. clock b i < clock b j + FRAME_READ_TIMEOUT_MS * 1000000) \<and> calm (polls b) \<and>
     length (reads b) + 3 * n \<le> ready_count (polls b)"

definition within_reach :: "int \<Rightarrow> 'a world_scheme \<Rightarrow> bool" where
  "within_reach d b \<longleftrightarrow> (\<forall>i. clock b i + FRAME_READ_TIMEOUT_MS * 1000000 \<le> d \<and> d < clock b i + 2147483647 * 1000000)"

lemma read_deadline_pack:
  assumes L: "hmac_ok L" "zstd_ok L" and s: "sendable flags key" and fr: "pack_frame_raw L target flags payload key = Inr fr"
    and st: "stream_of (reads w) = fr @ rest" and p: "prompt (Suc n) w" and d: "within_reach d w"
  shows "\<exists>r w'. read_frame_full_with_deadline L key d w = (Ret r, w') \<and> fr_payload r = payload \<and> fr_flags r = flags \<and>
    stream_of (reads w') = rest \<and> reads_only w w' \<and> prompt n w'"
  using st p d
proof (induction "length (polls w)" arbitrary: w rule: less_induct)
  case less
  let ?v = "polled_state d w"
  obtain x ps where ps: "polls w = x # ps"
    using less.prems(2) by (cases "polls w") (auto simp: prompt_def)
  have t: "clock w (ticks w) < d" using less.prems(3) [unfolded within_reach_def, rule_format, of "ticks w"] by (simp add: FRAME_READ_TIMEOUT_MS_def)
  have x: "x = PReady \<or> x = PIntr" using less.prems(2) ps by (auto simp: prompt_def)
  show ?case
  proof (cases "x = PIntr")
    case True
    have "read_frame_full_with_deadline L key d w = read_frame_full_with_deadline L key d ?v"
      using t ps True by (subst read_frame_full_with_deadline.simps) (simp add: polled_state_def sys_poll_def now_def Let_def)
    moreover have "stream_of (reads ?v) = fr @ rest" "prompt (Suc n) ?v" "within_reach d ?v"
      using less.prems ps True by (simp_all add: prompt_def within_reach_def)
    ultimately show ?thesis
      using less.hyps [of ?v] ps reads_only_trans [OF polled_state_simps(4) [of w d]] by fastforce
  next
    case False
    with x have ready: "x = PReady" by simp
    define v where "v = snd (now ?v)"
    define T where "T = ms_of_ns (d - clock w (ticks ?v))"
    have v: "reads v = reads w" "polls v = ps" "clock v = clock w" "reads_only w v"
      using ps reads_only_trans [OF polled_state_simps(4) [of w d] reads_only_now] by (simp_all add: v_def now_def)
    have dd: "clock w (ticks ?v) + 10000000000 \<le> d" "d < clock w (ticks ?v) + 2147483647 * 1000000"
      using less.prems(3) by (auto simp: within_reach_def FRAME_READ_TIMEOUT_MS_def)
    then have T: "10000 \<le> T" "T < 2147483648" by (simp_all add: T_def ms_of_ns_def)
    have run: "read_frame_full_with_deadline L key d w = read_frame_full_with_timeout L key T v"
      using t ps ready T cast_int_small [of T]
      by (subst read_frame_full_with_deadline.simps)
        (simp add: polled_state_def sys_poll_def now_def Let_def v_def T_def)
    have c: "clock v i < clock v (ticks v) + T * 1000000" for i
    proof -
      have "clock w i < clock w (ticks v) + 10000 * 1000000" using less.prems(2) by (simp add: prompt_def FRAME_READ_TIMEOUT_MS_def)
      with T(1) show ?thesis unfolding v(3) by linarith
    qed
    have "calm (polls v)" "length (reads v) + 1 + 3 * n < ready_count (polls v)" "stream_of (reads v) = fr @ rest"
      using less.prems(1,2) ps ready v by (simp_all add: prompt_def)
    then obtain r w' where r: "read_frame_full_with_timeout L key T v = (Ret r, w')" "fr_payload r = payload" "fr_flags r = flags"
      "stream_of (reads w') = rest" "reads_only v w'" "calm (polls w')" "length (reads w') + 3 * n \<le> ready_count (polls w')"
      by (auto intro: read_frame_pack_budget [OF L s fr _ c])
    have "prompt n w'" using r(5-7) v(3) less.prems(2) by (simp add: prompt_def reads_only_def)
    with run r reads_only_trans [OF v(4) r(5)] show ?thesis by auto
  qed
qed

section \<open>Waiting for the response\<close>

text \<open>A frame that carries an envelope, from whichever sender, under the session's key.\<close>

definition carries :: "'l sdklib_scheme \<Rightarrow> bytes option \<Rightarrow> Envelope \<Rightarrow> bytes \<Rightarrow> bool" where
  "carries L key env fr \<longleftrightarrow> (\<exists>target payload. pack_frame_raw L target (wire_flags key 0) payload key = Inr fr \<and> ParseFromArray L payload = Some env)"

lemma recv_frame_carries:
  assumes L: "hmac_ok L" "zstd_ok L" and ws: "\<not> ws_active b" and fr: "carries L (session_key b) env fr"
    and st: "stream_of (reads b) = fr @ rest" and p: "prompt (Suc n) b" and d: "within_reach d b"
  obtains f b' where "recv_frame_with_deadline L (Some d) b = (Ret f, b')" "ParseFromArray L (fr_payload f) = Some env"
    "stream_of (reads b') = rest" "reads_only b b'" "prompt n b'"
proof -
  from fr obtain target payload where pk: "pack_frame_raw L target (wire_flags (session_key b) 0) payload (session_key b) = Inr fr"
    and env: "ParseFromArray L payload = Some env" by (auto simp: carries_def)
  have s: "sendable (wire_flags (session_key b) 0) (session_key b)" by (rule sendable_wire_flags) simp_all
  from read_deadline_pack [OF L s pk st p d] obtain f b' where f: "read_frame_full_with_deadline L (session_key b) d b = (Ret f, b')"
    "fr_payload f = payload" "fr_flags f = wire_flags (session_key b) 0" "stream_of (reads b') = rest" "reads_only b b'" "prompt n b'" by blast
  have "recv_frame_with_deadline L (Some d) b = (Ret f, b')"
    by (rule recv_frame_plain) (use f ws in \<open>auto simp: read_transport_frame_def wire_flags_def\<close>)
  with f env that show thesis by simp
qed

lemma wait_for_response_skips:
  assumes L: "hmac_ok L" "zstd_ok L"
  shows "\<not> ws_active b \<Longrightarrow> list_all2 (carries L (session_key b)) es frs \<Longrightarrow> \<forall>e \<in> set es. \<not> terminal e \<Longrightarrow>
    carries L (session_key b) reply fr \<Longrightarrow> terminal reply \<Longrightarrow> stream_of (reads b) = concat frs @ fr @ rest \<Longrightarrow>
    prompt (Suc (length es)) b \<Longrightarrow> within_reach d b \<Longrightarrow>
    \<exists>b'. wait_for_response L d terminal b = (Ret reply, b') \<and> stream_of (reads b') = rest \<and> reads_only b b'"
proof (induction es arbitrary: b frs)
  case Nil
  from Nil.prems obtain f b' where "recv_frame_with_deadline L (Some d) b = (Ret f, b')" "ParseFromArray L (fr_payload f) = Some reply"
    "stream_of (reads b') = rest" "reads_only b b'"
    by (auto intro: recv_frame_carries [OF L Nil.prems(1,4)])
  then show ?case using wait_for_response_first [of L d b f b' reply terminal] Nil.prems(5) by blast
next
  case (Cons e es)
  from Cons.prems(2) obtain g gs where frs: "frs = g # gs" "carries L (session_key b) e g" "list_all2 (carries L (session_key b)) es gs"
    by (auto simp: list_all2_Cons1)
  obtain f b1 where f: "recv_frame_with_deadline L (Some d) b = (Ret f, b1)" "ParseFromArray L (fr_payload f) = Some e"
    "stream_of (reads b1) = concat gs @ fr @ rest" "reads_only b b1" "prompt (Suc (length es)) b1"
    using Cons.prems(6,7,8) frs(1) by (auto intro: recv_frame_carries [OF L Cons.prems(1) frs(2)])
  have same: "ws_active b1 = ws_active b" "session_key b1 = session_key b" "within_reach d b1"
    using f(4) Cons.prems(8) same_session_world [of b1 b] by (simp_all add: reads_only_def same_session_def within_reach_def)
  obtain b' where "wait_for_response L d terminal b1 = (Ret reply, b')" "stream_of (reads b') = rest" "reads_only b1 b'"
    using Cons.IH [of b1 gs] Cons.prems same frs(3) f by auto
  moreover have "wait_for_response L d terminal b = wait_for_response L d terminal b1"
    using f(1,2) Cons.prems(3) by (subst wait_for_response.simps) simp
  ultimately show ?case using reads_only_trans [OF f(4)] by auto
qed

section \<open>A whole exchange\<close>

text \<open>The request \<open>send_action\<close> puts on the wire; the kernel later stamps the caller on it.\<close>

definition request_of :: "'a client_scheme \<Rightarrow> string \<Rightarrow> bytes \<Rightarrow> u32 \<Rightarrow> ActionRequest" where
  "request_of c action params_json timeout_ms = \<lparr>rq_action_id = fst (next_action_id c), rq_action = action,
     rq_params_json = params_json, rq_timeout_ms = timeout_ms, rq_streaming = False, rq_caller_plugin_id = []\<rparr>"

definition stamped :: "string \<Rightarrow> ActionRequest \<Rightarrow> ActionRequest" where
  "stamped caller req = req\<lparr>rq_caller_plugin_id := caller\<rparr>"

text \<open>
  The other side does its part for a request: the socket takes the request, and the stream holds
  frames of other messages, none of which ends the wait, and then the frame of the reply.
\<close>

definition answered :: "'l sdklib_scheme \<Rightarrow> 'a client_scheme \<Rightarrow> ActionRequest \<Rightarrow> Envelope list \<Rightarrow> Envelope \<Rightarrow> bool" where
  "answered L c req others reply \<longleftrightarrow> \<not> ws_active c \<and> prompt (Suc (length others)) c \<and>
     (\<forall>e \<in> set others. \<not> action_terminal (rq_action_id req) e) \<and>
     (\<exists>q. pack_frame_raw L ''kernel'' (wire_flags (session_key c) 0) (SerializeToString L (envelope (M_action_request req))) (session_key c) = Inr q \<and>
        accepting (length q) (writes c)) \<and>
     (\<exists>frs fr rest. list_all2 (carries L (session_key c)) others frs \<and> carries L (session_key c) reply fr \<and>
        stream_of (reads c) = concat frs @ fr @ rest)"

definition ample :: "u32 \<Rightarrow> bool" where
  "ample timeout_ms \<longleftrightarrow> timeout_ms = 0 \<or> 20000 \<le> unat timeout_ms \<and> unat timeout_ms \<le> 2147473647"

lemma request_deadline_reach:
  assumes "ample timeout_ms" "\<forall>i j. clock c i < clock c j + FRAME_READ_TIMEOUT_MS * 1000000"
  shows "within_reach (fst (request_deadline timeout_ms c)) c"
proof -
  define T where "T = (if timeout_ms = 0 then DEFAULT_REQUEST_TIMEOUT else int (unat timeout_ms))"
  have T: "20000 \<le> T" "T \<le> 2147473647" using assms(1) by (auto simp: T_def ample_def DEFAULT_REQUEST_TIMEOUT_def simp del: of_nat_unat)
  have "fst (request_deadline timeout_ms c) = clock c (ticks c) + T * 1000000" by (simp add: request_deadline_def T_def now_def Let_def)
  moreover have "clock c i < clock c (ticks c) + 10000000000" "clock c (ticks c) < clock c i + 10000000000" for i
    using assms(2) by (simp_all add: FRAME_READ_TIMEOUT_MS_def)
  ultimately show ?thesis unfolding within_reach_def FRAME_READ_TIMEOUT_MS_def using T by (smt (verit))
qed

text \<open>
  What a message says of a request: its response, that its stream was aborted, or an error of the
  kernel, which concerns every request; all other messages say nothing.
\<close>

definition settlement :: "string \<Rightarrow> Envelope \<Rightarrow> ActionResponse outcome option" where
  "settlement action_id e = (case en_payload e of
      M_action_response r \<Rightarrow> if rs_action_id r = action_id then Some (Ret r) else None
    | M_action_stream_abort a \<Rightarrow>
        if ab_action_id a = action_id then Some (Throw (VynkorInternal (''stream aborted: '' @ ab_reason a))) else None
    | M_error x \<Rightarrow> Some (Throw (VynkorInternal (''kernel error: '' @ er_message x @ '' ('' @ er_details x @ '')'')))
    | _ \<Rightarrow> None)"

lemma settlement_terminal: "settlement action_id e = Some out \<Longrightarrow> action_terminal action_id e"
  by (auto simp: settlement_def action_terminal_def split: payload_case.splits if_splits)

lemma send_action_settled:
  assumes L: "hmac_ok L" "zstd_ok L" and a: "answered L c (request_of c action params timeout_ms) others reply"
    and r: "settlement (fst (next_action_id c)) reply = Some out" and T: "ample timeout_ms"
  shows "\<exists>c'. send_action L action params timeout_ms c = (out, c')"
proof -
  obtain aid c0 where id: "next_action_id c = (aid, c0)" by fastforce
  have c0: "writes c0 = writes c" "reads c0 = reads c" "polls c0 = polls c" "clock c0 = clock c" "ws_active c0 = ws_active c" "session_key c0 = session_key c"
    using id by (auto simp: next_action_id_def system_now_def Let_def)
  let ?env = "envelope (M_action_request \<lparr>rq_action_id = aid, rq_action = action, rq_params_json = params, rq_timeout_ms = timeout_ms,
      rq_streaming = False, rq_caller_plugin_id = []\<rparr>)"
  from a id obtain q frs fr rest where q: "pack_frame_raw L ''kernel'' (wire_flags (session_key c0) 0) (SerializeToString L ?env) (session_key c0) = Inr q"
    "accepting (length q) (writes c0)" and ws: "\<not> ws_active c0" and p: "prompt (Suc (length others)) c0"
    and fs: "list_all2 (carries L (session_key c0)) others frs" "carries L (session_key c0) reply fr"
      "stream_of (reads c0) = concat frs @ fr @ rest" and o: "\<forall>e \<in> set others. \<not> action_terminal aid e"
    by (auto simp: answered_def request_of_def c0 prompt_def)
  obtain c1 where c1: "send L ''kernel'' ?env c0 = (Ret (), c1)" "reads c1 = reads c0" "polls c1 = polls c0" "clock c1 = clock c0" "same_session c0 c1"
    by (rule send_accepted [OF ws q])
  define c2 where "c2 = snd (request_deadline timeout_ms c1)"
  define d where "d = fst (request_deadline timeout_ms c1)"
  have c2: "reads c2 = reads c0" "polls c2 = polls c0" "clock c2 = clock c0" "ws_active c2 = ws_active c0" "session_key c2 = session_key c0"
    using c1 by (simp_all add: c2_def request_deadline_def now_def Let_def same_session_def)
  have "within_reach d c1" unfolding d_def using request_deadline_reach [OF T, of c1] p c1(4) by (simp add: prompt_def)
  then have reach: "within_reach d c2" using c1(4) c2(3) by (simp add: within_reach_def)
  have s: "settlement aid reply = Some out" using r id by simp
  obtain c3 where "wait_for_response L d (action_terminal aid) c2 = (Ret reply, c3)"
    using wait_for_response_skips [OF L, of c2 others frs "action_terminal aid" reply fr rest d]
      ws fs o p reach c2 settlement_terminal [OF s] by (auto simp: prompt_def)
  then show ?thesis
    using c1(1) s by (auto simp: send_action_def id case_prod_beta c2_def [symmetric] d_def [symmetric] settlement_def kernel_error_def
        split: payload_case.splits if_splits)
qed

lemma send_action_answered:
  assumes "hmac_ok L" "zstd_ok L" "answered L c (request_of c action params timeout_ms) others (envelope (M_action_response resp))"
    and "rs_action_id resp = fst (next_action_id c)" "ample timeout_ms"
  shows "\<exists>c'. send_action L action params timeout_ms c = (Ret resp, c')"
  by (rule send_action_settled [OF assms(1-3) _ assms(5)]) (simp add: settlement_def envelope_def assms(4))

section \<open>The confirmation of an operation\<close>

lemma stamped_simps [simp]:
  "rq_action_id (stamped who req) = rq_action_id req" "rq_action (stamped who req) = rq_action req"
  "rq_params_json (stamped who req) = rq_params_json req" "rq_caller_plugin_id (stamped who req) = who"
  by (simp_all add: stamped_def)

lemma request_of_simps [simp]:
  "rq_action_id (request_of c action params t) = fst (next_action_id c)" "rq_action (request_of c action params t) = action"
  "rq_params_json (request_of c action params t) = params"
  by (simp_all add: request_of_def)

lemma send_confirmation_request_answered:
  assumes L: "hmac_ok L" "zstd_ok L" and a: "answered L c (request_of c (''request_'' @ op) params 0) others
      (response_envelope (fst (next_action_id c)) (ActionResult_Ok d))"
    and d: "json_find_string (string_of d) ''pending_id'' = Inr (Some pid)"
  shows "\<exists>c'. send_confirmation_request L op params c = (Ret pid, c')"
proof -
  let ?r = "\<lparr>rs_action_id = fst (next_action_id c), rs_status = ACTION_OK, rs_data_json = d, rs_error = []\<rparr>"
  have "response_envelope (fst (next_action_id c)) (ActionResult_Ok d) = envelope (M_action_response ?r)" by (simp add: response_envelope_def)
  with send_action_answered [OF L, of c "''request_'' @ op" params 0 others ?r] a obtain c' where
    "send_action L (''request_'' @ op) params 0 c = (Ret ?r, c')" by (auto simp: ample_def)
  with d show ?thesis by (simp add: send_confirmation_request_def)
qed

lemma send_confirmation_answered:
  assumes L: "hmac_ok L" "zstd_ok L" and a: "answered L c (request_of c (''confirm_'' @ op) (bytes_of (confirm_params pid)) 0) others
      (response_envelope (fst (next_action_id c)) result)"
  shows "\<exists>r c'. send_confirmation L op pid c = (Ret r, c') \<and> response_envelope (fst (next_action_id c)) result = envelope (M_action_response r)"
proof -
  obtain r where r: "response_envelope (fst (next_action_id c)) result = envelope (M_action_response r)" "rs_action_id r = fst (next_action_id c)"
    by (cases "ar_ok result") (simp_all add: response_envelope_def)
  with send_action_answered [OF L, of c "''confirm_'' @ op" "bytes_of (confirm_params pid)" 0 others r] a show ?thesis
    by (auto simp: send_confirmation_def ample_def)
qed

section \<open>Demonstration exchanges\<close>

lemma demo_carries:
  "par p = Some env \<Longrightarrow> length p \<le> MAX_PAYLOAD_SIZE \<Longrightarrow> \<exists>fr. fr \<noteq> [] \<and> carries (demo_codec ser par) (Some [7]) env fr"
  using demo_codec_pack [of p ser par "''kernel''" "wire_flags (Some [7]) 0" "Some [7]"] pack_frame_raw_nonempty
  by (fastforce simp: carries_def)

lemma demo_answered:
  assumes "par p = Some reply" "length p \<le> MAX_PAYLOAD_SIZE" "par p' = Some other" "length p' \<le> MAX_PAYLOAD_SIZE"
    and "\<not> action_terminal (rq_action_id req) other" "length (ser (envelope (M_action_request req))) \<le> MAX_PAYLOAD_SIZE"
  shows "\<exists>rs ws. answered (demo_codec ser par) (demo_client rs ws) req [other] reply"
proof -
  obtain fr fr' where f: "fr \<noteq> []" "carries (demo_codec ser par) (Some [7]) reply fr" "carries (demo_codec ser par) (Some [7]) other fr'"
    using demo_carries [of par p reply ser] demo_carries [of par p' other ser] assms by blast
  obtain q where q: "pack_frame_raw (demo_codec ser par) ''kernel'' (wire_flags (Some [7]) 0) (ser (envelope (M_action_request req))) (Some [7]) = Inr q"
    using demo_codec_pack [OF assms(6)] by blast
  let ?c = "demo_client [RData (fr' @ fr)] (replicate (length q) (WCount 5))"
  have c: "session_key ?c = Some [7]" "\<not> ws_active ?c" "prompt (Suc (length [other])) ?c" "accepting (length q) (writes ?c)"
    "stream_of (reads ?c) = concat [fr'] @ fr @ []"
    using f(1) by (simp_all add: demo_client_def prompt_def FRAME_READ_TIMEOUT_MS_def calm_def ready_count_def accepting_def)
  have "list_all2 (carries (demo_codec ser par) (session_key ?c)) [other] [fr']" using f(3) c(1) by simp
  then have "answered (demo_codec ser par) ?c req [other] reply"
    unfolding answered_def using c q f(2) assms(5) by (metis demo_codec_simps(1) empty_iff list.set(1) set_ConsD)
  then show ?thesis by blast
qed

lemma demo_action_id: "fst (next_action_id (demo_client rs ws)) = ''act-0-0''"
proof -
  have "to_string 0 = ''0''" by code_simp
  then show ?thesis by (simp add: next_action_id_def system_now_def Let_def to_string_int_def demo_client_def)
qed

section \<open>Properties\<close>

text \<open>
  C24: A request is settled by the first message that concerns it. Over a Unix socket that takes
  the request, when the stream delivers any number of messages that do not concern the request
  (events, chunks, responses and stream aborts of other requests) and then one that does,
  \<open>send_action\<close> returns the response when that message is the response with the request's id, and
  throws the reported error when it is an abort of its stream or an error of the kernel. The peer is
  prompt: no two clock readings are ten seconds or more apart, the polls report the data, and the
  request's timeout is the default (0) or from 20 seconds up to \<open>2147473647\<close> milliseconds.
\<close>

theorem send_action_completes:
  assumes "hmac_ok L" "zstd_ok L" "answered L c (request_of c action params timeout_ms) others reply"
    and "settlement (fst (next_action_id c)) reply = Some out" "ample timeout_ms"
  shows "\<exists>c'. send_action L action params timeout_ms c = (out, c')"
  using send_action_settled [OF assms] .

text \<open>Witness: an event acknowledgement comes first, then the response; or then a kernel error.\<close>

theorem send_action_completes_witness:
  "(\<exists>(L :: sdklib) (c :: client) resp c'. send_action L ''echo'' [1] 0 c = (Ret resp, c') \<and> rs_data_json resp = [5]) \<and>
   (\<exists>(L :: sdklib) (c :: client) c'. send_action L ''echo'' [1] 0 c = (Throw (VynkorInternal ''kernel error: busy (later)''), c'))"
proof -
  let ?par = "\<lambda>m p. if p = [1] then Some (envelope m) else Some (envelope (M_event_ack ''e''))"
  let ?q = "\<lparr>rq_action_id = ''act-0-0'', rq_action = ''echo'', rq_params_json = [1], rq_timeout_ms = 0, rq_streaming = False, rq_caller_plugin_id = []\<rparr>"
  have run: "\<exists>(L :: sdklib) (c :: client) c'. send_action L ''echo'' [1] 0 c = (out, c')"
    if out: "settlement ''act-0-0'' (envelope m) = Some out" for m out
  proof -
    obtain rs ws where a: "answered (demo_codec (\<lambda>e. []) (?par m)) (demo_client rs ws) ?q [envelope (M_event_ack ''e'')] (envelope m)"
      using demo_answered [of "?par m" "[1]" "envelope m" "[2]" "envelope (M_event_ack ''e'')" ?q "\<lambda>e. []"]
      by (auto simp: MAX_PAYLOAD_SIZE_def action_terminal_def envelope_def)
    have q: "?q = request_of (demo_client rs ws) ''echo'' [1] 0" by (simp add: request_of_def demo_action_id)
    have s: "settlement (fst (next_action_id (demo_client rs ws))) (envelope m) = Some out" using out by (simp add: demo_action_id)
    from send_action_completes [OF demo_codec_ok a [unfolded q] s] show ?thesis by (auto simp: ample_def)
  qed
  let ?r = "\<lparr>rs_action_id = ''act-0-0'', rs_status = ACTION_OK, rs_data_json = [5], rs_error = []\<rparr>"
  have "settlement ''act-0-0'' (envelope (M_action_response ?r)) = Some (Ret ?r)" by (simp add: settlement_def envelope_def)
  from run [OF this] have 1: "\<exists>(L :: sdklib) (c :: client) resp c'. send_action L ''echo'' [1] 0 c = (Ret resp, c') \<and> rs_data_json resp = [5]"
    by fastforce
  let ?x = "\<lparr>er_code = 3, er_message = ''busy'', er_details = ''later''\<rparr>"
  have "settlement ''act-0-0'' (envelope (M_error ?x)) = Some (Throw (VynkorInternal ''kernel error: busy (later)''))"
    by (simp add: settlement_def envelope_def)
  from conjI [OF 1 run [OF this]] show ?thesis .
qed

text \<open>
  C28: The confirmation of an operation, from end to end. A client asks for the operation with
  \<open>send_confirmation_request\<close>; the kernel stamps the caller, the gate of the plugin stores the
  parameters and answers; the client gets the pending id out of the answer. A second client, whose
  stamped id is on the allowlist, passes that id to \<open>send_confirmation\<close> before the request expires:
  the gate runs the executor once, on the first client's parameters, and the second client gets the
  executor's result. Confirming the same id again runs nothing.
\<close>

theorem confirmation_end_to_end:
  assumes "hmac_ok L" "zstd_ok L" "tbl_ok (gt_pending g)" "tbl_find (gt_pending g) (next_pending_id g) = None"
    and "\<forall>i j. gt_clock g i < gt_clock g j + gt_pending_ttl g * 1000000" "may_confirm g who"
    and "req = stamped asker (request_of a (''request_'' @ gt_op g) params 0)"
    and "conf = stamped who (request_of b (''confirm_'' @ gt_op g) (bytes_of (confirm_params (next_pending_id g))) 0)"
    and "executor params = Inr result"
    and "route req executor g = (Inr [reply], calls, g1)" "answered L a (request_of a (''request_'' @ gt_op g) params 0) others reply"
    and "route conf executor g1 = (Inr [reply'], calls', g2)"
    and "answered L b (request_of b (''confirm_'' @ gt_op g) (bytes_of (confirm_params (next_pending_id g))) 0) others' reply'"
  shows "\<exists>a' b' r. send_confirmation_request L (gt_op g) params a = (Ret (next_pending_id g), a') \<and>
    send_confirmation L (gt_op g) (next_pending_id g) b = (Ret r, b') \<and>
    envelope (M_action_response r) = response_envelope (fst (next_action_id b)) result \<and>
    calls = [] \<and> calls' = [params] \<and> fst (snd (route conf executor g2)) = []"
proof -
  obtain d h1 h2 h3 m where g: "route req executor g = (Inr [response_envelope (rq_action_id req) (ActionResult_Ok d)], [], h1)"
    "json_find_string (string_of d) ''pending_id'' = Inr (Some (next_pending_id g))"
    "route conf executor h1 = (bind_result (executor (rq_params_json req)) (\<lambda>r. Inr [response_envelope (rq_action_id conf) r]), [rq_params_json req], h2)"
    "route conf executor h2 = (Inr [response_envelope (rq_action_id conf) (ActionResult_Err m)], [], h3)"
    using gate_request_confirm [of g req conf executor] assms(3-8) by auto
  have r1: "reply = response_envelope (fst (next_action_id a)) (ActionResult_Ok d)" "calls = []" "g1 = h1"
    using g(1) assms(7,10) by simp_all
  have r2: "reply' = response_envelope (fst (next_action_id b)) result" "calls' = [params]" "g2 = h2"
    using g(3) assms(7,8,9,12) r1(3) by (simp_all add: bind_result_def)
  show ?thesis
    using send_confirmation_request_answered [OF assms(1,2) assms(11) [unfolded r1] g(2)]
      send_confirmation_answered [OF assms(1,2) assms(13) [unfolded r2]] r1 r2 g(4) by fastforce
qed

text \<open>Witness: the operation \<open>wipe\<close>, asked for by an assistant and confirmed by an approved application.\<close>

theorem confirmation_end_to_end_witness:
  "\<exists>(L :: sdklib) (a :: client) (b :: client) pid a' b' r.
     send_confirmation_request L ''wipe'' [1, 2] a = (Ret pid, a') \<and> send_confirmation L ''wipe'' pid b = (Ret r, b') \<and>
     rs_status r = ACTION_OK \<and> rs_data_json r = [1, 2]"
proof -
  let ?g = "demo_gate\<lparr>gt_clock := (\<lambda>i. 0)\<rparr>" and ?x = "\<lambda>p. Inr (ActionResult_Ok p)"
  let ?pid = "next_pending_id ?g"
  let ?q = "request_of (demo_client [] []) (''request_'' @ gt_op ?g) [1, 2] 0"
  let ?k = "request_of (demo_client [] []) (''confirm_'' @ gt_op ?g) (bytes_of (confirm_params ?pid)) 0"
  have g: "tbl_ok (gt_pending ?g)" "tbl_find (gt_pending ?g) ?pid = None" "\<forall>i j. gt_clock ?g i < gt_clock ?g j + gt_pending_ttl ?g * 1000000"
    "may_confirm ?g ''ui.main''" "gt_op ?g = ''wipe''"
    by (simp_all add: demo_gate_def may_confirm_def caller_allowed_def starts_with_def next_pending_id_def)
  obtain d g1 g2 where r: "route (stamped ''ai'' ?q) ?x ?g = (Inr [response_envelope ''act-0-0'' (ActionResult_Ok d)], [], g1)"
    "route (stamped ''ui.main'' ?k) ?x g1 = (Inr [response_envelope ''act-0-0'' (ActionResult_Ok [1, 2])], [[1, 2]], g2)"
    using gate_request_confirm [of ?g "stamped ''ai'' ?q" "stamped ''ui.main'' ?k" ?x] g by (auto simp: demo_action_id bind_result_def)
  let ?e1 = "response_envelope ''act-0-0'' (ActionResult_Ok d)" and ?e2 = "response_envelope ''act-0-0'' (ActionResult_Ok [1, 2])"
  let ?o = "envelope (M_event_ack ''e'')"
  let ?par = "\<lambda>p. if p = [1] then Some ?e1 else if p = [2] then Some ?e2 else Some ?o"
  let ?L = "demo_codec (\<lambda>e. []) ?par"
  have o: "\<not> action_terminal i ?o" for i by (simp add: action_terminal_def envelope_def)
  obtain rs ws rs' ws' where a: "answered ?L (demo_client rs ws) ?q [?o] ?e1" and b: "answered ?L (demo_client rs' ws') ?k [?o] ?e2"
    using demo_answered [of ?par "[1]" ?e1 "[3]" ?o ?q "\<lambda>e. []"] demo_answered [of ?par "[2]" ?e2 "[3]" ?o ?k "\<lambda>e. []"] o
    by (auto simp: MAX_PAYLOAD_SIZE_def)
  have same: "request_of (demo_client rs ws) x y z = request_of (demo_client [] []) x y z" for rs ws x y z
    by (simp add: request_of_def demo_action_id)
  from confirmation_end_to_end [OF demo_codec_ok g(1-4) refl refl _ r(1) [folded same [of rs ws]] a [folded same [of rs ws]]
      r(2) [folded same [of rs' ws']] b [folded same [of rs' ws']]]
  obtain a' b' r where "send_confirmation_request ?L (gt_op ?g) [1, 2] (demo_client rs ws) = (Ret ?pid, a')"
    "send_confirmation ?L (gt_op ?g) ?pid (demo_client rs' ws') = (Ret r, b')"
    "envelope (M_action_response r) = response_envelope ''act-0-0'' (ActionResult_Ok [1, 2])"
    by (auto simp: demo_action_id)
  then show ?thesis unfolding g(5) by (fastforce simp: response_envelope_def envelope_def)
qed

end
