(* ===== verification/Vyn_Plugin.thy ===== *)
theory Vyn_Plugin
  imports Vyn_Client_Spec
begin

text \<open>
  \<open>Plugin\<close> of \<^verbatim>\<open>include/vynkor/plugin.hpp\<close>: the lifecycle \<open>run\<close>, \<open>run_with\<close>, \<open>run_ws\<close> and
  \<open>serve\<close>. The virtual functions a plugin author overrides are the fields of the record
  \<open>plugin\<close>; they act on the state of the served client, extended with whatever the plugin object
  holds itself. The calls made to them are returned as a trace.

  The receive loop ends when the connection does; the model runs it with fuel. When the callbacks
  do not put input back on the connection (none of the SDK's operations does), more fuel than the
  script has bytes is enough.
\<close>

section \<open>The plugin and its client\<close>

text \<open>\<open>client_view\<close> says whether the member \<^verbatim>\<open>client_\<close> points to the client.\<close>

record hosted = client +
  client_view :: bool

record 's plugin =
  pl_id :: string
  pl_version :: string
  pl_manifest :: PluginManifest
  pl_on_init :: "'s \<Rightarrow> unit outcome \<times> 's"
  pl_on_message :: "Envelope \<Rightarrow> 's \<Rightarrow> Envelope option outcome \<times> 's"
  pl_on_event :: "Event \<Rightarrow> 's \<Rightarrow> Envelope option outcome \<times> 's"
  pl_on_shutdown :: "'s \<Rightarrow> unit outcome \<times> 's"

definition empty_manifest :: PluginManifest where
  "empty_manifest = \<lparr>mf_permissions = [], mf_actions = [], mf_events = [], mf_ipc_targets = [], mf_platforms = [], mf_action_specs = []\<rparr>"

text \<open>The defaults of the base class, for an id and an \<open>on_message\<close>.\<close>

definition base_plugin :: "string \<Rightarrow> (Envelope \<Rightarrow> 's \<Rightarrow> Envelope option outcome \<times> 's) \<Rightarrow> 's plugin" where
  "base_plugin pid msg = \<lparr>pl_id = pid, pl_version = ''1.0.0'', pl_manifest = empty_manifest, pl_on_init = (\<lambda>s. (Ret (), s)),
     pl_on_message = msg, pl_on_event = (\<lambda>e s. (Ret None, s)), pl_on_shutdown = (\<lambda>s. (Ret (), s))\<rparr>"

datatype plugin_call = OnInit | OnEvent Event | OnMessage Envelope | OnShutdown

section \<open>The receive loop\<close>

text \<open>
  How the loop ends: left by \<^verbatim>\<open>break\<close>, with the handler's exception if there was one; by an
  exception that no handler in \<open>serve\<close> catches; waiting in a system call; out of fuel.
\<close>

datatype loop_end = Ended "vyn_error option" | Escaped vyn_error | Blocked | NoFuel

definition pong_for :: "u64 \<Rightarrow> 'a client_scheme \<Rightarrow> Envelope \<times> 'a client_scheme" where
  "pong_for ts c = (let (ms, c) = system_now c in
     (envelope (M_pong \<lparr>pg_original_timestamp = ts, pg_server_timestamp = word_of_int ms\<rparr>), c))"

definition send_reply :: "'l sdklib_scheme \<Rightarrow> Envelope option \<Rightarrow> 'a client_scheme \<Rightarrow> unit outcome \<times> 'a client_scheme" where
  "send_reply L reply c = (case reply of None \<Rightarrow> (Ret (), c) | Some r \<Rightarrow> send L ''kernel'' r c)"

definition serve_event :: "'l sdklib_scheme \<Rightarrow> 'a hosted_scheme plugin \<Rightarrow> Event \<Rightarrow> 'a hosted_scheme \<Rightarrow> unit outcome \<times> 'a hosted_scheme" where
  "serve_event L P ev c =
     andthen (pl_on_event P ev c) (\<lambda>reply c.
       andthen (ack_event L (ev_event_id ev) c) (\<lambda>_ c. send_reply L reply c))"

text \<open>One message; \<open>None\<close> is \<^verbatim>\<open>continue\<close>.\<close>

definition serve_one ::
    "'l sdklib_scheme \<Rightarrow> 'a hosted_scheme plugin \<Rightarrow> Envelope \<Rightarrow> 'a hosted_scheme \<Rightarrow> loop_end option \<times> plugin_call list \<times> 'a hosted_scheme" where
  "serve_one L P env c =
     (case en_payload env of
        M_plugin_shutdown _ \<Rightarrow> (Some (Ended None), [], c)
      | M_ping ts \<Rightarrow>
          (let (pong, c) = pong_for ts c in
           (case send L ''kernel'' pong c of
              (Ret _, c) \<Rightarrow> (None, [], c)
            | (Throw e, c) \<Rightarrow> (Some (Escaped e), [], c)
            | (Pending, c) \<Rightarrow> (Some Blocked, [], c)))
      | M_event ev \<Rightarrow>
          (case serve_event L P ev c of
             (Pending, c) \<Rightarrow> (Some Blocked, [OnEvent ev], c)
           | (_, c) \<Rightarrow> (None, [OnEvent ev], c))
      | _ \<Rightarrow>
          (case andthen (pl_on_message P env c) (\<lambda>reply c. send_reply L reply c) of
             (Ret _, c) \<Rightarrow> (None, [OnMessage env], c)
           | (Throw e, c) \<Rightarrow> (Some (Ended (Some e)), [OnMessage env], c)
           | (Pending, c) \<Rightarrow> (Some Blocked, [OnMessage env], c)))"

fun serve_loop ::
    "nat \<Rightarrow> 'l sdklib_scheme \<Rightarrow> 'a hosted_scheme plugin \<Rightarrow> 'a hosted_scheme \<Rightarrow> loop_end \<times> plugin_call list \<times> 'a hosted_scheme" where
  "serve_loop 0 L P c = (NoFuel, [], c)"
| "serve_loop (Suc n) L P c =
     (case recv L c of
        (Throw e, c) \<Rightarrow> (Ended None, [], c)
      | (Pending, c) \<Rightarrow> (Blocked, [], c)
      | (Ret env, c) \<Rightarrow>
          (case serve_one L P env c of
             (Some r, calls, c) \<Rightarrow> (r, calls, c)
           | (None, calls, c) \<Rightarrow> (let (r, more, c) = serve_loop n L P c in (r, calls @ more, c))))"

section \<open>Serving\<close>

text \<open>\<open>on_shutdown\<close>, then clear the view and finish with \<open>r\<close>, unless \<open>on_shutdown\<close> throws.\<close>

definition shut_down ::
    "'a hosted_scheme plugin \<Rightarrow> unit outcome \<Rightarrow> plugin_call list \<Rightarrow> 'a hosted_scheme \<Rightarrow> unit outcome option \<times> plugin_call list \<times> 'a hosted_scheme" where
  "shut_down P r calls c =
     (case pl_on_shutdown P c of
        (Ret _, c) \<Rightarrow> (Some r, calls @ [OnShutdown], c\<lparr>client_view := False\<rparr>)
      | (Throw e, c) \<Rightarrow> (Some (Throw e), calls @ [OnShutdown], c)
      | (Pending, c) \<Rightarrow> (Some Pending, calls @ [OnShutdown], c))"

definition serve_registered ::
    "nat \<Rightarrow> 'l sdklib_scheme \<Rightarrow> 'a hosted_scheme plugin \<Rightarrow> 'a hosted_scheme \<Rightarrow> unit outcome option \<times> plugin_call list \<times> 'a hosted_scheme" where
  "serve_registered n L P c =
     (case pl_on_init P c of
        (Throw e, c) \<Rightarrow> shut_down P (Throw e) [OnInit] c
      | (Pending, c) \<Rightarrow> (Some Pending, [OnInit], c)
      | (Ret _, c) \<Rightarrow>
          (case serve_loop n L P c of
             (NoFuel, calls, c) \<Rightarrow> (None, OnInit # calls, c)
           | (Blocked, calls, c) \<Rightarrow> (Some Pending, OnInit # calls, c)
           | (Escaped e, calls, c) \<Rightarrow> (Some (Throw e), OnInit # calls, c)
           | (Ended err, calls, c) \<Rightarrow>
               shut_down P (case err of None \<Rightarrow> Ret () | Some e \<Rightarrow> Throw e) (OnInit # calls) c))"

definition serve ::
    "nat \<Rightarrow> 'l sdklib_scheme \<Rightarrow> 'a hosted_scheme plugin \<Rightarrow> string \<Rightarrow> 'a hosted_scheme \<Rightarrow> unit outcome option \<times> plugin_call list \<times> 'a hosted_scheme" where
  "serve n L P jwt_token c =
     (case register_full L (pl_id P) (pl_version P) (pl_manifest P) jwt_token (c\<lparr>client_view := True\<rparr>) of
        (Throw e, c) \<Rightarrow> (Some (Throw e), [], c)
      | (Pending, c) \<Rightarrow> (Some Pending, [], c)
      | (Ret ack, c) \<Rightarrow>
          if \<not> ak_accepted ack
          then (Some (Throw (VynkorPermissionDenied (''registration rejected: '' @ ak_reject_reason ack))), [], c\<lparr>client_view := False\<rparr>)
          else serve_registered n L P c)"

text \<open>
  The client is a local of \<open>run_with\<close> and \<open>run_ws\<close>: its destructor closes it on every way out. (A
  connection attempt that throws leaves nothing open.)
\<close>

definition close_after ::
    "unit outcome option \<times> plugin_call list \<times> 'a hosted_scheme \<Rightarrow> unit outcome option \<times> plugin_call list \<times> 'a hosted_scheme" where
  "close_after x = (case x of (r, calls, c) \<Rightarrow>
     if r = None \<or> r = Some Pending then (r, calls, c) else (r, calls, client_destroy c))"

definition serve_connected ::
    "nat \<Rightarrow> 'l sdklib_scheme \<Rightarrow> 'a hosted_scheme plugin \<Rightarrow> string \<Rightarrow> unit outcome \<times> 'a hosted_scheme \<Rightarrow> unit outcome option \<times> plugin_call list \<times> 'a hosted_scheme" where
  "serve_connected n L P token x = (case x of
      (Throw e, c) \<Rightarrow> (Some (Throw e), [], c)
    | (Pending, c) \<Rightarrow> (Some Pending, [], c)
    | (Ret _, c) \<Rightarrow> close_after (serve n L P token c))"

definition run_with ::
    "nat \<Rightarrow> 'l sdklib_scheme \<Rightarrow> 'a hosted_scheme plugin \<Rightarrow> os_env \<Rightarrow> string \<Rightarrow> 'a hosted_scheme \<Rightarrow> unit outcome option \<times> plugin_call list \<times> 'a hosted_scheme" where
  "run_with n L P E path c =
     serve_connected n L P (resolve_jwt_token E []) (client_connect (client_for_path path (resolve_jwt_secret E []) c))"

definition run ::
    "nat \<Rightarrow> 'l sdklib_scheme \<Rightarrow> 'a hosted_scheme plugin \<Rightarrow> os_env \<Rightarrow> 'a hosted_scheme \<Rightarrow> unit outcome option \<times> plugin_call list \<times> 'a hosted_scheme" where
  "run n L P E c = (let (path, E) = default_socket_path E in run_with n L P E path c)"

definition run_ws ::
    "nat \<Rightarrow> 'l sdklib_scheme \<Rightarrow> 'a hosted_scheme plugin \<Rightarrow> os_env \<Rightarrow> ws_env \<Rightarrow> string \<Rightarrow> 'a hosted_scheme \<Rightarrow> unit outcome option \<times> plugin_call list \<times> 'a hosted_scheme" where
  "run_ws n L P E W url c =
     (let token = resolve_jwt_token E [] in
      (case resolve_ws_credentials_from_env E of
         Inl e \<Rightarrow> (Some (Throw e), [], c)
       | Inr creds \<Rightarrow> serve_connected n L P token
           (if wc_kind creds = Device then connect_ws_device L W url token (wc_device_id creds) (wc_secret creds) c
            else connect_ws L W url token (wc_secret creds) c)))"

end
