(* ===== verification/Vyn_Input.thy ===== *)
theory Vyn_Input
  imports Vyn_Session
begin

text \<open>
  No operation of the client puts input back: what a connection still delivers (\<open>bytes_left\<close>) stays
  the same through sending, and never grows through receiving or through a request to the kernel,
  however the operation ends. Code built from these operations keeps the receive loops finite.
\<close>

section \<open>Sending\<close>

lemma write_all_bytes_left: "bytes_left (snd (write_all fr c)) = bytes_left c"
  for c :: "'a net_scheme"
proof -
  have "reads (snd (write_all fr w)) = reads w" for w :: "'b world_scheme"
  proof (induction fr w rule: write_all.induct)
    case (1 fr w)
    obtain r w' where s: "sys_write fr w = (r, w')" by fastforce
    have "reads w' = reads w" using s by (auto simp: sys_write_def split: list.splits write_res.splits)
    with 1 s show ?case
      by (auto simp: write_all.simps [of fr w] split: option.splits write_res.splits)
  qed
  then have r: "reads (snd (write_all fr c)) = reads c" .
  define d where "d = snd (write_all fr c)"
  have "world.more d = world.more c" unfolding d_def by (rule write_all_more)
  then have "ssl_reads d = ssl_reads c" "read_buf d = read_buf c" by (cases c; cases d; simp)+
  with r show ?thesis by (simp add: bytes_left_def d_def)
qed

lemma ws_send_frame_bytes_left: "bytes_left (snd (ws_send_frame opc p c)) = bytes_left c"
  by (rule bytes_left_writes_only [OF ws_send_frame_only])

lemma send_bytes_left [simp]: "bytes_left (snd (send L target env c)) = bytes_left c"
  using write_all_bytes_left ws_send_frame_bytes_left
  by (auto simp: send_def send_raw_def send_raw_with_flags_def run_result_def Let_def send_binary_def split: sum.splits)

section \<open>Receiving\<close>

lemmas andthen_bytes_left = andthen_snd [where I = "\<lambda>c. bytes_left c \<le> k" for k]

lemma recv_bytes_left: "recv L c = (Ret env, c') \<Longrightarrow> bytes_left c' < bytes_left c"
  by (auto simp: recv_def recv_frame_def andthen_Ret dest: recv_frame_with_deadline_progress)

lemma bytes_left_session_key [simp]: "bytes_left (c\<lparr>session_key := k\<rparr>) = bytes_left c"
  by (simp add: bytes_left_def)

lemma register_bytes_left:
  assumes "register_full L pid v m jwt c = (Ret ack, c')"
  shows "bytes_left c' < bytes_left c"
proof (rule register_full_Ret [OF assms])
  fix c1 env c2
  assume s: "send L ''kernel'' (envelope (M_plugin_register \<lparr>rg_plugin_id = pid, rg_version = v,
      rg_manifest = m, rg_jwt_token = jwt, rg_device_id = device_id c\<rparr>)) c = (Ret (), c1)" and r: "recv L c1 = (Ret env, c2)"
    and k: "if secret c2 \<noteq> [] \<and> ak_session_nonce ack \<noteq> []
     then \<exists>k. derive_session_key L (secret c2) (ak_session_nonce ack) pid = Inr k \<and> c' = c2\<lparr>session_key := Some k\<rparr> else c' = c2"
  have "bytes_left c1 = bytes_left c" using send_bytes_left s by (metis snd_conv)
  moreover have "bytes_left c' = bytes_left c2" using k by (auto split: if_splits)
  ultimately show ?thesis using recv_bytes_left [OF r] by simp
qed

lemma read_transport_frame_input: "bytes_left (snd (read_transport_frame L d c)) \<le> bytes_left c"
proof (cases "ws_active c")
  case True
  obtain r w where "receive_loop d False [] c = (r, w)" by fastforce
  with receive_loop_bytes_left [OF this] True show ?thesis
    by (cases r) (simp_all add: read_transport_frame_def receive_binary_deadline_def)
next
  case False
  have uds: "read_step c r \<Longrightarrow> bytes_left (snd r) \<le> bytes_left c" for r :: "FrameResult outcome \<times> 'a client_scheme"
    using reads_only_net [of c "snd r"] by (simp add: read_step_def bytes_left_def)
  from False show ?thesis
    using uds [OF read_frame_full_with_timeout_step] uds [OF read_frame_full_with_deadline_step]
    by (cases d) (simp_all add: read_transport_frame_def read_frame_full_def)
qed

lemma recv_frame_input: "bytes_left (snd (recv_frame_with_deadline L d c)) \<le> bytes_left c"
proof (induction "bytes_left c" arbitrary: c rule: less_induct)
  case less
  obtain r c1 where r: "read_transport_frame L d c = (r, c1)" by fastforce
  have le: "bytes_left c1 \<le> bytes_left c" using read_transport_frame_input [of L d c] r by simp
  show ?case
  proof (cases r)
    case (Ret f)
    obtain a c2 where a: "client_absorb f c1 = (a, c2)" by fastforce
    have eq: "bytes_left c2 = bytes_left c1" by (rule client_absorb_bytes_left [OF a])
    have "bytes_left c1 < bytes_left c" using read_transport_frame_progress r Ret by metis
    then have "bytes_left (snd (recv_frame_with_deadline L d c2)) \<le> bytes_left c" using less.hyps [of c2] eq by simp
    then show ?thesis using r Ret a le eq
      by (auto simp: recv_frame_with_deadline.simps [of L d c] split: outcome.splits option.splits)
  qed (use r le in \<open>simp_all add: recv_frame_with_deadline.simps [of L d c]\<close>)
qed

section \<open>Requests\<close>

lemma send_raw_with_flags_input: "bytes_left (snd (send_raw_with_flags L target flags payload c)) = bytes_left c"
  using write_all_bytes_left ws_send_frame_bytes_left
  by (auto simp: send_raw_with_flags_def run_result_def Let_def send_binary_def split: sum.splits)

text \<open>Every operation of the client leaves at most the input there was.\<close>

interpretation inp: client_object L "\<lambda>c. bytes_left c \<le> k" for L k
proof unfold_locales
  show "bytes_left c \<le> k \<Longrightarrow> bytes_left (snd (recv_frame_with_deadline L deadline c)) \<le> k" for c deadline
    by (rule order_trans [OF recv_frame_input])
qed (simp_all add: send_raw_with_flags_input, simp_all add: now_def system_now_def bytes_left_def)

end
