(* ===== verification/Vyn_Plugin_Spec.thy ===== *)
theory Vyn_Plugin_Spec
  imports Vyn_Plugin Vyn_Input
begin

text \<open>
  What \<open>serve\<close> guarantees a plugin author: the order of the callbacks, that the loop ends, when an
  event is acknowledged, and where an exception goes.
\<close>

section \<open>Callbacks that leave the input alone\<close>

lemma send_reply_bytes_left [simp]: "bytes_left (snd (send_reply L reply c)) = bytes_left c"
  by (simp add: send_reply_def split: option.splits)

definition tame :: "'a hosted_scheme plugin \<Rightarrow> bool" where
  "tame P \<longleftrightarrow> (\<forall>env s. bytes_left (snd (pl_on_message P env s)) \<le> bytes_left s) \<and>
     (\<forall>ev s. bytes_left (snd (pl_on_event P ev s)) \<le> bytes_left s)"

lemma pong_for_bytes_left: "bytes_left (snd (pong_for ts c)) = bytes_left c"
  by (simp add: pong_for_def system_now_def bytes_left_def)

lemma serve_one_bytes_left:
  assumes "tame P" "serve_one L P env c = (r, calls, c')"
  shows "bytes_left c' \<le> bytes_left c"
proof -
  have ev: "bytes_left (snd (serve_event L P e c)) \<le> bytes_left c" for e
    unfolding serve_event_def ack_event_def
    by (intro andthen_bytes_left) (use assms(1) in \<open>auto simp: tame_def\<close>)
  have msg: "bytes_left (snd (andthen (pl_on_message P env c) (\<lambda>reply c. send_reply L reply c))) \<le> bytes_left c"
    by (intro andthen_bytes_left) (use assms(1) in \<open>auto simp: tame_def\<close>)
  have pong: "bytes_left (snd (send L ''kernel'' (fst (pong_for ts c)) (snd (pong_for ts c)))) = bytes_left c" for ts
    by (simp add: send_bytes_left pong_for_bytes_left)
  show ?thesis
    using assms(2) ev msg pong
    unfolding serve_one_def
    by (cases "en_payload env") (fastforce simp: case_prod_beta prod_eq_iff split: outcome.splits)+
qed

lemma serve_loop_fuel:
  "tame P \<Longrightarrow> bytes_left c < n \<Longrightarrow> fst (serve_loop n L P c) \<noteq> NoFuel"
proof (induction n arbitrary: c)
  case (Suc n)
  have one: "serve_one L P env c1 = (Some r, calls, c2) \<Longrightarrow> r \<noteq> NoFuel" for env c1 r calls c2
    by (auto simp: serve_one_def split: payload_case.splits prod.splits outcome.splits)
  have "bytes_left c2 < n" if "recv L c = (Ret env, c1)" "serve_one L P env c1 = (None, calls, c2)" for env c1 calls c2
    using recv_bytes_left [OF that(1)] serve_one_bytes_left [OF Suc.prems(1) that(2)] Suc.prems(2) by simp
  with Suc.IH [OF Suc.prems(1)] one show ?case
    by (auto split: prod.splits outcome.splits option.splits) (metis fst_conv)+
qed simp

lemma serve_ends:
  assumes "tame P" "\<And>s. bytes_left (snd (pl_on_init P s)) \<le> bytes_left s" "bytes_left c \<le> n"
  shows "\<exists>r calls c'. serve n L P jwt_token c = (Some r, calls, c')"
proof -
  let ?c = "c\<lparr>client_view := True\<rparr>"
  obtain x c1 where x: "register_full L (pl_id P) (pl_version P) (pl_manifest P) jwt_token ?c = (x, c1)" by fastforce
  show ?thesis
  proof (cases "\<exists>ack. x = Ret ack \<and> ak_accepted ack")
    case False
    then show ?thesis using x by (cases x) (auto simp: serve_def)
  next
    case True
    then obtain ack where "register_full L (pl_id P) (pl_version P) (pl_manifest P) jwt_token ?c = (Ret ack, c1)" using x by blast
    from register_bytes_left [OF this] have lt: "bytes_left c1 < bytes_left c" by (simp add: bytes_left_def)
    obtain y c4 where y: "pl_on_init P c1 = (y, c4)" by fastforce
    have "bytes_left c4 < n" using assms(2) [of c1] y lt assms(3) by simp
    then have "fst (serve_loop n L P c4) \<noteq> NoFuel" by (rule serve_loop_fuel [OF assms(1)])
    then show ?thesis
      using True x y by (cases y; cases "serve_loop n L P c4"; cases "fst (serve_loop n L P c4)")
        (auto simp: serve_def serve_registered_def shut_down_def split: prod.splits outcome.splits)
  qed
qed

text \<open>The same for a plugin run from the start: connecting neither adds nor takes input.\<close>

lemma run_with_ends:
  assumes "tame P" "\<And>s. bytes_left (snd (pl_on_init P s)) \<le> bytes_left s" "bytes_left c \<le> n"
  shows "\<exists>r calls c'. run_with n L P E path c = (Some r, calls, c')"
proof -
  let ?c = "client_for_path path (resolve_jwt_secret E []) c"
  obtain x c1 where x: "client_connect ?c = (x, c1)" by fastforce
  then have "bytes_left c1 = bytes_left c"
    by (auto simp: client_connect_def client_close_def client_for_path_def Let_def bytes_left_def split: if_splits)
  with assms(3) obtain r calls c2 where "serve n L P (resolve_jwt_token E []) c1 = (Some r, calls, c2)"
    using serve_ends [OF assms(1,2)] by metis
  with x show ?thesis by (cases x) (simp_all add: run_with_def serve_connected_def close_after_def)
qed

lemma run_ends:
  assumes "tame P" "\<And>s. bytes_left (snd (pl_on_init P s)) \<le> bytes_left s" "bytes_left c \<le> n"
  shows "\<exists>r calls c'. run n L P E c = (Some r, calls, c')"
  unfolding run_def case_prod_beta Let_def by (rule run_with_ends [OF assms])

section \<open>The order of the callbacks\<close>

definition inner :: "plugin_call list \<Rightarrow> bool" where
  "inner calls \<longleftrightarrow> OnInit \<notin> set calls \<and> OnShutdown \<notin> set calls"

definition pong_failed :: "'l sdklib_scheme \<Rightarrow> vyn_error \<Rightarrow> 'a hosted_scheme \<Rightarrow> bool" where
  "pong_failed L e c' \<longleftrightarrow> (\<exists>ts c1. send L ''kernel'' (fst (pong_for ts c1)) (snd (pong_for ts c1)) = (Throw e, c'))"

lemma serve_one_calls:
  assumes "serve_one L P env c = (r, calls, c')"
  shows "inner calls" "r = Some (Escaped e) \<Longrightarrow> pong_failed L e c'"
proof -
  show "inner calls"
    using assms by (auto simp: serve_one_def inner_def split: payload_case.splits prod.splits outcome.splits)
  assume r: "r = Some (Escaped e)"
  then obtain ts where "en_payload env = M_ping ts"
    using assms by (cases "en_payload env") (auto simp: serve_one_def split: prod.splits outcome.splits)
  with assms r have "send L ''kernel'' (fst (pong_for ts c)) (snd (pong_for ts c)) = (Throw e, c')"
    by (auto simp: serve_one_def case_prod_beta split: outcome.splits prod.splits) (metis prod.collapse)
  then show "pong_failed L e c'" unfolding pong_failed_def by blast
qed

lemma serve_loop_calls:
  "serve_loop n L P c = (r, calls, c') \<Longrightarrow> inner calls \<and> (\<forall>e. r = Escaped e \<longrightarrow> pong_failed L e c')"
proof (induction n arbitrary: c calls)
  case 0
  then show ?case by (simp add: inner_def)
next
  case (Suc n)
  obtain x c1 where x: "recv L c = (x, c1)" by fastforce
  show ?case
  proof (cases x)
    case (Ret env)
    obtain y now_calls c2 where y: "serve_one L P env c1 = (y, now_calls, c2)" by (metis prod_cases3)
    show ?thesis
    proof (cases y)
      case None
      obtain r' more c3 where "serve_loop n L P c2 = (r', more, c3)" by (metis prod_cases3)
      with Suc x y Ret None serve_one_calls(1) [OF y] show ?thesis by (auto simp: inner_def)
    next
      case (Some z)
      with Suc.prems x y Ret serve_one_calls [OF y] show ?thesis by auto
    qed
  qed (use Suc.prems x in \<open>auto simp: inner_def\<close>)
qed

lemma shut_down_calls:
  "shut_down P r calls c = (Some r', calls', c') \<Longrightarrow> calls' = calls @ [OnShutdown]"
  by (auto simp: shut_down_def split: prod.splits outcome.splits)

section \<open>A run\<close>

text \<open>A plugin with the defaults of the base class registers and is told to shut down.\<close>

definition demo_hosted :: "read_res list \<Rightarrow> write_res list \<Rightarrow> hosted" where
  "demo_hosted rs ws = \<lparr>reads = rs, polls = replicate 20 PReady, polled = [], writes = ws, sent = [],
     clock = (\<lambda>i. 0), ticks = 0, tls = False, ssl_reads = [], ssl_writes = [], read_buf = [], rng = (\<lambda>i j. 0),
     rand_ok = (\<lambda>i. True), draws = 0, ws_open = False, socket_path = [], fd = 3, ws_active = False, secret = [],
     device_id = [], session_key = Some [7], reassembly = [], next_stream_id = 1, g_action_seq = 0,
     sys_millis = (\<lambda>i. 0), sys_ticks = 0, socket_result = 3, connect_result = True, client_view = False\<rparr>"

definition demo_plugin :: "hosted plugin" where
  "demo_plugin = base_plugin ''echo'' (\<lambda>e s. (Ret None, s))"

lemma demo_plugin_tame: "tame demo_plugin" "bytes_left (snd (pl_on_init demo_plugin s)) \<le> bytes_left s"
  by (simp_all add: tame_def demo_plugin_def base_plugin_def)

lemma demo_serve:
  "\<exists>(L :: sdklib) c c'. \<forall>n. serve (Suc n) L demo_plugin [] c = (Some (Ret ()), [OnInit, OnShutdown], c')"
proof -
  let ?a = "\<lparr>ak_accepted = True, ak_reject_reason = [], ak_granted_permissions = [], ak_session_nonce = []\<rparr>"
  let ?bye = "envelope (M_plugin_shutdown \<lparr>sd_reason = [], sd_grace_seconds = 0\<rparr>)"
  let ?par = "\<lambda>p. Some (if p = [1] then envelope (M_plugin_register_ack ?a) else ?bye)"
  let ?L = "demo_codec (\<lambda>e. []) ?par" let ?f = "wire_flags (Some [7]) 0"
  obtain q where q: "pack_frame_raw ?L ''kernel'' ?f [] (Some [7]) = Inr q" using demo_codec_pack [of "[]"] by simp blast
  obtain f1 where f1: "pack_frame_raw ?L ''kernel'' ?f [1] (Some [7]) = Inr f1"
    using demo_codec_pack [of "[1]"] by (simp add: MAX_PAYLOAD_SIZE_def) blast
  obtain f2 where f2: "pack_frame_raw ?L ''kernel'' ?f [2] (Some [7]) = Inr f2"
    using demo_codec_pack [of "[2]"] by (simp add: MAX_PAYLOAD_SIZE_def) blast
  let ?h = "demo_hosted [RData (f1 @ f2)] [WCount (length q)]" let ?c = "?h\<lparr>client_view := True\<rparr>"
  let ?e = "envelope (M_plugin_register \<lparr>rg_plugin_id = ''echo'', rg_version = ''1.0.0'', rg_manifest = empty_manifest, rg_jwt_token = [],
      rg_device_id = device_id ?c\<rparr>)"
  have c: "session_key ?c = Some [7]" "\<not> ws_active ?c" "writes ?c = WCount (length q) # []" "stream_of (reads ?c) = f1 @ f2" "quiet (Suc 1) ?c"
    using pack_frame_raw_nonempty [OF f1]
    by (simp_all add: demo_hosted_def quiet_def calm_def ready_count_def FRAME_READ_TIMEOUT_MS_def)
  have q': "pack_frame_raw ?L ''kernel'' ?f (SerializeToString ?L ?e) (Some [7]) = Inr q" by (simp add: q)
  have p: "ParseFromArray ?L [1] = Some (envelope (M_plugin_register_ack ?a))" "ParseFromArray ?L [2] = Some ?bye" by simp_all
  obtain c1 c2 where x: "send ?L ''kernel'' ?e ?c = (Ret (), c1)" "recv ?L c1 = (Ret (envelope (M_plugin_register_ack ?a)), c2)" "same_session ?c c2"
    "stream_of (reads c2) = f2" "quiet 1 c2"
    by (rule demo_exchange [OF c(1,2) demo_codec_ok q' c(3) f1 c(4,5) p(1)])
  have reg: "register_full ?L ''echo'' ''1.0.0'' empty_manifest [] ?c = (Ret ?a, c2)" using x(1,2) by (simp add: register_full_def)
  have k: "\<not> ws_active c2" "pack_frame_raw ?L ''kernel'' (wire_flags (session_key c2) 0) [2] (session_key c2) = Inr f2"
    "stream_of (reads c2) = f2 @ []" "quiet (Suc 0) c2"
    using x(3-5) f2 c(1,2) by (simp_all add: same_session_def)
  obtain c3 where c3: "recv ?L c2 = (Ret ?bye, c3)" by (rule recv_pack [OF demo_codec_ok k p(2)])
  have "serve (Suc n) ?L demo_plugin [] ?h = (Some (Ret ()), [OnInit, OnShutdown], c3\<lparr>client_view := False\<rparr>)" for n
    using reg c3 by (simp add: serve_def serve_registered_def demo_plugin_def base_plugin_def serve_one_def shut_down_def)
  then show ?thesis by blast
qed

section \<open>Properties\<close>

text \<open>
  C34: The callbacks come in order. A run of \<open>serve\<close> that is over made no callback, because the
  registration failed; or it called \<open>on_init\<close> first, then the message and event handlers, then
  \<open>on_shutdown\<close> exactly once and last; or it was ended by an exception from answering a ping,
  and then \<open>on_shutdown\<close> was never called.
\<close>

theorem serve_lifecycle:
  assumes "serve n L P jwt_token c = (Some r, calls, c')" "r \<noteq> Pending"
  shows "(calls = [] \<and> (\<exists>e. r = Throw e)) \<or> (\<exists>mid. calls = OnInit # mid @ [OnShutdown] \<and> inner mid) \<or>
    (\<exists>mid e. calls = OnInit # mid \<and> inner mid \<and> r = Throw e \<and> pong_failed L e c')"
proof -
  obtain x c1 where x: "register_full L (pl_id P) (pl_version P) (pl_manifest P) jwt_token (c\<lparr>client_view := True\<rparr>) = (x, c1)" by fastforce
  show ?thesis
  proof (cases "\<exists>ack. x = Ret ack \<and> ak_accepted ack")
    case False
    then show ?thesis using assms x by (cases x) (auto simp: serve_def split: if_splits)
  next
    case True
    then have reg: "serve_registered n L P c1 = (Some r, calls, c')" using assms x by (auto simp: serve_def)
    obtain y c2 where y: "pl_on_init P c1 = (y, c2)" by fastforce
    obtain e loop_calls c3 where l: "serve_loop n L P c2 = (e, loop_calls, c3)" by (metis prod_cases3)
    note lc = serve_loop_calls [OF l]
    from reg y l lc assms(2) show ?thesis
      by (cases y; cases e) (auto simp: serve_registered_def inner_def dest!: shut_down_calls)
  qed
qed

theorem serve_lifecycle_witness:
  "\<exists>(L :: sdklib) (c :: hosted) calls c' mid. serve 1 L demo_plugin [] c = (Some (Ret ()), calls, c') \<and>
     calls = OnInit # mid @ [OnShutdown] \<and> inner mid"
proof -
  obtain L :: sdklib and c c' :: hosted where "serve (Suc 0) L demo_plugin [] c = (Some (Ret ()), [OnInit, OnShutdown], c')"
    using demo_serve by metis
  then have s: "serve 1 L demo_plugin [] c = (Some (Ret ()), [OnInit, OnShutdown], c')" by simp
  from serve_lifecycle [OF s] have "\<exists>mid. [OnInit, OnShutdown] = OnInit # mid @ [OnShutdown] \<and> inner mid" by auto
  with s show ?thesis by blast
qed

end
