(* ===== verification/Vyn_Concurrent.thy ===== *)
theory Vyn_Concurrent
  imports Vyn_Actions Vyn_Session
begin

text \<open>
  The concurrent message loop of \<^verbatim>\<open>src/concurrent.cpp\<close>. One loop thread owns the client; each
  accepted request runs on its own thread, which hands its reply envelopes to the loop through the
  response channel and a wake pipe. The program is a transition system: a step is one action of one
  thread that is atomic for the others (an access to the queue under its mutex, one system call on
  the pipe, one operation of the loop on the client, one callback).

  The user's handler is a parameter: for each callback, the results it may return or the exception
  it may throw, in any order and any number of times. \<open>serve_concurrent\<close> is a transition system
  around the loop's: registration, \<open>on_init\<close>, the steps of the loop, \<open>on_shutdown\<close>.
\<close>

section \<open>The handler\<close>

record handler =
  h_id :: string
  h_version :: string
  h_manifest :: PluginManifest
  h_init :: "client \<Rightarrow> unit outcome \<times> client"
  h_accept :: "ActionRequest \<Rightarrow> unit result \<Rightarrow> bool"
  h_action :: "ActionRequest \<Rightarrow> Envelope list result \<Rightarrow> bool"
  h_event :: "Event \<Rightarrow> Envelope option result \<Rightarrow> bool"
  h_message :: "Envelope \<Rightarrow> Envelope option result \<Rightarrow> bool"
  h_shutdown :: "unit result \<Rightarrow> bool"

section \<open>The response channel\<close>

text \<open>
  The queue and the bytes in the wake pipe. The pipe does not block: a write to a full pipe is
  ignored. \<open>push\<close> is two atomic steps, the queue first.
\<close>

record channel =
  ch_queue :: "Envelope list"
  ch_wake :: nat

definition ResponseChannel :: channel where
  "ResponseChannel = \<lparr>ch_queue = [], ch_wake = 0\<rparr>"

definition PIPE_CAPACITY :: nat where "PIPE_CAPACITY = 65536"

definition push_queue :: "Envelope \<Rightarrow> channel \<Rightarrow> channel" where
  "push_queue env ch = ch\<lparr>ch_queue := ch_queue ch @ [env]\<rparr>"

definition push_wake :: "channel \<Rightarrow> channel" where
  "push_wake ch = ch\<lparr>ch_wake := min (Suc (ch_wake ch)) PIPE_CAPACITY\<rparr>"

definition push :: "Envelope \<Rightarrow> channel \<Rightarrow> channel" where
  "push env ch = push_wake (push_queue env ch)"

definition try_pop :: "channel \<Rightarrow> Envelope option \<times> channel" where
  "try_pop ch = (case ch_queue ch of [] \<Rightarrow> (None, ch) | env # q \<Rightarrow> (Some env, ch\<lparr>ch_queue := q\<rparr>))"

text \<open>One \<^verbatim>\<open>read\<close> of \<open>drain_wake_pipe\<close>; \<open>None\<close> when it finds the pipe empty, which ends the loop.\<close>

definition drain_read :: "channel \<Rightarrow> channel option" where
  "drain_read ch = (if ch_wake ch = 0 then None else Some (ch\<lparr>ch_wake := ch_wake ch - min 64 (ch_wake ch)\<rparr>))"

section \<open>Replies\<close>

text \<open>What a rejected request is answered with, and what a handler thread pushes.\<close>

definition rejection :: "ActionRequest \<Rightarrow> vyn_error \<Rightarrow> Envelope" where
  "rejection req e = response_envelope (rq_action_id req)
     (ActionResult_Err (if e = NonStdException then ''rejected'' else what e))"

definition worker_envelopes :: "ActionRequest \<Rightarrow> Envelope list result \<Rightarrow> Envelope list" where
  "worker_envelopes req r = (case r of
      Inr envs \<Rightarrow> envs
    | Inl e \<Rightarrow> [response_envelope (rq_action_id req)
        (ActionResult_Err (if e = NonStdException then ''handler panicked'' else ''handler panicked: '' @ what e))])"

definition loop_unix_millis :: "'a client_scheme \<Rightarrow> u64 \<times> 'a client_scheme" where
  "loop_unix_millis c = (let (ms, c) = system_now c in (word_of_int ms, c))"

definition make_pong :: "u64 \<Rightarrow> 'a client_scheme \<Rightarrow> Envelope \<times> 'a client_scheme" where
  "make_pong ts c = (let (ms, c) = loop_unix_millis c in
     (envelope (M_pong \<lparr>pg_original_timestamp = ts, pg_server_timestamp = ms\<rparr>), c))"

definition send_best_effort :: "'l sdklib_scheme \<Rightarrow> string \<Rightarrow> Envelope \<Rightarrow> 'a client_scheme \<Rightarrow> unit outcome \<times> 'a client_scheme" where
  "send_best_effort L target env c = (case send L target env c of
      (Throw e, c) \<Rightarrow> (Ret (), c)
    | r \<Rightarrow> r)"

definition send_optional :: "'l sdklib_scheme \<Rightarrow> Envelope option \<Rightarrow> 'a client_scheme \<Rightarrow> unit outcome \<times> 'a client_scheme" where
  "send_optional L reply c = (case reply of None \<Rightarrow> (Ret (), c) | Some env \<Rightarrow> send_best_effort L ''kernel'' env c)"

section \<open>The loop\<close>

text \<open>
  A thread that runs the handler, then pushes its envelopes one by one; \<open>Pushing []\<close> has returned.
\<close>

datatype worker = Running ActionRequest | Pushing "Envelope list" | Waking "Envelope list"

text \<open>
  Where the loop thread is: before \<^verbatim>\<open>poll\<close>; emptying the pipe or the queue, with the flag whether
  the connection was readable too; before \<^verbatim>\<open>recv\<close>; joining the threads; returned; left by an
  exception.
\<close>

datatype phase = Polling | Draining bool | Popping bool | Receiving | Joining | Closed | Threw vyn_error

text \<open>
  The last two fields are the history: the envelopes produced for the channel, in the order of
  their production, and those the loop took from it and handed to \<open>send_best_effort\<close>.
\<close>

record cloop =
  cl_client :: client
  cl_channel :: channel
  cl_workers :: "worker list"
  cl_phase :: phase
  cl_produced :: "Envelope list"
  cl_sent :: "Envelope list"

definition loop_start :: "client \<Rightarrow> cloop" where
  "loop_start c = \<lparr>cl_client = c, cl_channel = ResponseChannel, cl_workers = [], cl_phase = Polling,
     cl_produced = [], cl_sent = []\<rparr>"

text \<open>The loop body after \<^verbatim>\<open>recv\<close> returned an envelope.\<close>

inductive dispatch :: "'l sdklib_scheme \<Rightarrow> handler \<Rightarrow> Envelope \<Rightarrow> cloop \<Rightarrow> cloop \<Rightarrow> bool" for L H where
  ping: "en_payload env = M_ping ts \<Longrightarrow> make_pong ts (cl_client s) = (pong, c) \<Longrightarrow>
    send_best_effort L ''kernel'' pong c = (Ret (), c') \<Longrightarrow>
    dispatch L H env s (s\<lparr>cl_client := c', cl_phase := Polling\<rparr>)"
| shutdown: "en_payload env = M_plugin_shutdown sd \<Longrightarrow> dispatch L H env s (s\<lparr>cl_phase := Joining\<rparr>)"
| reject: "en_payload env = M_action_request req \<Longrightarrow> h_accept H req (Inl e) \<Longrightarrow>
    dispatch L H env s (s\<lparr>cl_channel := push (rejection req e) (cl_channel s),
      cl_produced := cl_produced s @ [rejection req e], cl_phase := Polling\<rparr>)"
| spawn: "en_payload env = M_action_request req \<Longrightarrow> h_accept H req (Inr ()) \<Longrightarrow>
    dispatch L H env s (s\<lparr>cl_workers := cl_workers s @ [Running req], cl_phase := Polling\<rparr>)"
| event: "en_payload env = M_event ev \<Longrightarrow> h_event H ev (Inr reply) \<Longrightarrow> ack_event L (ev_event_id ev) (cl_client s) = (Ret (), c) \<Longrightarrow>
    send_optional L reply c = (Ret (), c') \<Longrightarrow>
    dispatch L H env s (s\<lparr>cl_client := c', cl_phase := Polling\<rparr>)"
| event_ack_failed: "en_payload env = M_event ev \<Longrightarrow> h_event H ev (Inr reply) \<Longrightarrow> ack_event L (ev_event_id ev) (cl_client s) = (Throw e, c) \<Longrightarrow>
    dispatch L H env s (s\<lparr>cl_client := c, cl_phase := Polling\<rparr>)"
| event_failed: "en_payload env = M_event ev \<Longrightarrow> h_event H ev (Inl e) \<Longrightarrow> dispatch L H env s (s\<lparr>cl_phase := Polling\<rparr>)"
| other: "(\<forall>x. en_payload env \<noteq> M_ping x) \<Longrightarrow> (\<forall>x. en_payload env \<noteq> M_plugin_shutdown x) \<Longrightarrow>
    (\<forall>x. en_payload env \<noteq> M_action_request x) \<Longrightarrow> (\<forall>x. en_payload env \<noteq> M_event x) \<Longrightarrow>
    h_message H env (Inr reply) \<Longrightarrow> send_optional L reply (cl_client s) = (Ret (), c) \<Longrightarrow>
    dispatch L H env s (s\<lparr>cl_client := c, cl_phase := Polling\<rparr>)"
| other_failed: "(\<forall>x. en_payload env \<noteq> M_ping x) \<Longrightarrow> (\<forall>x. en_payload env \<noteq> M_plugin_shutdown x) \<Longrightarrow>
    (\<forall>x. en_payload env \<noteq> M_action_request x) \<Longrightarrow> (\<forall>x. en_payload env \<noteq> M_event x) \<Longrightarrow>
    h_message H env (Inl e) \<Longrightarrow> dispatch L H env s (s\<lparr>cl_phase := Polling\<rparr>)"

text \<open>
  \<^verbatim>\<open>poll\<close> reports the wake pipe whenever it holds a byte; the connection may be readable at any
  time.
\<close>

inductive loop_step :: "'l sdklib_scheme \<Rightarrow> handler \<Rightarrow> cloop \<Rightarrow> cloop \<Rightarrow> bool" for L H where
  work: "i < length (cl_workers s) \<Longrightarrow> cl_workers s ! i = Running req \<Longrightarrow> h_action H req r \<Longrightarrow>
    loop_step L H s (s\<lparr>cl_workers := (cl_workers s)[i := Pushing (worker_envelopes req r)],
      cl_produced := cl_produced s @ worker_envelopes req r\<rparr>)"
| worker_push: "i < length (cl_workers s) \<Longrightarrow> cl_workers s ! i = Pushing (env # envs) \<Longrightarrow>
    loop_step L H s (s\<lparr>cl_workers := (cl_workers s)[i := Waking envs], cl_channel := push_queue env (cl_channel s)\<rparr>)"
| worker_wake: "i < length (cl_workers s) \<Longrightarrow> cl_workers s ! i = Waking envs \<Longrightarrow>
    loop_step L H s (s\<lparr>cl_workers := (cl_workers s)[i := Pushing envs], cl_channel := push_wake (cl_channel s)\<rparr>)"
| poll_throw: "cl_phase s = Polling \<Longrightarrow> native_handle (cl_client s) = Inl e \<Longrightarrow> loop_step L H s (s\<lparr>cl_phase := Threw e\<rparr>)"
| poll_error: "cl_phase s = Polling \<Longrightarrow> native_handle (cl_client s) = Inr h \<Longrightarrow> loop_step L H s (s\<lparr>cl_phase := Joining\<rparr>)"
| poll_interrupted: "cl_phase s = Polling \<Longrightarrow> native_handle (cl_client s) = Inr h \<Longrightarrow> loop_step L H s s"
| poll_wake: "cl_phase s = Polling \<Longrightarrow> native_handle (cl_client s) = Inr h \<Longrightarrow> ch_wake (cl_channel s) > 0 \<Longrightarrow>
    loop_step L H s (s\<lparr>cl_phase := Draining readable\<rparr>)"
| poll_readable: "cl_phase s = Polling \<Longrightarrow> native_handle (cl_client s) = Inr h \<Longrightarrow> ch_wake (cl_channel s) = 0 \<Longrightarrow>
    loop_step L H s (s\<lparr>cl_phase := Receiving\<rparr>)"
| drain: "cl_phase s = Draining readable \<Longrightarrow> drain_read (cl_channel s) = Some ch \<Longrightarrow> loop_step L H s (s\<lparr>cl_channel := ch\<rparr>)"
| drained: "cl_phase s = Draining readable \<Longrightarrow> drain_read (cl_channel s) = None \<Longrightarrow> loop_step L H s (s\<lparr>cl_phase := Popping readable\<rparr>)"
| pop: "cl_phase s = Popping readable \<Longrightarrow> try_pop (cl_channel s) = (Some env, ch) \<Longrightarrow>
    send_best_effort L ''kernel'' env (cl_client s) = (Ret (), c) \<Longrightarrow>
    loop_step L H s (s\<lparr>cl_channel := ch, cl_client := c, cl_sent := cl_sent s @ [env]\<rparr>)"
| popped: "cl_phase s = Popping readable \<Longrightarrow> try_pop (cl_channel s) = (None, ch) \<Longrightarrow>
    loop_step L H s (s\<lparr>cl_phase := (if readable then Receiving else Polling)\<rparr>)"
| receive: "cl_phase s = Receiving \<Longrightarrow> recv L (cl_client s) = (Ret env, c) \<Longrightarrow> dispatch L H env (s\<lparr>cl_client := c\<rparr>) s' \<Longrightarrow> loop_step L H s s'"
| receive_failed: "cl_phase s = Receiving \<Longrightarrow> recv L (cl_client s) = (Throw e, c) \<Longrightarrow> loop_step L H s (s\<lparr>cl_client := c, cl_phase := Joining\<rparr>)"
| joined: "cl_phase s = Joining \<Longrightarrow> (\<forall>w \<in> set (cl_workers s). w = Pushing []) \<Longrightarrow> loop_step L H s (s\<lparr>cl_phase := Closed\<rparr>)"

inductive run_concurrent_loop :: "'l sdklib_scheme \<Rightarrow> handler \<Rightarrow> client \<Rightarrow> cloop \<Rightarrow> bool" for L H c where
  entered: "run_concurrent_loop L H c (loop_start c)"
| stepped: "run_concurrent_loop L H c s \<Longrightarrow> loop_step L H s s' \<Longrightarrow> run_concurrent_loop L H c s'"

section \<open>Serving\<close>

text \<open>The result of \<open>on_shutdown\<close> replaces the pending one only when it throws.\<close>

definition after_shutdown :: "unit result \<Rightarrow> unit result \<Rightarrow> unit result" where
  "after_shutdown sd r = (case sd of Inl e \<Rightarrow> Inl e | Inr _ \<Rightarrow> r)"

text \<open>
  Where \<open>serve_concurrent\<close> is: before the registration; before \<open>on_init\<close>; in the handler of an
  exception of \<open>on_init\<close>; before the loop creates its pipe; in the loop; behind the loop; over, with
  the result.
\<close>

datatype stage = Registering | Initialising | Unwinding vyn_error | Entering | Serving cloop | Leaving | Finished "unit result"

text \<open>
  What happens to the handler around the loop, recorded by the step that does it, and the state in
  which the loop was left.
\<close>

datatype life_event = HandlerInit | LoopEntered | LoopLeft | HandlerShutdown

record server =
  sv_client :: client
  sv_stage :: stage
  sv_trace :: "life_event list"
  sv_loop :: "cloop option"

definition server_start :: "client \<Rightarrow> server" where
  "server_start c = \<lparr>sv_client = c, sv_stage = Registering, sv_trace = [], sv_loop = None\<rparr>"

inductive serve_step :: "'l sdklib_scheme \<Rightarrow> handler \<Rightarrow> string \<Rightarrow> server \<Rightarrow> server \<Rightarrow> bool" for L H jwt_token where
  register_failed: "sv_stage s = Registering \<Longrightarrow>
    register_full L (h_id H) (h_version H) (h_manifest H) jwt_token (sv_client s) = (Throw e, c) \<Longrightarrow>
    serve_step L H jwt_token s (s\<lparr>sv_client := c, sv_stage := Finished (Inl e)\<rparr>)"
| rejected: "sv_stage s = Registering \<Longrightarrow>
    register_full L (h_id H) (h_version H) (h_manifest H) jwt_token (sv_client s) = (Ret ack, c) \<Longrightarrow> \<not> ak_accepted ack \<Longrightarrow>
    serve_step L H jwt_token s (s\<lparr>sv_client := c,
      sv_stage := Finished (Inl (VynkorPermissionDenied (''registration rejected: '' @ ak_reject_reason ack)))\<rparr>)"
| registered: "sv_stage s = Registering \<Longrightarrow>
    register_full L (h_id H) (h_version H) (h_manifest H) jwt_token (sv_client s) = (Ret ack, c) \<Longrightarrow> ak_accepted ack \<Longrightarrow>
    serve_step L H jwt_token s (s\<lparr>sv_client := c, sv_stage := Initialising\<rparr>)"
| init_failed: "sv_stage s = Initialising \<Longrightarrow> h_init H (sv_client s) = (Throw e, c) \<Longrightarrow>
    serve_step L H jwt_token s (s\<lparr>sv_client := c, sv_stage := Unwinding e, sv_trace := sv_trace s @ [HandlerInit]\<rparr>)"
| unwind: "sv_stage s = Unwinding e \<Longrightarrow> h_shutdown H sd \<Longrightarrow>
    serve_step L H jwt_token s (s\<lparr>sv_stage := Finished (after_shutdown sd (Inl e)), sv_trace := sv_trace s @ [HandlerShutdown]\<rparr>)"
| initialised: "sv_stage s = Initialising \<Longrightarrow> h_init H (sv_client s) = (Ret (), c) \<Longrightarrow>
    serve_step L H jwt_token s (s\<lparr>sv_client := c, sv_stage := Entering, sv_trace := sv_trace s @ [HandlerInit]\<rparr>)"
| pipe_failed: "sv_stage s = Entering \<Longrightarrow>
    serve_step L H jwt_token s (s\<lparr>sv_stage := Finished (Inl (VynkorIoError ''pipe2 failed for concurrent loop wake channel''))\<rparr>)"
| enter: "sv_stage s = Entering \<Longrightarrow>
    serve_step L H jwt_token s (s\<lparr>sv_stage := Serving (loop_start (sv_client s)), sv_trace := sv_trace s @ [LoopEntered]\<rparr>)"
| in_loop: "sv_stage s = Serving l \<Longrightarrow> loop_step L H l l' \<Longrightarrow> serve_step L H jwt_token s (s\<lparr>sv_stage := Serving l'\<rparr>)"
| loop_threw: "sv_stage s = Serving l \<Longrightarrow> cl_phase l = Threw e \<Longrightarrow>
    serve_step L H jwt_token s (s\<lparr>sv_client := cl_client l, sv_loop := Some l, sv_stage := Finished (Inl e), sv_trace := sv_trace s @ [LoopLeft]\<rparr>)"
| loop_returned: "sv_stage s = Serving l \<Longrightarrow> cl_phase l = Closed \<Longrightarrow>
    serve_step L H jwt_token s (s\<lparr>sv_client := cl_client l, sv_loop := Some l, sv_stage := Leaving, sv_trace := sv_trace s @ [LoopLeft]\<rparr>)"
| shutdown: "sv_stage s = Leaving \<Longrightarrow> h_shutdown H sd \<Longrightarrow>
    serve_step L H jwt_token s (s\<lparr>sv_stage := Finished (after_shutdown sd (Inr ())), sv_trace := sv_trace s @ [HandlerShutdown]\<rparr>)"

inductive serve_concurrent :: "'l sdklib_scheme \<Rightarrow> handler \<Rightarrow> string \<Rightarrow> client \<Rightarrow> server \<Rightarrow> bool" for L H jwt_token c where
  called: "serve_concurrent L H jwt_token c (server_start c)"
| goes_on: "serve_concurrent L H jwt_token c s \<Longrightarrow> serve_step L H jwt_token s s' \<Longrightarrow> serve_concurrent L H jwt_token c s'"

end
