(* ===== verification/Vyn_Concurrent_Spec.thy ===== *)
theory Vyn_Concurrent_Spec
  imports Vyn_Concurrent Vyn_Request "HOL-Library.Multiset"
begin

text \<open>
  What the concurrent loop guarantees in every interleaving: no reply is lost or doubled on its way
  through the channel, the loop does not go to sleep while replies are queued, it can send all that is
  queued, and \<open>on_shutdown\<close> is called when the handler's threads are over. And what it does not:
  replies that were not sent when the loop left stay in the queue.
\<close>

section \<open>The channel contract\<close>

locale response_queue =
  fixes put :: "'e \<Rightarrow> 'q \<Rightarrow> 'q" and take_one :: "'q \<Rightarrow> 'e option \<times> 'q" and items :: "'q \<Rightarrow> 'e list"
  assumes items_put: "items (put e q) = items q @ [e]"
    and take_none: "fst (take_one q) = None \<longleftrightarrow> items q = []"
    and take_some: "items q = e # es \<Longrightarrow> fst (take_one q) = Some e \<and> items (snd (take_one q)) = es"
begin

lemma take_conserves:
  assumes "take_one q = (Some e, q')"
  shows "items q = e # items q'"
proof (cases "items q")
  case Nil
  then have "fst (take_one q) = None" by (simp add: take_none)
  with assms show ?thesis by simp
next
  case (Cons x xs)
  with take_some [OF Cons] assms show ?thesis by simp
qed

lemma take_ends: "take_one q = (None, q') \<Longrightarrow> items q = []"
  using take_none [of q] by simp

lemma put_conserves: "mset (items (put e q)) = add_mset e (mset (items q))"
  by (simp add: items_put)

end

interpretation chq: response_queue push_queue try_pop ch_queue
  by unfold_locales (auto simp: push_queue_def try_pop_def split: list.splits)

interpretation chp: response_queue push try_pop ch_queue
  by unfold_locales (auto simp: push_def push_wake_def push_queue_def try_pop_def split: list.splits)

lemma queue_wake [simp]: "ch_queue (push_wake ch) = ch_queue ch" "0 < ch_wake (push_wake ch)" "ch_wake (push_queue e ch) = ch_wake ch"
  by (simp_all add: push_wake_def push_queue_def PIPE_CAPACITY_def)

lemma drain_read_queue: "drain_read ch = Some ch' \<Longrightarrow> ch_queue ch' = ch_queue ch"
  by (auto simp: drain_read_def split: if_splits)

section \<open>Invariants\<close>

fun pending_replies :: "worker \<Rightarrow> Envelope list" where
  "pending_replies (Running req) = []"
| "pending_replies (Pushing envs) = envs"
| "pending_replies (Waking envs) = envs"

definition conserved :: "cloop \<Rightarrow> bool" where
  "conserved s \<longleftrightarrow> mset (cl_produced s) =
     mset (cl_sent s) + mset (ch_queue (cl_channel s)) + (\<Sum>w\<leftarrow>cl_workers s. mset (pending_replies w))"

definition awake :: "cloop \<Rightarrow> bool" where
  "awake s \<longleftrightarrow> (\<exists>r. cl_phase s = Draining r) \<or> (\<exists>r. cl_phase s = Popping r) \<or> ch_queue (cl_channel s) = [] \<or>
     0 < ch_wake (cl_channel s) \<or> (\<exists>envs. Waking envs \<in> set (cl_workers s))"

lemma sum_list_update_mset:
  assumes "i < length ws" "mset (pending_replies w) + x = mset (pending_replies (ws ! i)) + y"
  shows "(\<Sum>v\<leftarrow>ws[i := w]. mset (pending_replies v)) + x = (\<Sum>v\<leftarrow>ws. mset (pending_replies v)) + y"
proof -
  have split: "ws = take i ws @ ws ! i # drop (Suc i) ws" using assms(1) by (rule id_take_nth_drop)
  have "ws[i := w] = take i ws @ w # drop (Suc i) ws" using assms(1) by (simp add: upd_conv_take_nth_drop)
  then have "(\<Sum>v\<leftarrow>ws[i := w]. mset (pending_replies v)) + x =
      (\<Sum>v\<leftarrow>take i ws. mset (pending_replies v)) + (\<Sum>v\<leftarrow>drop (Suc i) ws. mset (pending_replies v)) + (mset (pending_replies w) + x)"
    by (simp add: ac_simps)
  also have "\<dots> = (\<Sum>v\<leftarrow>ws. mset (pending_replies v)) + y"
    unfolding assms(2) by (subst (3) split) (simp add: ac_simps)
  finally show ?thesis .
qed

lemma dispatch_conserved: "dispatch L H env s s' \<Longrightarrow> conserved s \<Longrightarrow> conserved s'"
  by (cases rule: dispatch.cases) (auto simp: conserved_def chp.put_conserves)

lemma dispatch_awake: "dispatch L H env s s' \<Longrightarrow> cl_phase s = Receiving \<Longrightarrow> awake s \<Longrightarrow> awake s'"
  by (cases rule: dispatch.cases) (auto simp: awake_def push_def)

lemma loop_step_conserved:
  assumes "loop_step L H s s'" "conserved s"
  shows "conserved s'"
  using assms(1)
proof (cases rule: loop_step.cases)
  case (work i req r)
  have "(\<Sum>v\<leftarrow>(cl_workers s)[i := Pushing (worker_envelopes req r)]. mset (pending_replies v)) + {#} =
      (\<Sum>v\<leftarrow>cl_workers s. mset (pending_replies v)) + mset (worker_envelopes req r)"
    by (rule sum_list_update_mset) (use work in simp_all)
  with work(1) assms(2) show ?thesis by (simp add: conserved_def ac_simps)
next
  case (worker_push i env envs)
  have "(\<Sum>v\<leftarrow>(cl_workers s)[i := Waking envs]. mset (pending_replies v)) + {#env#} = (\<Sum>v\<leftarrow>cl_workers s. mset (pending_replies v)) + {#}"
    by (rule sum_list_update_mset) (use worker_push in simp_all)
  with worker_push(1) assms(2) show ?thesis by (simp add: conserved_def chq.put_conserves ac_simps)
next
  case (worker_wake i envs)
  have "(\<Sum>v\<leftarrow>(cl_workers s)[i := Pushing envs]. mset (pending_replies v)) + {#} = (\<Sum>v\<leftarrow>cl_workers s. mset (pending_replies v)) + {#}"
    by (rule sum_list_update_mset) (use worker_wake in simp_all)
  with worker_wake(1) assms(2) show ?thesis by (simp add: conserved_def)
next
  case (drain readable ch)
  with assms(2) show ?thesis by (simp add: conserved_def drain_read_queue)
next
  case (pop readable env ch c)
  with assms(2) chq.take_conserves [OF pop(3)] show ?thesis by (simp add: conserved_def)
next
  case (receive env c)
  have "conserved (s\<lparr>cl_client := c\<rparr>)" using assms(2) by (simp add: conserved_def)
  then show ?thesis by (rule dispatch_conserved [OF receive(3)])
qed (use assms(2) in \<open>auto simp: conserved_def\<close>)

lemma awake_worker:
  assumes "awake s" "i < length (cl_workers s)" "\<forall>envs. cl_workers s ! i \<noteq> Waking envs"
  shows "awake (s\<lparr>cl_workers := (cl_workers s)[i := w], cl_produced := p\<rparr>)"
proof -
  have "Waking envs \<in> set ((cl_workers s)[i := w])" if mem: "Waking envs \<in> set (cl_workers s)" for envs
  proof -
    obtain j where "j < length (cl_workers s)" "cl_workers s ! j = Waking envs" using mem unfolding in_set_conv_nth by blast
    with assms(3) show ?thesis by (metis length_list_update nth_list_update_neq nth_mem)
  qed
  with assms(1) show ?thesis by (auto simp: awake_def)
qed

lemma loop_step_awake:
  assumes "loop_step L H s s'" "awake s"
  shows "awake s'"
  using assms(1)
proof (cases rule: loop_step.cases)
  case (work i req r)
  then show ?thesis using awake_worker [OF assms(2), of i] by simp
next
  case (worker_push i env envs)
  then have "Waking envs \<in> set ((cl_workers s)[i := Waking envs])" by (simp add: set_update_memI)
  with worker_push(1) show ?thesis by (auto simp: awake_def)
next
  case (popped readable ch)
  then show ?thesis using chq.take_ends [OF popped(3)] by (simp add: awake_def)
next
  case (receive env c)
  then show ?thesis using dispatch_awake [OF receive(3)] assms(2) by (simp add: awake_def)
qed (use assms(2) in \<open>auto simp: awake_def\<close>)

lemma loop_invariants:
  "run_concurrent_loop L H c s \<Longrightarrow> conserved s \<and> awake s"
proof (induction rule: run_concurrent_loop.induct)
  case entered
  then show ?case by (simp add: loop_start_def ResponseChannel_def conserved_def awake_def)
next
  case (stepped s s')
  then show ?case using loop_step_conserved loop_step_awake by blast
qed

lemma finished_none_pending: "\<forall>w \<in> set ws. w = Pushing [] \<Longrightarrow> (\<Sum>w\<leftarrow>ws. mset (pending_replies w)) = {#}"
  by (induction ws) auto

text \<open>After the join no thread is left that could do anything.\<close>

definition settled :: "cloop \<Rightarrow> bool" where
  "settled s \<longleftrightarrow> (cl_phase s = Closed \<longrightarrow> (\<forall>w \<in> set (cl_workers s). w = Pushing []))"

lemma loop_step_settled:
  assumes "loop_step L H s s'" "settled s"
  shows "settled s'"
  using assms(1)
proof (cases rule: loop_step.cases)
  case (receive env c)
  have "cl_phase s' \<noteq> Closed" using receive(3) receive(1) by (cases rule: dispatch.cases) auto
  then show ?thesis by (simp add: settled_def)
next
  case (work i req r)
  have "cl_workers s ! i \<in> set (cl_workers s)" using work(2) by (rule nth_mem)
  with work assms(2) show ?thesis by (auto simp: settled_def)
next
  case (worker_push i env envs)
  have "cl_workers s ! i \<in> set (cl_workers s)" using worker_push(2) by (rule nth_mem)
  with worker_push assms(2) show ?thesis by (auto simp: settled_def)
next
  case (worker_wake i envs)
  have "cl_workers s ! i \<in> set (cl_workers s)" using worker_wake(2) by (rule nth_mem)
  with worker_wake assms(2) show ?thesis by (auto simp: settled_def)
qed (use assms(2) in \<open>auto simp: settled_def\<close>)

lemma loop_settled: "run_concurrent_loop L H c s \<Longrightarrow> settled s"
proof (induction rule: run_concurrent_loop.induct)
  case entered
  then show ?case by (simp add: loop_start_def ResponseChannel_def settled_def)
next
  case (stepped s s')
  then show ?case using loop_step_settled by blast
qed

section \<open>The client inside the loop\<close>

text \<open>
  The loop keeps the session and the transport of its client; so only a WebSocket client makes it
  throw, and that before it has started any thread.
\<close>

lemma same_session_best_effort: "send_best_effort L target env c = (r, c') \<Longrightarrow> same_session c c'"
  by (cases "send L target env c"; cases "fst (send L target env c)") (auto simp: send_best_effort_def dest: same_session_send)

lemma same_session_optional: "send_optional L reply c = (r, c') \<Longrightarrow> same_session c c'"
  by (auto simp: send_optional_def same_session_best_effort split: option.splits)

lemma same_session_pong: "make_pong ts c = (pong, c') \<Longrightarrow> same_session c c'"
  by (auto simp: make_pong_def loop_unix_millis_def system_now_def same_session_def Let_def)

lemma same_session_ack: "ack_event L eid c = (r, c') \<Longrightarrow> same_session c c'"
  by (auto simp: ack_event_def dest: same_session_send)

lemma dispatch_session: "dispatch L H env s s' \<Longrightarrow> same_session (cl_client s) (cl_client s')"
  by (cases rule: dispatch.cases)
    (auto dest!: same_session_best_effort same_session_optional same_session_pong same_session_ack elim: same_session_trans)

lemma loop_step_session:
  assumes "loop_step L H s s'"
  shows "same_session (cl_client s) (cl_client s')"
  using assms
proof (cases rule: loop_step.cases)
  case (receive env c)
  with dispatch_session [OF receive(3)] same_session_recv [OF receive(2)] show ?thesis by (auto elim: same_session_trans)
qed (auto dest: same_session_best_effort same_session_recv)

lemma dispatch_phase: "dispatch L H env s s' \<Longrightarrow> cl_phase s' = Polling \<or> cl_phase s' = Joining"
  by (cases rule: dispatch.cases) auto

lemma loop_throws_only_ws:
  assumes "run_concurrent_loop L H c s"
  shows "same_session c (cl_client s) \<and> (\<forall>e. cl_phase s = Threw e \<longrightarrow> ws_active c \<and> native_handle c = Inl e)"
  using assms
proof (induction rule: run_concurrent_loop.induct)
  case entered
  then show ?case by (simp add: loop_start_def)
next
  case (stepped s s')
  have ses: "same_session c (cl_client s')" using stepped.IH loop_step_session [OF stepped.hyps(2)] same_session_trans by blast
  have "ws_active c \<and> native_handle c = Inl e" if e: "cl_phase s' = Threw e" for e
    using stepped.hyps(2)
  proof (cases rule: loop_step.cases)
    case (poll_throw x)
    with stepped.IH e show ?thesis by (auto simp: native_handle_def same_session_def split: if_splits)
  next
    case (receive env c)
    with dispatch_phase [OF receive(3)] e show ?thesis by auto
  qed (use stepped.IH e in \<open>auto split: if_splits\<close>)
  with ses show ?case by blast
qed

lemma ws_loop_starts_nothing:
  assumes "run_concurrent_loop L H c s" "ws_active c"
  shows "s = loop_start c \<or> (\<exists>e. s = loop_start c\<lparr>cl_phase := Threw e\<rparr>)"
  using assms(1)
proof (induction rule: run_concurrent_loop.induct)
  case (stepped s s')
  have nh: "\<exists>e. native_handle c = Inl e" using assms(2) by (simp add: native_handle_def)
  from stepped.IH have s: "cl_client s = c" "cl_workers s = []" "cl_phase s = Polling \<and> s = loop_start c \<or> (\<exists>e. cl_phase s = Threw e)"
    by (auto simp: loop_start_def)
  from stepped.hyps(2) show ?case
    by (cases rule: loop_step.cases) (use s nh in \<open>auto\<close>)
qed simp

section \<open>After the loop has left\<close>

text \<open>Once the loop joins the threads, the client is at rest; replies still go into the queue.\<close>

definition left :: "cloop \<Rightarrow> cloop \<Rightarrow> bool" where
  "left s s' \<longleftrightarrow> (cl_phase s' = Joining \<or> cl_phase s' = Closed) \<and> cl_client s' = cl_client s \<and> cl_sent s' = cl_sent s \<and>
     (\<exists>new. cl_produced s' = cl_produced s @ new)"

lemma loop_step_left: "loop_step L H s s' \<Longrightarrow> left s0 s \<Longrightarrow> left s0 s'"
  by (cases rule: loop_step.cases) (auto simp: left_def)

lemma loop_steps_left: "(loop_step L H)\<^sup>*\<^sup>* s s' \<Longrightarrow> cl_phase s = Joining \<or> cl_phase s = Closed \<Longrightarrow> left s s'"
proof (induction rule: rtranclp_induct)
  case base
  then show ?case by (simp add: left_def)
next
  case (step t u)
  then show ?case using loop_step_left [OF step.hyps(2)] by blast
qed

lemma run_concurrent_loop_steps: "(loop_step L H)\<^sup>*\<^sup>* s s' \<Longrightarrow> run_concurrent_loop L H c s \<Longrightarrow> run_concurrent_loop L H c s'"
  by (induction rule: rtranclp_induct) (auto intro: run_concurrent_loop.stepped)

lemma closed_settled:
  assumes "run_concurrent_loop L H c s" "cl_phase s = Closed"
  shows "(\<forall>w \<in> set (cl_workers s). w = Pushing []) \<and> mset (cl_produced s) = mset (cl_sent s) + mset (ch_queue (cl_channel s))"
proof -
  have fin: "\<forall>w \<in> set (cl_workers s). w = Pushing []" using loop_settled [OF assms(1)] assms(2) by (simp add: settled_def)
  moreover have "conserved s" using loop_invariants [OF assms(1)] by blast
  ultimately show ?thesis using finished_none_pending by (simp add: conserved_def)
qed

section \<open>Sending what is queued\<close>

text \<open>The client after the replies were handed to \<open>send_best_effort\<close> one by one, unless it blocks.\<close>

fun flush :: "'l sdklib_scheme \<Rightarrow> Envelope list \<Rightarrow> client \<Rightarrow> client option" where
  "flush L [] c = Some c"
| "flush L (env # envs) c = (case send_best_effort L ''kernel'' env c of (Ret _, c') \<Rightarrow> flush L envs c' | _ \<Rightarrow> None)"

lemma drain_all:
  "cl_phase s = Draining r \<Longrightarrow> (loop_step L H)\<^sup>*\<^sup>* s (s\<lparr>cl_channel := (cl_channel s)\<lparr>ch_wake := 0\<rparr>, cl_phase := Popping r\<rparr>)"
proof (induction "ch_wake (cl_channel s)" arbitrary: s rule: less_induct)
  case less
  show ?case
  proof (cases "ch_wake (cl_channel s) = 0")
    case True
    then have "loop_step L H s (s\<lparr>cl_phase := Popping r\<rparr>)" using less.prems by (intro loop_step.drained) (simp_all add: drain_read_def)
    moreover have "s\<lparr>cl_phase := Popping r\<rparr> = s\<lparr>cl_channel := (cl_channel s)\<lparr>ch_wake := 0\<rparr>, cl_phase := Popping r\<rparr>" using True by simp
    ultimately show ?thesis by auto
  next
    case False
    let ?ch = "(cl_channel s)\<lparr>ch_wake := ch_wake (cl_channel s) - min 64 (ch_wake (cl_channel s))\<rparr>" let ?s = "s\<lparr>cl_channel := ?ch\<rparr>"
    have 1: "loop_step L H s ?s" using less.prems False by (intro loop_step.drain) (simp_all add: drain_read_def)
    have "(loop_step L H)\<^sup>*\<^sup>* ?s (?s\<lparr>cl_channel := (cl_channel ?s)\<lparr>ch_wake := 0\<rparr>, cl_phase := Popping r\<rparr>)"
      by (rule less.hyps) (use less.prems False in simp_all)
    with 1 show ?thesis by (simp add: converse_rtranclp_into_rtranclp)
  qed
qed

lemma pop_all:
  "cl_phase s = Popping False \<Longrightarrow> flush L (ch_queue (cl_channel s)) (cl_client s) = Some c' \<Longrightarrow>
   (loop_step L H)\<^sup>*\<^sup>* s (s\<lparr>cl_client := c', cl_channel := (cl_channel s)\<lparr>ch_queue := []\<rparr>, cl_sent := cl_sent s @ ch_queue (cl_channel s), cl_phase := Polling\<rparr>)"
proof (induction "ch_queue (cl_channel s)" arbitrary: s)
  case Nil
  then have q: "ch_queue (cl_channel s) = []" "c' = cl_client s" by (metis flush.simps(1) option.inject)+
  have "loop_step L H s (s\<lparr>cl_phase := (if False then Receiving else Polling)\<rparr>)"
    by (rule loop_step.popped [where ch = "cl_channel s"]) (use Nil.prems q in \<open>simp_all add: try_pop_def\<close>)
  moreover have "(cl_channel s)\<lparr>ch_queue := []\<rparr> = cl_channel s" using q(1) by simp
  ultimately show ?case using q by (auto simp only: append_Nil2 if_False) (simp add: r_into_rtranclp)
next
  case (Cons env envs)
  note q = Cons.hyps(2) [symmetric]
  obtain u c1 where send: "send_best_effort L ''kernel'' env (cl_client s) = (Ret u, c1)" "flush L envs c1 = Some c'"
    using Cons.prems(2) unfolding q by (auto split: outcome.splits prod.splits)
  let ?s = "s\<lparr>cl_channel := (cl_channel s)\<lparr>ch_queue := envs\<rparr>, cl_client := c1, cl_sent := cl_sent s @ [env]\<rparr>"
  have 1: "loop_step L H s ?s"
    by (rule loop_step.pop [OF Cons.prems(1)]) (use q send in \<open>simp_all add: try_pop_def\<close>)
  have "(loop_step L H)\<^sup>*\<^sup>* ?s (?s\<lparr>cl_client := c', cl_channel := (cl_channel ?s)\<lparr>ch_queue := []\<rparr>,
      cl_sent := cl_sent ?s @ ch_queue (cl_channel ?s), cl_phase := Polling\<rparr>)"
    by (rule Cons.hyps(1)) (use Cons.prems send in simp_all)
  with 1 q show ?case by (simp add: converse_rtranclp_into_rtranclp)
qed

lemma poll_sends:
  assumes "cl_phase s = Polling" "\<not> ws_active (cl_client s)" "0 < ch_wake (cl_channel s)"
    "flush L (ch_queue (cl_channel s)) (cl_client s) = Some c'"
  shows "\<exists>s'. (loop_step L H)\<^sup>*\<^sup>* s s' \<and> cl_phase s' = Polling \<and> cl_client s' = c' \<and> ch_queue (cl_channel s') = [] \<and>
    cl_sent s' = cl_sent s @ ch_queue (cl_channel s)"
proof -
  let ?d = "s\<lparr>cl_phase := Draining False\<rparr>" let ?p = "?d\<lparr>cl_channel := (cl_channel ?d)\<lparr>ch_wake := 0\<rparr>, cl_phase := Popping False\<rparr>"
  have 1: "loop_step L H s ?d" by (rule loop_step.poll_wake [of _ "fd (cl_client s)"]) (use assms in \<open>simp_all add: native_handle_def\<close>)
  have 2: "(loop_step L H)\<^sup>*\<^sup>* ?d ?p" by (rule drain_all) simp
  have 3: "(loop_step L H)\<^sup>*\<^sup>* ?p (?p\<lparr>cl_client := c', cl_channel := (cl_channel ?p)\<lparr>ch_queue := []\<rparr>,
      cl_sent := cl_sent ?p @ ch_queue (cl_channel ?p), cl_phase := Polling\<rparr>)"
    by (rule pop_all) (use assms(4) in simp_all)
  from rtranclp_trans [OF converse_rtranclp_into_rtranclp [OF 1 2] 3] show ?thesis
    by (intro exI conjI) (assumption | simp)+
qed

section \<open>The life of a server\<close>

text \<open>
  The registration was accepted and gave the client \<open>c1\<close>; then, for each stage, what has happened
  on the way to it.
\<close>

definition registered_as :: "'l sdklib_scheme \<Rightarrow> handler \<Rightarrow> string \<Rightarrow> client \<Rightarrow> client \<Rightarrow> bool" where
  "registered_as L H jwt_token c c1 \<longleftrightarrow>
     (\<exists>ack. register_full L (h_id H) (h_version H) (h_manifest H) jwt_token c = (Ret ack, c1) \<and> ak_accepted ack)"

fun stage_ok :: "'l sdklib_scheme \<Rightarrow> handler \<Rightarrow> string \<Rightarrow> client \<Rightarrow> client \<Rightarrow> life_event list \<Rightarrow> cloop option \<Rightarrow> stage \<Rightarrow> bool" where
  "stage_ok L H jwt c cur tr lp Registering \<longleftrightarrow> cur = c \<and> tr = []"
| "stage_ok L H jwt c cur tr lp Initialising \<longleftrightarrow> registered_as L H jwt c cur \<and> tr = []"
| "stage_ok L H jwt c cur tr lp (Unwinding e) \<longleftrightarrow> (\<exists>c1. registered_as L H jwt c c1 \<and> h_init H c1 = (Throw e, cur)) \<and> tr = [HandlerInit]"
| "stage_ok L H jwt c cur tr lp Entering \<longleftrightarrow> (\<exists>c1. registered_as L H jwt c c1 \<and> h_init H c1 = (Ret (), cur)) \<and> tr = [HandlerInit]"
| "stage_ok L H jwt c cur tr lp (Serving l) \<longleftrightarrow>
     (\<exists>c1 c2. registered_as L H jwt c c1 \<and> h_init H c1 = (Ret (), c2) \<and> run_concurrent_loop L H c2 l) \<and> tr = [HandlerInit, LoopEntered]"
| "stage_ok L H jwt c cur tr lp Leaving \<longleftrightarrow>
     (\<exists>c1 c2 l. registered_as L H jwt c c1 \<and> h_init H c1 = (Ret (), c2) \<and> run_concurrent_loop L H c2 l \<and> cl_phase l = Closed \<and> lp = Some l) \<and>
     tr = [HandlerInit, LoopEntered, LoopLeft]"
| "stage_ok L H jwt c cur tr lp (Finished r) \<longleftrightarrow>
     tr = [] \<and> (\<exists>e c1. register_full L (h_id H) (h_version H) (h_manifest H) jwt c = (Throw e, c1) \<and> r = Inl e) \<or>
     tr = [] \<and> (\<exists>ack c1. register_full L (h_id H) (h_version H) (h_manifest H) jwt c = (Ret ack, c1) \<and> \<not> ak_accepted ack \<and>
       r = Inl (VynkorPermissionDenied (''registration rejected: '' @ ak_reject_reason ack))) \<or>
     tr = [HandlerInit, HandlerShutdown] \<and> (\<exists>c1 c2 e sd. registered_as L H jwt c c1 \<and> h_init H c1 = (Throw e, c2) \<and> h_shutdown H sd \<and> r = after_shutdown sd (Inl e)) \<or>
     tr = [HandlerInit] \<and> (\<exists>c1 c2. registered_as L H jwt c c1 \<and> h_init H c1 = (Ret (), c2) \<and>
       r = Inl (VynkorIoError ''pipe2 failed for concurrent loop wake channel'')) \<or>
     tr = [HandlerInit, LoopEntered, LoopLeft] \<and> (\<exists>c1 c2 l e. registered_as L H jwt c c1 \<and> h_init H c1 = (Ret (), c2) \<and>
       run_concurrent_loop L H c2 l \<and> cl_phase l = Threw e \<and> lp = Some l \<and> r = Inl e) \<or>
     tr = [HandlerInit, LoopEntered, LoopLeft, HandlerShutdown] \<and> (\<exists>c1 c2 l sd. registered_as L H jwt c c1 \<and> h_init H c1 = (Ret (), c2) \<and>
       run_concurrent_loop L H c2 l \<and> cl_phase l = Closed \<and> lp = Some l \<and> h_shutdown H sd \<and> r = after_shutdown sd (Inr ()))"

lemma serve_step_ok:
  assumes "serve_step L H jwt s s'" "stage_ok L H jwt c (sv_client s) (sv_trace s) (sv_loop s) (sv_stage s)"
  shows "stage_ok L H jwt c (sv_client s') (sv_trace s') (sv_loop s') (sv_stage s')"
  using assms(1)
proof (cases rule: serve_step.cases)
  case enter
  with assms(2) run_concurrent_loop.entered show ?thesis by fastforce
next
  case (in_loop l l')
  with assms(2) run_concurrent_loop.stepped show ?thesis by fastforce
next
  case (registered ack c)
  with assms(2) show ?thesis by (auto simp: registered_as_def)
qed (insert assms(2), fastforce+)

lemma serve_concurrent_ok:
  "serve_concurrent L H jwt c s \<Longrightarrow> stage_ok L H jwt c (sv_client s) (sv_trace s) (sv_loop s) (sv_stage s)"
proof (induction rule: serve_concurrent.induct)
  case called
  then show ?case by (simp add: server_start_def)
next
  case (goes_on s s')
  then show ?case by (blast intro: serve_step_ok)
qed

lemma serve_concurrent_ends:
  assumes "serve_concurrent L H jwt_token c s" "sv_stage s = Finished r"
  obtains
  (failed) e c1 where "sv_trace s = []" "register_full L (h_id H) (h_version H) (h_manifest H) jwt_token c = (Throw e, c1)" "r = Inl e"
  | (rejected) ack c1 where "sv_trace s = []" "register_full L (h_id H) (h_version H) (h_manifest H) jwt_token c = (Ret ack, c1)" "\<not> ak_accepted ack"
      "r = Inl (VynkorPermissionDenied (''registration rejected: '' @ ak_reject_reason ack))"
  | (init) c1 c2 e sd where "sv_trace s = [HandlerInit, HandlerShutdown]" "registered_as L H jwt_token c c1" "h_init H c1 = (Throw e, c2)"
      "h_shutdown H sd" "r = after_shutdown sd (Inl e)"
  | (pipe) c1 c2 where "sv_trace s = [HandlerInit]" "registered_as L H jwt_token c c1" "h_init H c1 = (Ret (), c2)"
      "r = Inl (VynkorIoError ''pipe2 failed for concurrent loop wake channel'')"
  | (threw) c1 c2 l e where "sv_trace s = [HandlerInit, LoopEntered, LoopLeft]" "registered_as L H jwt_token c c1" "h_init H c1 = (Ret (), c2)"
      "run_concurrent_loop L H c2 l" "cl_phase l = Threw e" "sv_loop s = Some l" "r = Inl e"
  | (served) c1 c2 l sd where "sv_trace s = [HandlerInit, LoopEntered, LoopLeft, HandlerShutdown]" "registered_as L H jwt_token c c1" "h_init H c1 = (Ret (), c2)"
      "run_concurrent_loop L H c2 l" "cl_phase l = Closed" "sv_loop s = Some l" "h_shutdown H sd" "r = after_shutdown sd (Inr ())"
  using serve_concurrent_ok [OF assms(1)] assms(2) by (simp only: stage_ok.simps) blast

section \<open>Demonstration runs\<close>

text \<open>
  A handler that may return or throw anything, and a connection that delivers a request and then
  the order to shut down, and that takes a reply.
\<close>

definition any_handler :: handler where
  "any_handler = \<lparr>h_id = ''db'', h_version = ''1.0.0'',
     h_manifest = \<lparr>mf_permissions = [], mf_actions = [], mf_events = [], mf_ipc_targets = [], mf_platforms = [], mf_action_specs = []\<rparr>,
     h_init = (\<lambda>c. (Ret (), c)), h_accept = (\<lambda>r x. True), h_action = (\<lambda>r x. True), h_event = (\<lambda>e x. True),
     h_message = (\<lambda>e x. True), h_shutdown = (\<lambda>x. True)\<rparr>"

definition demo_action :: ActionRequest where
  "demo_action = \<lparr>rq_action_id = ''a7'', rq_action = ''query'', rq_params_json = [], rq_timeout_ms = 0, rq_streaming = False,
     rq_caller_plugin_id = ''ai''\<rparr>"

lemma demo_connection:
  "\<exists>(L :: sdklib) (c :: client) c1 c2 req_env bye. \<not> ws_active c \<and> recv L c = (Ret req_env, c1) \<and> \<not> ws_active c1 \<and> recv L c1 = (Ret bye, c2) \<and>
     en_payload req_env = M_action_request demo_action \<and> (\<exists>sd. en_payload bye = M_plugin_shutdown sd) \<and>
     (\<forall>env. \<exists>c'. send L ''kernel'' env c1 = (Ret (), c'))"
proof -
  let ?req = "envelope (M_action_request demo_action)"
  let ?bye = "envelope (M_plugin_shutdown \<lparr>sd_reason = [], sd_grace_seconds = 0\<rparr>)"
  let ?L = "demo_codec (\<lambda>e. []) (\<lambda>p. Some (if p = [1] then ?req else ?bye))" let ?f = "wire_flags (Some [7]) 0"
  obtain f1 where f1: "pack_frame_raw ?L ''kernel'' ?f [1] (Some [7]) = Inr f1"
    using demo_codec_pack [of "[1]"] by (simp add: MAX_PAYLOAD_SIZE_def) blast
  obtain f2 where f2: "pack_frame_raw ?L ''kernel'' ?f [2] (Some [7]) = Inr f2"
    using demo_codec_pack [of "[2]"] by (simp add: MAX_PAYLOAD_SIZE_def) blast
  obtain q where q: "pack_frame_raw ?L ''kernel'' ?f [] (Some [7]) = Inr q" using demo_codec_pack [of "[]"] by simp blast
  let ?c = "demo_client [RData (f1 @ f2)] (replicate (length q) (WCount 1))"
  have c: "\<not> ws_active ?c" "pack_frame_raw ?L ''kernel'' (wire_flags (session_key ?c) 0) [1] (session_key ?c) = Inr f1"
    "stream_of (reads ?c) = f1 @ f2" "quiet (Suc 1) ?c" "ParseFromArray ?L [1] = Some ?req"
    using f1 demo_quiet [of "[RData (f1 @ f2)]" 2] pack_frame_raw_nonempty [OF f1] by (simp_all add: demo_client_def numeral_2_eq_2)
  obtain c1 where c1: "recv ?L ?c = (Ret ?req, c1)" "stream_of (reads c1) = f2" "quiet 1 c1" "reads_only ?c c1"
    by (rule recv_pack [OF demo_codec_ok c])
  have k: "\<not> ws_active c1" "pack_frame_raw ?L ''kernel'' (wire_flags (session_key c1) 0) [2] (session_key c1) = Inr f2"
    "stream_of (reads c1) = f2 @ []" "quiet (Suc 0) c1" "ParseFromArray ?L [2] = Some ?bye"
    using same_session_recv [OF c1(1)] c1(2,3) f2 by (simp_all add: same_session_def demo_client_def)
  obtain c2 where c2: "recv ?L c1 = (Ret ?bye, c2)" by (rule recv_pack [OF demo_codec_ok k])
  have "\<exists>c'. send ?L ''kernel'' env c1 = (Ret (), c')" for env
  proof -
    have "pack_frame_raw ?L ''kernel'' (wire_flags (session_key c1) 0) (SerializeToString ?L env) (session_key c1) = Inr q" "accepting (length q) (writes c1)"
      using q same_session_recv [OF c1(1)] c1(4) by (simp_all add: same_session_def demo_client_def reads_only_def accepting_def)
    from send_accepted [OF k(1) this] show ?thesis by metis
  qed
  then show ?thesis using c(1) c1(1) k(1) c2 by (intro exI [of _ ?L] exI [of _ ?c] exI [of _ c1] exI [of _ c2] exI [of _ ?req] exI [of _ ?bye]) simp
qed

lemma demo_rejected_run:
  "\<exists>(L :: sdklib) c s. run_concurrent_loop L any_handler c s \<and> cl_phase s = Polling \<and> cl_workers s = [] \<and>
     ch_queue (cl_channel s) = [rejection demo_action NonStdException] \<and> cl_sent s = [] \<and> \<not> ws_active (cl_client s) \<and>
     (\<exists>c'. flush L (ch_queue (cl_channel s)) (cl_client s) = Some c')"
proof -
  obtain L :: sdklib and c c1 :: client and req_env where c: "\<not> ws_active c" "recv L c = (Ret req_env, c1)" "en_payload req_env = M_action_request demo_action"
    "\<not> ws_active c1" "\<forall>env. \<exists>c'. send L ''kernel'' env c1 = (Ret (), c')"
    using demo_connection by metis
  let ?s = "loop_start c" let ?r = "?s\<lparr>cl_phase := Receiving\<rparr>"
  have 1: "loop_step L any_handler ?s ?r"
    by (rule loop_step.poll_readable [of _ "fd c"]) (use c(1) in \<open>simp_all add: loop_start_def ResponseChannel_def native_handle_def\<close>)
  let ?e = "rejection demo_action NonStdException"
  let ?t = "?r\<lparr>cl_client := c1\<rparr>"
  let ?u = "?t\<lparr>cl_channel := push ?e (cl_channel ?t), cl_produced := cl_produced ?t @ [?e], cl_phase := Polling\<rparr>"
  have d: "dispatch L any_handler req_env ?t ?u" by (rule dispatch.reject [OF c(3)]) (simp add: any_handler_def)
  have 2: "loop_step L any_handler ?r ?u"
    by (rule loop_step.receive [OF _ _ d]) (use c(2) in \<open>simp_all add: loop_start_def ResponseChannel_def\<close>)
  have "run_concurrent_loop L any_handler c ?u"
    using run_concurrent_loop.stepped [OF run_concurrent_loop.stepped [OF run_concurrent_loop.entered 1] 2] .
  moreover have "cl_phase ?u = Polling" "cl_workers ?u = []" and q: "ch_queue (cl_channel ?u) = [?e]" and "cl_sent ?u = []" "\<not> ws_active (cl_client ?u)"
    using c(4) by (simp_all add: loop_start_def ResponseChannel_def chp.items_put)
  moreover have "\<exists>c'. flush L (ch_queue (cl_channel ?u)) (cl_client ?u) = Some c'"
  proof -
    obtain c' where "send L ''kernel'' ?e c1 = (Ret (), c')" using c(5) by blast
    then have "send_best_effort L ''kernel'' ?e c1 = (Ret (), c')" by (simp add: send_best_effort_def)
    then have "flush L [?e] c1 = Some c'" by simp
    moreover have "cl_client ?u = c1" by (simp add: loop_start_def)
    ultimately show ?thesis unfolding q by metis
  qed
  ultimately show ?thesis by blast
qed

text \<open>
  The handler accepts a request; the loop, told to shut down, is joining the threads when the
  request's thread returns its response.
\<close>

lemma demo_late_reply:
  "\<exists>(L :: sdklib) c s s'. run_concurrent_loop L any_handler c s \<and> cl_phase s = Joining \<and> cl_workers s = [Running demo_action] \<and>
     ch_queue (cl_channel s) = [] \<and> cl_sent s = [] \<and> (loop_step L any_handler)\<^sup>*\<^sup>* s s' \<and> cl_phase s' = Closed \<and>
     cl_produced s' = cl_produced s @ [response_envelope (rq_action_id demo_action) (ActionResult_Ok [])]"
proof -
  obtain L :: sdklib and c c1 c2 :: client and req_env bye sd where c: "\<not> ws_active c" "recv L c = (Ret req_env, c1)" "\<not> ws_active c1" "recv L c1 = (Ret bye, c2)"
    "en_payload req_env = M_action_request demo_action" "en_payload bye = M_plugin_shutdown sd"
    using demo_connection by metis
  let ?H = any_handler
  let ?reply = "response_envelope (rq_action_id demo_action) (ActionResult_Ok [])"
  let ?st = "\<lambda>cl ch ws ph pr. \<lparr>cl_client = cl, cl_channel = ch, cl_workers = ws, cl_phase = ph, cl_produced = pr, cl_sent = []\<rparr>"
  let ?ch = "\<lparr>ch_queue = [], ch_wake = 0\<rparr>"
  have any: "h_accept ?H r x" "h_action ?H r y" for r x y by (simp_all add: any_handler_def)
  have s0: "run_concurrent_loop L ?H c (?st c ?ch [] Polling [])"
    using run_concurrent_loop.entered [of L ?H c] by (simp add: loop_start_def ResponseChannel_def)
  note go = run_concurrent_loop.stepped
  have 1: "loop_step L ?H (?st c ?ch [] Polling []) (?st c ?ch [] Receiving [])"
    using loop_step.poll_readable [of "?st c ?ch [] Polling []" "fd c" L ?H] c(1) by (simp add: native_handle_def)
  have "dispatch L ?H req_env (?st c1 ?ch [] Receiving []) (?st c1 ?ch [Running demo_action] Polling [])"
    using dispatch.spawn [OF c(5) any(1), of L "?st c1 ?ch [] Receiving []"] by simp
  then have 2: "loop_step L ?H (?st c ?ch [] Receiving []) (?st c1 ?ch [Running demo_action] Polling [])"
    using loop_step.receive [of "?st c ?ch [] Receiving []" L req_env c1 ?H] c(2) by simp
  have 3: "loop_step L ?H (?st c1 ?ch [Running demo_action] Polling []) (?st c1 ?ch [Running demo_action] Receiving [])"
    using loop_step.poll_readable [of "?st c1 ?ch [Running demo_action] Polling []" "fd c1" L ?H] c(3) by (simp add: native_handle_def)
  have "dispatch L ?H bye (?st c2 ?ch [Running demo_action] Receiving []) (?st c2 ?ch [Running demo_action] Joining [])"
    using dispatch.shutdown [OF c(6), of L ?H "?st c2 ?ch [Running demo_action] Receiving []"] by simp
  then have 4: "loop_step L ?H (?st c1 ?ch [Running demo_action] Receiving []) (?st c2 ?ch [Running demo_action] Joining [])"
    using loop_step.receive [of "?st c1 ?ch [Running demo_action] Receiving []" L bye c2 ?H] c(4) by simp
  have 5: "loop_step L ?H (?st c2 ?ch [Running demo_action] Joining []) (?st c2 ?ch [Pushing [?reply]] Joining [?reply])"
    using loop_step.work [of 0 "?st c2 ?ch [Running demo_action] Joining []" demo_action ?H "Inr [?reply]" L] any(2)
    by (simp add: worker_envelopes_def)
  have 6: "loop_step L ?H (?st c2 ?ch [Pushing [?reply]] Joining [?reply]) (?st c2 (push_queue ?reply ?ch) [Waking []] Joining [?reply])"
    using loop_step.worker_push [of 0 "?st c2 ?ch [Pushing [?reply]] Joining [?reply]" ?reply "[]" L ?H] by simp
  have 7: "loop_step L ?H (?st c2 (push_queue ?reply ?ch) [Waking []] Joining [?reply]) (?st c2 (push ?reply ?ch) [Pushing []] Joining [?reply])"
    using loop_step.worker_wake [of 0 "?st c2 (push_queue ?reply ?ch) [Waking []] Joining [?reply]" "[]" L ?H] by (simp add: push_def)
  have 8: "loop_step L ?H (?st c2 (push ?reply ?ch) [Pushing []] Joining [?reply]) (?st c2 (push ?reply ?ch) [Pushing []] Closed [?reply])"
    using loop_step.joined [of "?st c2 (push ?reply ?ch) [Pushing []] Joining [?reply]" L ?H] by simp
  let ?s = "?st c2 ?ch [Running demo_action] Joining []" let ?s' = "?st c2 (push ?reply ?ch) [Pushing []] Closed [?reply]"
  have "run_concurrent_loop L ?H c ?s" by (rule go [OF go [OF go [OF go [OF s0 1] 2] 3] 4])
  moreover have "(loop_step L ?H)\<^sup>*\<^sup>* ?s ?s'"
    by (rule rtranclp.rtrancl_into_rtrancl [OF rtranclp.rtrancl_into_rtrancl [OF rtranclp.rtrancl_into_rtrancl [OF r_into_rtranclp [of "loop_step L ?H", OF 5] 6] 7] 8])
  ultimately show ?thesis by (intro exI [of _ L] exI [of _ c] exI [of _ ?s] exI [of _ ?s']) simp
qed

section \<open>Properties\<close>

text \<open>
  C35: Replies are neither lost nor doubled. In every reachable state of the concurrent loop, the
  replies that the handler's threads and the rejections have produced are, as a multiset, those
  the loop has taken to send, those in the queue, and those a thread still has to push.
\<close>

theorem concurrent_replies_conserved:
  assumes "run_concurrent_loop L H c s"
  shows "mset (cl_produced s) = mset (cl_sent s) + mset (ch_queue (cl_channel s)) + (\<Sum>w\<leftarrow>cl_workers s. mset (pending_replies w))"
  using loop_invariants [OF assms] by (simp add: conserved_def)

theorem concurrent_replies_conserved_witness:
  "\<exists>(L :: sdklib) c s. run_concurrent_loop L any_handler c s \<and> ch_queue (cl_channel s) \<noteq> [] \<and>
     mset (cl_produced s) = mset (cl_sent s) + mset (ch_queue (cl_channel s)) + (\<Sum>w\<leftarrow>cl_workers s. mset (pending_replies w))"
proof -
  obtain L :: sdklib and c s where "run_concurrent_loop L any_handler c s" "ch_queue (cl_channel s) \<noteq> []"
    using demo_rejected_run by fastforce
  with concurrent_replies_conserved show ?thesis by blast
qed

text \<open>
  C36: No lost wake-up. Whenever the loop is about to wait in \<^verbatim>\<open>poll\<close> while a reply is queued, the
  wake pipe holds a byte, so that the wait ends at once, or a thread is between its push and its
  write to the pipe.
\<close>

theorem concurrent_no_lost_wakeup:
  assumes "run_concurrent_loop L H c s" "cl_phase s = Polling" "ch_queue (cl_channel s) \<noteq> []"
    and "\<forall>envs. Waking envs \<notin> set (cl_workers s)"
  shows "0 < ch_wake (cl_channel s)"
  using loop_invariants [OF assms(1)] assms(2-4) by (auto simp: awake_def)

theorem concurrent_no_lost_wakeup_witness:
  "\<exists>(L :: sdklib) c s. run_concurrent_loop L any_handler c s \<and> ch_queue (cl_channel s) \<noteq> [] \<and> 0 < ch_wake (cl_channel s)"
proof -
  obtain L :: sdklib and c s where s: "run_concurrent_loop L any_handler c s" "cl_phase s = Polling" "cl_workers s = []"
    "ch_queue (cl_channel s) \<noteq> []" using demo_rejected_run by fastforce
  have "\<forall>envs. Waking envs \<notin> set (cl_workers s)" using s(3) by simp
  from concurrent_no_lost_wakeup [OF s(1,2,4) this] s(1,4) show ?thesis by blast
qed

text \<open>
  C38: What is not sent before the loop leaves is never sent. While the loop polls, over a Unix
  socket that does not block, it can send all that is queued, in order, and come back to polling
  (when no thread is between its push and its write to the pipe). But once it has left (a shutdown
  message, a failed receive or a failed poll) and joins the handler's threads, then however the
  threads go on, the client is not touched and nothing more is handed over for sending; and when the
  loop returns, the queue, which is destroyed with it, holds all the replies that were queued, were
  still to be pushed, or were produced by threads that finished afterwards.
\<close>

theorem concurrent_shutdown_drops_reply:
  assumes "run_concurrent_loop L H c s"
  shows "(cl_phase s = Polling \<and> \<not> ws_active (cl_client s) \<and> (\<forall>envs. Waking envs \<notin> set (cl_workers s)) \<and>
      flush L (ch_queue (cl_channel s)) (cl_client s) = Some c' \<longrightarrow>
      (\<exists>s'. (loop_step L H)\<^sup>*\<^sup>* s s' \<and> cl_phase s' = Polling \<and> cl_client s' = c' \<and> ch_queue (cl_channel s') = [] \<and>
         cl_sent s' = cl_sent s @ ch_queue (cl_channel s))) \<and>
    ((cl_phase s = Joining \<or> cl_phase s = Closed) \<and> (loop_step L H)\<^sup>*\<^sup>* s s' \<longrightarrow>
      cl_client s' = cl_client s \<and> cl_sent s' = cl_sent s \<and>
      (\<exists>new. cl_produced s' = cl_produced s @ new \<and>
        (cl_phase s' = Closed \<longrightarrow> mset (ch_queue (cl_channel s')) =
           mset (ch_queue (cl_channel s)) + (\<Sum>w\<leftarrow>cl_workers s. mset (pending_replies w)) + mset new)))"
proof (intro conjI impI; elim conjE)
  assume a: "cl_phase s = Polling" "\<not> ws_active (cl_client s)" "\<forall>envs. Waking envs \<notin> set (cl_workers s)"
    "flush L (ch_queue (cl_channel s)) (cl_client s) = Some c'"
  show "\<exists>s'. (loop_step L H)\<^sup>*\<^sup>* s s' \<and> cl_phase s' = Polling \<and> cl_client s' = c' \<and> ch_queue (cl_channel s') = [] \<and>
      cl_sent s' = cl_sent s @ ch_queue (cl_channel s)"
  proof (cases "ch_queue (cl_channel s) = []")
    case True
    with a show ?thesis by auto
  next
    case False
    with loop_invariants [OF assms] a have "0 < ch_wake (cl_channel s)" by (auto simp: awake_def)
    with a poll_sends show ?thesis by blast
  qed
next
  assume a: "cl_phase s = Joining \<or> cl_phase s = Closed" "(loop_step L H)\<^sup>*\<^sup>* s s'"
  have l: "left s s'" using loop_steps_left a by blast
  then show "cl_client s' = cl_client s" "cl_sent s' = cl_sent s" by (simp_all add: left_def)
  from l obtain new where new: "cl_produced s' = cl_produced s @ new" "cl_sent s' = cl_sent s" by (auto simp: left_def)
  have "mset (cl_produced s) = mset (cl_sent s) + mset (ch_queue (cl_channel s)) + (\<Sum>w\<leftarrow>cl_workers s. mset (pending_replies w))"
    using loop_invariants [OF assms] by (simp add: conserved_def)
  moreover have "mset (cl_produced s') = mset (cl_sent s') + mset (ch_queue (cl_channel s'))" if "cl_phase s' = Closed"
    using closed_settled [OF run_concurrent_loop_steps [OF a(2) assms] that] by blast
  ultimately show "\<exists>new. cl_produced s' = cl_produced s @ new \<and> (cl_phase s' = Closed \<longrightarrow> mset (ch_queue (cl_channel s')) =
      mset (ch_queue (cl_channel s)) + (\<Sum>w\<leftarrow>cl_workers s. mset (pending_replies w)) + mset new)"
    using new by (intro exI [of _ new]) (auto simp: ac_simps)
qed

text \<open>Witness: a rejection that is sent, and a response produced while the loop joins the threads, which is not.\<close>

theorem concurrent_shutdown_drops_reply_witness:
  "(\<exists>(L :: sdklib) c s s'. run_concurrent_loop L any_handler c s \<and> (loop_step L any_handler)\<^sup>*\<^sup>* s s' \<and>
      cl_sent s' = [rejection demo_action NonStdException]) \<and>
   (\<exists>(L :: sdklib) c s s'. run_concurrent_loop L any_handler c s \<and> cl_workers s = [Running demo_action] \<and>
      (loop_step L any_handler)\<^sup>*\<^sup>* s s' \<and> cl_phase s' = Closed \<and> cl_sent s' = [] \<and>
      mset (ch_queue (cl_channel s')) = {#response_envelope (rq_action_id demo_action) (ActionResult_Ok [])#})"
proof
  obtain L :: sdklib and c s c' where s: "run_concurrent_loop L any_handler c s" "cl_phase s = Polling" "cl_workers s = []"
    "ch_queue (cl_channel s) = [rejection demo_action NonStdException]" "cl_sent s = []" "\<not> ws_active (cl_client s)"
    "flush L (ch_queue (cl_channel s)) (cl_client s) = Some c'"
    using demo_rejected_run by metis
  from concurrent_shutdown_drops_reply [OF s(1), of c'] s(2-7) obtain s' where
    "(loop_step L any_handler)\<^sup>*\<^sup>* s s'" "cl_sent s' = [rejection demo_action NonStdException]" by auto
  with s(1) show "\<exists>(L :: sdklib) c s s'. run_concurrent_loop L any_handler c s \<and> (loop_step L any_handler)\<^sup>*\<^sup>* s s' \<and>
      cl_sent s' = [rejection demo_action NonStdException]" by blast
  obtain L :: sdklib and c s s' where t: "run_concurrent_loop L any_handler c s" "cl_phase s = Joining" "cl_workers s = [Running demo_action]"
    "ch_queue (cl_channel s) = []" "cl_sent s = []" "(loop_step L any_handler)\<^sup>*\<^sup>* s s'" "cl_phase s' = Closed"
    "cl_produced s' = cl_produced s @ [response_envelope (rq_action_id demo_action) (ActionResult_Ok [])]"
    using demo_late_reply by metis
  from concurrent_shutdown_drops_reply [OF t(1), of _ s'] t(2-8) have "cl_sent s' = []"
    "mset (ch_queue (cl_channel s')) = {#response_envelope (rq_action_id demo_action) (ActionResult_Ok [])#}" by auto
  with t show "\<exists>(L :: sdklib) c s s'. run_concurrent_loop L any_handler c s \<and> cl_workers s = [Running demo_action] \<and>
      (loop_step L any_handler)\<^sup>*\<^sup>* s s' \<and> cl_phase s' = Closed \<and> cl_sent s' = [] \<and>
      mset (ch_queue (cl_channel s')) = {#response_envelope (rq_action_id demo_action) (ActionResult_Ok [])#}" by blast
qed

text \<open>
  C37: What the handler sees of a whole \<open>serve_concurrent\<close>. When it is over with result \<open>r\<close> (it
  returned, \<open>Inr ()\<close>, or threw): if the registration threw or was not accepted, the handler saw
  nothing. If \<open>on_init\<close> threw, \<open>on_shutdown\<close> followed and the exception of \<open>on_init\<close> went on, unless
  \<open>on_shutdown\<close> threw one of its own. If \<open>on_init\<close> returned on a client over a Unix socket, the loop
  was entered and left and then \<open>on_shutdown\<close> was called, when every handler thread had finished and
  each reply it had produced was taken for sending or left in the queue. \<open>on_shutdown\<close> is missing
  in two cases only: the loop could not create its pipe, or the client is a WebSocket client, on
  which the loop throws before it starts any thread.
\<close>

theorem serve_concurrent_lifecycle:
  assumes "serve_concurrent L H jwt_token c s" "sv_stage s = Finished r"
  shows "(case register_full L (h_id H) (h_version H) (h_manifest H) jwt_token c of
      (Throw e, c1) \<Rightarrow> sv_trace s = [] \<and> r = Inl e
    | (Pending, c1) \<Rightarrow> False
    | (Ret ack, c1) \<Rightarrow>
        if \<not> ak_accepted ack
        then sv_trace s = [] \<and> r = Inl (VynkorPermissionDenied (''registration rejected: '' @ ak_reject_reason ack))
        else (case h_init H c1 of
            (Throw e, c2) \<Rightarrow> sv_trace s = [HandlerInit, HandlerShutdown] \<and> (\<exists>sd. h_shutdown H sd \<and> r = after_shutdown sd (Inl e))
          | (Pending, c2) \<Rightarrow> False
          | (Ret _, c2) \<Rightarrow>
              sv_trace s = [HandlerInit] \<and> r = Inl (VynkorIoError ''pipe2 failed for concurrent loop wake channel'') \<or>
              (if ws_active c2
               then sv_trace s = [HandlerInit, LoopEntered, LoopLeft] \<and> (\<exists>l. sv_loop s = Some l \<and> cl_workers l = []) \<and>
                 r = Inl (VynkorInternal ''native_handle is only valid on the UDS transport'')
               else sv_trace s = [HandlerInit, LoopEntered, LoopLeft, HandlerShutdown] \<and>
                 (\<exists>sd. h_shutdown H sd \<and> r = after_shutdown sd (Inr ())) \<and>
                 (\<exists>l. sv_loop s = Some l \<and> run_concurrent_loop L H c2 l \<and> (\<forall>w \<in> set (cl_workers l). w = Pushing []) \<and>
                    mset (cl_produced l) = mset (cl_sent l) + mset (ch_queue (cl_channel l))))))"
proof -
  have thrown: "ws_active c2 \<and> cl_workers l = [] \<and> e = VynkorInternal ''native_handle is only valid on the UDS transport''"
    if "run_concurrent_loop L H c2 l" "cl_phase l = Threw e" for c2 l e
    using loop_throws_only_ws [OF that(1)] ws_loop_starts_nothing [OF that(1)] that(2) by (auto simp: native_handle_def loop_start_def)
  have closed: "\<not> ws_active c2" if "run_concurrent_loop L H c2 l" "cl_phase l = Closed" for c2 l
    using ws_loop_starts_nothing [OF that(1)] that(2) by (auto simp: loop_start_def)
  from assms show ?thesis
  proof (cases rule: serve_concurrent_ends)
    case (init c1 c2 e sd)
    then show ?thesis by (auto simp: registered_as_def intro!: exI [of _ sd])
  next
    case threw
    with thrown [OF threw(4,5)] show ?thesis by (auto simp: registered_as_def)
  next
    case (served c1 c2 l sd)
    with closed [OF served(4,5)] closed_settled [OF served(4,5)] show ?thesis
      by (auto simp: registered_as_def intro!: exI [of _ sd])
  qed (auto simp: registered_as_def)
qed

text \<open>Witness: a plugin is registered, \<open>poll\<close> fails at once, and the plugin is shut down.\<close>

theorem serve_concurrent_lifecycle_witness:
  "\<exists>(L :: sdklib) c s. serve_concurrent L any_handler [] c s \<and> sv_stage s = Finished (Inr ()) \<and>
     sv_trace s = [HandlerInit, LoopEntered, LoopLeft, HandlerShutdown]"
proof -
  let ?H = any_handler
  let ?a = "\<lparr>ak_accepted = True, ak_reject_reason = [], ak_granted_permissions = [], ak_session_nonce = []\<rparr>"
  let ?L = "demo_codec (\<lambda>e. []) (\<lambda>p. Some (envelope (M_plugin_register_ack ?a)))"
  obtain q where q: "pack_frame_raw ?L ''kernel'' (wire_flags (Some [7]) 0) [] (Some [7]) = Inr q" using demo_codec_pack [of "[]"] by simp blast
  obtain fr where fr: "pack_frame_raw ?L ''kernel'' (wire_flags (Some [7]) 0) [1] (Some [7]) = Inr fr"
    using demo_codec_pack [of "[1]"] by (simp add: MAX_PAYLOAD_SIZE_def) blast
  let ?c = "demo_client [RData fr] [WCount (length q)]"
  let ?e = "envelope (M_plugin_register \<lparr>rg_plugin_id = h_id ?H, rg_version = h_version ?H, rg_manifest = h_manifest ?H, rg_jwt_token = [],
      rg_device_id = device_id ?c\<rparr>)"
  have c: "session_key ?c = Some [7]" "\<not> ws_active ?c" "writes ?c = WCount (length q) # []" "stream_of (reads ?c) = fr @ []" "quiet (Suc 0) ?c"
    using demo_quiet [of "[RData fr]" 1] pack_frame_raw_nonempty [OF fr] by (simp_all add: demo_client_def)
  have q': "pack_frame_raw ?L ''kernel'' (wire_flags (Some [7]) 0) (SerializeToString ?L ?e) (Some [7]) = Inr q" by (simp add: q)
  have p: "ParseFromArray ?L [1] = Some (envelope (M_plugin_register_ack ?a))" by simp
  obtain c1 c2 where x: "send ?L ''kernel'' ?e ?c = (Ret (), c1)" "recv ?L c1 = (Ret (envelope (M_plugin_register_ack ?a)), c2)" "same_session ?c c2"
    by (rule demo_exchange [OF c(1,2) demo_codec_ok q' c(3) fr c(4,5) p])
  have reg: "register_full ?L (h_id ?H) (h_version ?H) (h_manifest ?H) [] ?c = (Ret ?a, c2)" using x(1,2) by (simp add: register_full_def)
  have nh: "native_handle (cl_client (loop_start c2)) = Inr (fd c2)" using x(3) c(2) by (simp add: native_handle_def same_session_def loop_start_def ResponseChannel_def)
  let ?j = "loop_start c2\<lparr>cl_phase := Joining\<rparr>"
  have 1: "loop_step ?L ?H (loop_start c2) ?j" by (rule loop_step.poll_error [OF _ nh]) (simp add: loop_start_def ResponseChannel_def)
  have 2: "loop_step ?L ?H ?j (?j\<lparr>cl_phase := Closed\<rparr>)" by (rule loop_step.joined) (simp_all add: loop_start_def ResponseChannel_def)
  let ?st = "\<lambda>cl sg tr lp. \<lparr>sv_client = cl, sv_stage = sg, sv_trace = tr, sv_loop = lp\<rparr>"
  let ?sv = "serve_concurrent ?L ?H [] ?c" let ?fin = "?j\<lparr>cl_phase := Closed\<rparr>"
  note go = serve_concurrent.goes_on
  have init: "h_init ?H c2 = (Ret (), c2)" and sd: "h_shutdown ?H (Inr ())" by (simp_all add: any_handler_def)
  have "?sv (?st ?c Registering [] None)" using serve_concurrent.called [of ?L ?H "[]" ?c] by (simp add: server_start_def)
  moreover have "serve_step ?L ?H [] (?st ?c Registering [] None) (?st c2 Initialising [] None)"
    using serve_step.registered [of "?st ?c Registering [] None" ?L ?H "[]" ?a c2] reg by simp
  ultimately have "?sv (?st c2 Initialising [] None)" by (rule go)
  from go [OF this serve_step.initialised] init have "?sv (?st c2 Entering [HandlerInit] None)" by fastforce
  from go [OF this serve_step.enter] have "?sv (?st c2 (Serving (loop_start c2)) [HandlerInit, LoopEntered] None)" by simp
  from go [OF this serve_step.in_loop [OF _ 1]] have "?sv (?st c2 (Serving ?j) [HandlerInit, LoopEntered] None)" by simp
  from go [OF this serve_step.in_loop [OF _ 2]] have "?sv (?st c2 (Serving ?fin) [HandlerInit, LoopEntered] None)" by simp
  from go [OF this serve_step.loop_returned] have "?sv (?st (cl_client ?fin) Leaving [HandlerInit, LoopEntered, LoopLeft] (Some ?fin))" by simp
  from go [OF this serve_step.shutdown [OF _ sd]]
  obtain s where s: "?sv s" "sv_stage s = Finished (Inr ())" by (fastforce simp: after_shutdown_def)
  from serve_concurrent_lifecycle [OF s] have "sv_trace s = [HandlerInit, LoopEntered, LoopLeft, HandlerShutdown]"
    using reg init x(3) c(2) by (simp add: same_session_def)
  with s show ?thesis by blast
qed

end
