(* ===== verification/Vyn_Transcript.thy ===== *)
theory Vyn_Transcript
  imports Vyn_Plugin_Spec Vyn_Request
begin

text \<open>
  What a plugin's process puts on its socket. A \<open>script\<close> is a specification of a plugin: each
  callback as a function of the plugin's own members, giving the envelopes it sends itself, its
  result and the new members. \<open>session\<close> is the conversation such a plugin has with the kernel, as
  a function of the messages it is sent: no sockets, frames, keys or partial writes. The locale
  \<open>scripted\<close> relates a plugin to its script; inside it, \<open>serve\<close> is shown to make exactly the
  calls of \<open>session\<close> and to write exactly its envelopes, framed under the session's key.
\<close>

section \<open>Frames put on the socket\<close>

definition framed :: "'l sdklib_scheme \<Rightarrow> bytes option \<Rightarrow> Envelope \<Rightarrow> bytes \<Rightarrow> bool" where
  "framed L key env q \<longleftrightarrow> pack_frame_raw L ''kernel'' (wire_flags key 0) (SerializeToString L env) key = Inr q"

text \<open>The bytes \<open>q\<close> were written, and nothing else happened to the connection.\<close>

definition emits :: "bytes \<Rightarrow> 'a client_scheme \<Rightarrow> 'a client_scheme \<Rightarrow> bool" where
  "emits q c c' \<longleftrightarrow> sent c' = sent c @ q \<and> reads c' = reads c \<and> polls c' = polls c \<and> clock c' = clock c \<and> same_session c c' \<and>
     sys_millis c' = sys_millis c \<and> (\<forall>m. accepting (length q + m) (writes c) \<longrightarrow> accepting m (writes c'))"

lemma emits_none [simp]: "emits [] c c"
  by (simp add: emits_def)

lemma emits_trans: "emits q c c' \<Longrightarrow> emits q' c' c'' \<Longrightarrow> emits (q @ q') c c''"
  unfolding emits_def by (auto simp: add.assoc intro: same_session_trans)

lemma emits_room: "emits q c c' \<Longrightarrow> accepting (length (q @ q')) (writes c) \<Longrightarrow> accepting (length q') (writes c')"
  by (simp add: emits_def)

lemma emits_quiet: "emits q c c' \<Longrightarrow> quiet n c' = quiet n c" "emits q c c' \<Longrightarrow> reads c' = reads c"
  by (simp_all add: emits_def quiet_def)

lemma emits_session: "emits q c c' \<Longrightarrow> session_key c' = session_key c" "emits q c c' \<Longrightarrow> ws_active c' = ws_active c"
    "emits q c c' \<Longrightarrow> sys_millis c' = sys_millis c"
  by (simp_all add: emits_def same_session_def)

lemma send_emits:
  assumes "\<not> ws_active c" "framed L (session_key c) env q" "accepting (length q) (writes c)"
  obtains c' where "send L ''kernel'' env c = (Ret (), c')" "emits q c c'" "world.more c' = world.more c"
proof -
  obtain c' where w: "write_all q c = (Ret (), c')" using write_all_accepting [of q 0 c] assms(3) by auto
  have s: "send L ''kernel'' env c = (Ret (), c')"
    using assms(1,2) w by (simp add: send_def send_raw_def send_raw_with_flags_def Let_def wire_flags_def framed_def)
  have m: "world.more c' = world.more c" using write_all_more [of q c] w by simp
  then have "sys_millis c' = sys_millis c" by (cases c; cases c') simp
  moreover have "sent c' = sent c @ q" using write_all_sent [OF w] by auto
  moreover have "accepting (length q + k) (writes c) \<longrightarrow> accepting k (writes c')" for k using write_all_accepting [of q k c] w by auto
  ultimately have "emits q c c'" using write_all_keeps [of q c] w same_session_world [OF m] by (simp add: emits_def)
  from that [OF s this m] show thesis .
qed

text \<open>The same after input was consumed too.\<close>

definition leaves :: "bytes \<Rightarrow> 'a client_scheme \<Rightarrow> 'a client_scheme \<Rightarrow> bool" where
  "leaves q c c' \<longleftrightarrow> sent c' = sent c @ q \<and> same_session c c' \<and> sys_millis c' = sys_millis c \<and>
     (\<forall>m. accepting (length q + m) (writes c) \<longrightarrow> accepting m (writes c'))"

lemma leaves_trans: "leaves q c c' \<Longrightarrow> leaves q' c' c'' \<Longrightarrow> leaves (q @ q') c c''"
  unfolding leaves_def by (auto simp: add.assoc intro: same_session_trans)

lemma emits_leaves: "emits q c c' \<Longrightarrow> leaves q c c'"
  by (simp add: emits_def leaves_def)

section \<open>Scripts\<close>

type_synonym ('r, 'm) reaction = "'m \<Rightarrow> Envelope list \<times> 'r result \<times> 'm"

record 'm script =
  sc_init :: "(unit, 'm) reaction"
  sc_event :: "Event \<Rightarrow> (Envelope option, 'm) reaction"
  sc_message :: "Envelope \<Rightarrow> (Envelope option, 'm) reaction"
  sc_shutdown :: "(unit, 'm) reaction"

definition says :: "Envelope list \<Rightarrow> 'r \<Rightarrow> ('r, 'm) reaction" where
  "says outs x m = (outs, Inr x, m)"

definition react_bind :: "('r, 'm) reaction \<Rightarrow> ('r \<Rightarrow> ('q, 'm) reaction) \<Rightarrow> ('q, 'm) reaction" where
  "react_bind g G m = (case g m of
      (outs, Inl e, m) \<Rightarrow> (outs, Inl e, m)
    | (outs, Inr x, m) \<Rightarrow> (case G x m of (outs', r, m) \<Rightarrow> (outs @ outs', r, m)))"

definition replies :: "Envelope option \<Rightarrow> Envelope list" where
  "replies reply = (case reply of None \<Rightarrow> [] | Some env \<Rightarrow> [env])"

section \<open>The conversation\<close>

text \<open>
  The answer to one message: how the loop ends if it does, the calls made, the envelopes sent, the
  number of readings of the system clock so far, and the members.
\<close>

definition answer ::
    "'m script \<Rightarrow> (nat \<Rightarrow> int) \<Rightarrow> nat \<Rightarrow> Envelope \<Rightarrow> 'm \<Rightarrow> loop_end option \<times> plugin_call list \<times> Envelope list \<times> nat \<times> 'm" where
  "answer H clk t env m = (case en_payload env of
      M_plugin_shutdown _ \<Rightarrow> (Some (Ended None), [], [], t, m)
    | M_ping ts \<Rightarrow> (None, [], [envelope (M_pong \<lparr>pg_original_timestamp = ts, pg_server_timestamp = word_of_int (clk t)\<rparr>)], Suc t, m)
    | M_event ev \<Rightarrow> (case sc_event H ev m of
          (pre, Inl e, m) \<Rightarrow> (None, [OnEvent ev], pre, t, m)
        | (pre, Inr reply, m) \<Rightarrow> (None, [OnEvent ev], pre @ envelope (M_event_ack (ev_event_id ev)) # replies reply, t, m))
    | _ \<Rightarrow> (case sc_message H env m of
          (pre, Inl e, m) \<Rightarrow> (Some (Ended (Some e)), [OnMessage env], pre, t, m)
        | (pre, Inr reply, m) \<Rightarrow> (None, [OnMessage env], pre @ replies reply, t, m)))"

fun transcript ::
    "'m script \<Rightarrow> (nat \<Rightarrow> int) \<Rightarrow> nat \<Rightarrow> Envelope list \<Rightarrow> 'm \<Rightarrow> loop_end option \<times> plugin_call list \<times> Envelope list \<times> 'm" where
  "transcript H clk t [] m = (None, [], [], m)"
| "transcript H clk t (env # es) m = (case answer H clk t env m of
      (Some r, calls, outs, t, m) \<Rightarrow> (Some r, calls, outs, m)
    | (None, calls, outs, t, m) \<Rightarrow> (case transcript H clk t es m of
        (r, calls', outs', m) \<Rightarrow> (r, calls @ calls', outs @ outs', m)))"

definition closing ::
    "'m script \<Rightarrow> unit outcome \<Rightarrow> plugin_call list \<Rightarrow> Envelope list \<Rightarrow> 'm \<Rightarrow> unit outcome \<times> plugin_call list \<times> Envelope list \<times> 'm" where
  "closing H r calls outs m = (case sc_shutdown H m of
      (outs', Inl e, m) \<Rightarrow> (Throw e, calls @ [OnShutdown], outs @ outs', m)
    | (outs', Inr _, m) \<Rightarrow> (r, calls @ [OnShutdown], outs @ outs', m))"

text \<open>After the registration; \<open>None\<close> when the messages do not end the conversation.\<close>

definition served_script ::
    "'m script \<Rightarrow> (nat \<Rightarrow> int) \<Rightarrow> nat \<Rightarrow> Envelope list \<Rightarrow> 'm \<Rightarrow> (unit outcome \<times> plugin_call list \<times> Envelope list \<times> 'm) option" where
  "served_script H clk t es m = (case transcript H clk t es m of
      (Some (Ended err), calls, outs, m) \<Rightarrow> Some (closing H (case err of None \<Rightarrow> Ret () | Some e \<Rightarrow> Throw e) (OnInit # calls) outs m)
    | _ \<Rightarrow> None)"

definition session ::
    "'m script \<Rightarrow> (nat \<Rightarrow> int) \<Rightarrow> nat \<Rightarrow> Envelope list \<Rightarrow> 'm \<Rightarrow> (unit outcome \<times> plugin_call list \<times> Envelope list \<times> 'm) option" where
  "session H clk t es m = (case sc_init H m of
      (pre, Inl e, m) \<Rightarrow> Some (closing H (Throw e) [OnInit] pre m)
    | (pre, Inr _, m) \<Rightarrow> map_option (\<lambda>(r, calls, outs, m). (r, calls, pre @ outs, m)) (served_script H clk t es m))"

lemma session_not_pending: "session H clk t es m = Some (r, calls, outs, m') \<Longrightarrow> r \<noteq> Pending"
  by (auto simp: session_def served_script_def closing_def split: sum.splits prod.splits option.splits loop_end.splits)

section \<open>Performing a reaction\<close>

text \<open>
  A piece of code performs a reaction when, on a Unix socket that takes the frames, it writes the
  reaction's envelopes, gives its result and leaves its members.
\<close>

definition performs ::
    "'l sdklib_scheme \<Rightarrow> ('a client_scheme \<Rightarrow> 'm) \<Rightarrow> ('a client_scheme \<Rightarrow> 'r outcome \<times> 'a client_scheme) \<Rightarrow> ('r, 'm) reaction \<Rightarrow> bool" where
  "performs L members f g \<longleftrightarrow> (\<forall>c outs r m qs. g (members c) = (outs, r, m) \<longrightarrow> \<not> ws_active c \<longrightarrow>
     list_all2 (framed L (session_key c)) outs qs \<longrightarrow> accepting (length (concat qs)) (writes c) \<longrightarrow>
     (\<exists>c'. f c = (lift_result r, c') \<and> emits (concat qs) c c' \<and> sys_ticks c' = sys_ticks c \<and> members c' = m))"

lemma performsD:
  assumes "performs L members f g" "g (members c) = (outs, r, m)" "\<not> ws_active c" "list_all2 (framed L (session_key c)) outs qs"
    "accepting (length (concat qs)) (writes c)"
  obtains c' where "f c = (lift_result r, c')" "emits (concat qs) c c'" "sys_ticks c' = sys_ticks c" "members c' = m"
  using assms unfolding performs_def by blast

text \<open>The same with more to come: the frames of the rest find their room.\<close>

lemma performs_split:
  assumes "performs L members f g" "g (members c) = (outs, r, m)" "\<not> ws_active c"
    and "list_all2 (framed L (session_key c)) (outs @ later) qs" "accepting (length (concat qs)) (writes c)"
  obtains q1 q2 c' where "qs = q1 @ q2" "f c = (lift_result r, c')" "emits (concat q1) c c'" "sys_ticks c' = sys_ticks c" "members c' = m"
    "\<not> ws_active c'" "list_all2 (framed L (session_key c')) later q2" "accepting (length (concat q2)) (writes c')"
proof -
  from assms(4) obtain q1 q2 where qs: "qs = q1 @ q2" "list_all2 (framed L (session_key c)) outs q1" "list_all2 (framed L (session_key c)) later q2"
    by (auto simp: list_all2_append1)
  have a: "accepting (length (concat q1)) (writes c)" using assms(5) qs(1) by (auto intro: accepting_less)
  obtain c' where c': "f c = (lift_result r, c')" "emits (concat q1) c c'" "sys_ticks c' = sys_ticks c" "members c' = m"
    by (rule performsD [OF assms(1-3) qs(2) a])
  have k: "\<not> ws_active c'" "list_all2 (framed L (session_key c')) later q2" "accepting (length (concat q2)) (writes c')"
    using assms(3,5) qs(1,3) emits_session [OF c'(2)] emits_room [OF c'(2), of "concat q2"] by simp_all
  from that [OF qs(1) c' k] show thesis .
qed

lemma performs_Ret: "performs L members (\<lambda>c. (Ret x, c)) (says [] x)"
  unfolding performs_def says_def by auto

lemma performs_bind:
  assumes f: "performs L members f g" and F: "\<And>x. performs L members (F x) (G x)"
  shows "performs L members (\<lambda>c. andthen (f c) F) (react_bind g G)"
  unfolding performs_def
proof (intro allI impI)
  fix c outs r m qs
  assume b: "react_bind g G (members c) = (outs, r, m)" and ws: "\<not> ws_active c"
    and q: "list_all2 (framed L (session_key c)) outs qs" and a: "accepting (length (concat qs)) (writes c)"
  obtain o1 r1 m1 where g: "g (members c) = (o1, r1, m1)" by (metis prod_cases3)
  show "\<exists>c'. andthen (f c) F = (lift_result r, c') \<and> emits (concat qs) c c' \<and> sys_ticks c' = sys_ticks c \<and> members c' = m"
  proof (cases r1)
    case (Inl e)
    with b g have "o1 = outs" "r = Inl e" "m1 = m" by (simp_all add: react_bind_def)
    with g Inl show ?thesis using performsD [OF f _ ws q a] by (metis andthen_simps(2) lift_result.simps(1))
  next
    case (Inr x)
    obtain o2 where G: "G x m1 = (o2, r, m)" "outs = o1 @ o2"
      using b g Inr by (auto simp: react_bind_def split: prod.splits)
    obtain q1 q2 c1 where c1: "qs = q1 @ q2" "f c = (lift_result r1, c1)" "emits (concat q1) c c1" "sys_ticks c1 = sys_ticks c" "members c1 = m1"
      and k: "\<not> ws_active c1" "list_all2 (framed L (session_key c1)) o2 q2" "accepting (length (concat q2)) (writes c1)"
      by (rule performs_split [OF f g ws q [unfolded G(2)] a])
    obtain c2 where "F x c1 = (lift_result r, c2)" "emits (concat q2) c1 c2" "sys_ticks c2 = sys_ticks c1" "members c2 = m"
      by (rule performsD [OF F _ k]) (use G(1) c1(5) in simp_all)
    with c1 Inr emits_trans [OF c1(3)] show ?thesis by auto
  qed
qed

lemma send_performs:
  assumes members: "\<And>c c'. world.more c' = world.more c \<Longrightarrow> members c' = members c"
  shows "performs L members (send L ''kernel'' env) (says [env] ())"
  unfolding performs_def says_def
proof (intro allI impI)
  fix c outs qs and r :: "unit result" and m
  assume o: "([env], Inr (), members c) = (outs, r, m)" and ws: "\<not> ws_active c" and q: "list_all2 (framed L (session_key c)) outs qs"
    and a: "accepting (length (concat qs)) (writes c)"
  then obtain q where q: "framed L (session_key c) env q" "qs = [q]" by (auto simp: list_all2_Cons1)
  with a have a: "accepting (length q) (writes c)" by simp
  obtain c' where c': "send L ''kernel'' env c = (Ret (), c')" "emits q c c'" "world.more c' = world.more c"
    by (rule send_emits [OF ws q(1) a])
  then have "sys_ticks c' = sys_ticks c" by (cases c; cases c') simp
  with c' o q(2) members [OF c'(3)] show "\<exists>c'. send L ''kernel'' env c = (lift_result r, c') \<and> emits (concat qs) c c' \<and>
      sys_ticks c' = sys_ticks c \<and> members c' = m" by auto
qed

section \<open>Registration\<close>

definition register_request :: "'a hosted_scheme plugin \<Rightarrow> string \<Rightarrow> 'b client_scheme \<Rightarrow> Envelope" where
  "register_request P jwt_token c = envelope (M_plugin_register \<lparr>rg_plugin_id = pl_id P, rg_version = pl_version P,
     rg_manifest = pl_manifest P, rg_jwt_token = jwt_token, rg_device_id = device_id c\<rparr>)"

text \<open>The key in force after the acknowledgement.\<close>

definition new_key :: "'l sdklib_scheme \<Rightarrow> string \<Rightarrow> PluginRegisterAck \<Rightarrow> 'a client_scheme \<Rightarrow> bytes option \<Rightarrow> bool" where
  "new_key L pid a c key \<longleftrightarrow> (if secret c \<noteq> [] \<and> ak_session_nonce a \<noteq> []
     then key \<noteq> None \<and> derive_session_key L (secret c) (ak_session_nonce a) pid = Inr (the key) else key = session_key c)"

lemma register_answered:
  assumes lib: "hmac_ok L" "zstd_ok L" and ws: "\<not> ws_active c" and rq: "framed L (session_key c) (register_request P jwt_token c) q"
    and a: "accepting (length q + n) (writes c)" and fa: "carries L (session_key c) ack fa" and st: "stream_of (reads c) = fa @ rest"
    and k: "quiet (Suc k) c" and ack: "en_payload ack = M_plugin_register_ack a" "new_key L (pl_id P) a c key"
  obtains c1 where "register_full L (pl_id P) (pl_version P) (pl_manifest P) jwt_token c = (Ret a, c1)" "session_key c1 = key"
    "\<not> ws_active c1" "sent c1 = sent c @ q" "accepting n (writes c1)" "stream_of (reads c1) = rest" "quiet k c1"
    "sys_millis c1 = sys_millis c" "sys_ticks c1 = sys_ticks c" "client.more c1 = client.more c"
proof -
  have a0: "accepting (length q) (writes c)" using a by (rule accepting_less) simp
  obtain c1 where c1: "send L ''kernel'' (register_request P jwt_token c) c = (Ret (), c1)" "emits q c c1" "world.more c1 = world.more c"
    by (rule send_emits [OF ws rq a0])
  have e: "\<not> ws_active c1" "session_key c1 = session_key c" "stream_of (reads c1) = fa @ rest" "quiet (Suc k) c1"
    using ws st k emits_session [OF c1(2)] emits_quiet [OF c1(2)] by simp_all
  from fa obtain target payload where pk: "pack_frame_raw L target (wire_flags (session_key c1) 0) payload (session_key c1) = Inr fa"
    "ParseFromArray L payload = Some ack" using e(2) by (auto simp: carries_def)
  obtain c2 where c2: "recv L c1 = (Ret ack, c2)" "stream_of (reads c2) = rest" "quiet k c2" "world.more c2 = world.more c1" "reads_only c1 c2"
    by (rule recv_pack [OF lib e(1) pk(1) e(3,4) pk(2)])
  have w: "world.more c2 = world.more c" using c1(3) c2(4) by simp
  then have f: "secret c2 = secret c" "session_key c2 = session_key c" "ws_active c2 = ws_active c" "sys_millis c2 = sys_millis c"
    "sys_ticks c2 = sys_ticks c" "client.more c2 = client.more c" by (cases c; cases c2; simp)+
  have o: "sent c2 = sent c @ q" "accepting n (writes c2)" using c1(2) c2(5) a by (simp_all add: emits_def reads_only_def)
  have "register_full L (pl_id P) (pl_version P) (pl_manifest P) jwt_token c =
      (Ret a, if secret c \<noteq> [] \<and> ak_session_nonce a \<noteq> [] then c2\<lparr>session_key := key\<rparr> else c2)"
    using c1(1) c2(1) ack f(1) by (auto simp: register_full_def register_request_def new_key_def)
  from that [OF this] show thesis using f o c2(2,3) ws ack(2) by (auto simp: new_key_def quiet_def split: if_splits)
qed

section \<open>A plugin and its script\<close>

text \<open>
  \<open>members\<close> reads the plugin's own members off the state it shares with its client; \<open>covered\<close> are
  the messages the script speaks for.
\<close>

text \<open>What goes to \<open>on_message\<close>.\<close>

definition is_message :: "Envelope \<Rightarrow> bool" where
  "is_message env = (case en_payload env of M_plugin_shutdown _ \<Rightarrow> False | M_ping _ \<Rightarrow> False | M_event _ \<Rightarrow> False | _ \<Rightarrow> True)"

lemma message_unfold:
  assumes "is_message env"
  shows "serve_one L P env c = (case andthen (pl_on_message P env c) (send_reply L) of
      (Ret _, c) \<Rightarrow> (None, [OnMessage env], c) | (Throw e, c) \<Rightarrow> (Some (Ended (Some e)), [OnMessage env], c)
    | (Pending, c) \<Rightarrow> (Some Blocked, [OnMessage env], c))"
    "answer H clk t env m = (case sc_message H env m of
      (pre, Inl e, m) \<Rightarrow> (Some (Ended (Some e)), [OnMessage env], pre, t, m)
    | (pre, Inr reply, m) \<Rightarrow> (None, [OnMessage env], pre @ replies reply, t, m))"
  using assms by (auto simp: is_message_def serve_one_def answer_def split: payload_case.splits)

locale scripted =
  fixes L :: "'l sdklib_scheme" and P :: "'a hosted_scheme plugin" and H :: "'m script"
    and members :: "'a hosted_scheme \<Rightarrow> 'm" and covered :: "Envelope \<Rightarrow> bool"
  assumes members: "hosted.more c' = hosted.more c \<Longrightarrow> members c' = members c"
    and init: "performs L members (pl_on_init P) (sc_init H)"
    and event: "performs L members (pl_on_event P ev) (sc_event H ev)"
    and message: "covered env \<Longrightarrow> performs L members (pl_on_message P env) (sc_message H env)"
    and shutdown: "performs L members (pl_on_shutdown P) (sc_shutdown H)"
begin

lemma members_world: "world.more c' = world.more c \<Longrightarrow> members c' = members c"
  by (rule members) (cases c; cases c'; simp)

lemma performs_send: "performs L members (send L ''kernel'' env) (says [env] ())"
  by (rule send_performs [OF members_world])

lemma performs_reply: "performs L members (send_reply L reply) (says (replies reply) ())"
  using performs_send performs_Ret [of L members "()"]
  by (cases reply) (simp_all add: send_reply_def [abs_def] replies_def)

lemma performs_serve_event:
  "performs L members (serve_event L P ev) (react_bind (sc_event H ev) (\<lambda>reply.
     react_bind (says [envelope (M_event_ack (ev_event_id ev))] ()) (\<lambda>_. says (replies reply) ())))"
  unfolding serve_event_def [abs_def] ack_event_def
  by (intro performs_bind event performs_send performs_reply)

lemma performs_serve_message:
  "covered env \<Longrightarrow> performs L members (\<lambda>c. andthen (pl_on_message P env c) (send_reply L))
     (react_bind (sc_message H env) (\<lambda>reply. says (replies reply) ()))"
  by (intro performs_bind message performs_reply)

lemma serve_one_answers:
  assumes "answer H (sys_millis c) (sys_ticks c) env (members c) = (r, calls, outs, t, m)" "covered env" "\<not> ws_active c"
    and "list_all2 (framed L (session_key c)) outs qs" "accepting (length (concat qs)) (writes c)"
  shows "\<exists>c'. serve_one L P env c = (r, calls, c') \<and> emits (concat qs) c c' \<and> sys_ticks c' = t \<and> members c' = m"
proof -
  consider (shutdown) sd where "en_payload env = M_plugin_shutdown sd" | (ping) ts where "en_payload env = M_ping ts"
    | (event) ev where "en_payload env = M_event ev" | (message) "is_message env"
    by (cases "en_payload env") (auto simp: is_message_def)
  then show ?thesis
  proof cases
    case shutdown
    then show ?thesis using assms by (simp add: serve_one_def answer_def)
  next
    case ping
    let ?pong = "fst (pong_for ts c)" let ?c = "snd (pong_for ts c)"
    have p: "?pong = envelope (M_pong \<lparr>pg_original_timestamp = ts, pg_server_timestamp = word_of_int (sys_millis c (sys_ticks c))\<rparr>)"
      "?c = c\<lparr>sys_ticks := Suc (sys_ticks c)\<rparr>" by (simp_all add: pong_for_def system_now_def)
    have a: "r = None" "calls = []" "outs = [?pong]" "t = Suc (sys_ticks c)" "m = members c"
      using assms(1) ping p by (simp_all add: answer_def)
    have m: "members ?c = members c" by (rule members) (simp add: p)
    have w: "\<not> ws_active ?c" "list_all2 (framed L (session_key ?c)) [?pong] qs" "accepting (length (concat qs)) (writes ?c)"
      using assms(3-5) a p by simp_all
    obtain c' where "send L ''kernel'' ?pong ?c = (Ret (), c')" "emits (concat qs) ?c c'" "sys_ticks c' = sys_ticks ?c" "members c' = members ?c"
      using performsD [OF performs_send _ w] by (auto simp: says_def)
    with ping a m p show ?thesis by (auto simp: serve_one_def case_prod_beta emits_def same_session_def)
  next
    case event
    obtain pre x m1 where x: "sc_event H ev (members c) = (pre, x, m1)" by (metis prod_cases3)
    with assms(1) event have a: "r = None" "calls = [OnEvent ev]" "t = sys_ticks c"
      "react_bind (sc_event H ev) (\<lambda>reply. react_bind (says [envelope (M_event_ack (ev_event_id ev))] ()) (\<lambda>_. says (replies reply) ())) (members c)
        = (outs, (case x of Inl e \<Rightarrow> Inl e | Inr _ \<Rightarrow> Inr ()), m)"
      by (auto simp: answer_def react_bind_def says_def split: sum.splits)
    obtain c' y where "serve_event L P ev c = (lift_result y, c')" "emits (concat qs) c c'" "sys_ticks c' = sys_ticks c" "members c' = m"
      using performsD [OF performs_serve_event a(4) assms(3-5)] by metis
    with event a show ?thesis by (cases y) (auto simp: serve_one_def)
  next
    case message
    obtain pre x m1 where x: "sc_message H env (members c) = (pre, x, m1)" by (metis prod_cases3)
    with assms(1) message have a: "r = (case x of Inl e \<Rightarrow> Some (Ended (Some e)) | Inr _ \<Rightarrow> None)" "calls = [OnMessage env]" "t = sys_ticks c"
      "react_bind (sc_message H env) (\<lambda>reply. says (replies reply) ()) (members c) = (outs, (case x of Inl e \<Rightarrow> Inl e | Inr _ \<Rightarrow> Inr ()), m)"
      by (auto simp: message_unfold react_bind_def says_def split: sum.splits)
    obtain c' where "andthen (pl_on_message P env c) (send_reply L) = (lift_result (case x of Inl e \<Rightarrow> Inl e | Inr _ \<Rightarrow> Inr ()), c')"
      "emits (concat qs) c c'" "sys_ticks c' = sys_ticks c" "members c' = m"
      using performsD [OF performs_serve_message [OF assms(2)] a(4) assms(3-5)] by metis
    with message a show ?thesis by (cases x) (auto simp: message_unfold)
  qed
qed

text \<open>
  Receiving a message and answering it. What a step leaves behind: the members, the bytes written,
  room for the rest of the output, and the session.
\<close>

lemma serve_next:
  assumes lib: "hmac_ok L" "zstd_ok L" and env: "carries L (session_key c) env fr" "covered env"
    and c: "\<not> ws_active c" "stream_of (reads c) = fr @ rest" "quiet (Suc k) c"
    and a: "answer H (sys_millis c) (sys_ticks c) env (members c) = (x, calls, outs, t, m)"
    and q: "list_all2 (framed L (session_key c)) outs qs" "accepting (length (concat qs)) (writes c)"
  obtains c1 c2 where "recv L c = (Ret env, c1)" "serve_one L P env c1 = (x, calls, c2)" "members c2 = m" "sys_ticks c2 = t"
    "stream_of (reads c2) = rest" "quiet k c2" "leaves (concat qs) c c2"
proof -
  from env(1) obtain target payload where pk: "pack_frame_raw L target (wire_flags (session_key c) 0) payload (session_key c) = Inr fr"
    "ParseFromArray L payload = Some env" by (auto simp: carries_def)
  obtain c1 where c1: "recv L c = (Ret env, c1)" "stream_of (reads c1) = rest" "quiet k c1" "world.more c1 = world.more c" "reads_only c c1"
    by (rule recv_pack [OF lib c(1) pk(1) c(2,3) pk(2)])
  have s: "same_session c c1" "members c1 = members c" "sys_millis c1 = sys_millis c" "sys_ticks c1 = sys_ticks c"
    using same_session_world [OF c1(4)] members_world [OF c1(4)] c1(4) by (cases c; cases c1; simp)+
  have "\<exists>c2. serve_one L P env c1 = (x, calls, c2) \<and> emits (concat qs) c1 c2 \<and> sys_ticks c2 = t \<and> members c2 = m"
    by (rule serve_one_answers [OF _ env(2)]) (use a q c(1) s c1(5) in \<open>simp_all add: same_session_def reads_only_def\<close>)
  then obtain c2 where c2: "serve_one L P env c1 = (x, calls, c2)" "emits (concat qs) c1 c2" "sys_ticks c2 = t" "members c2 = m" by blast
  have l: "leaves (concat qs) c c2"
    using c2(2) c1(5) s same_session_trans [OF s(1)] by (auto simp: leaves_def emits_def reads_only_def)
  have "stream_of (reads c2) = rest" "quiet k c2" using c1(2,3) emits_quiet [OF c2(2)] by simp_all
  from that [OF c1(1) c2(1,4,3) this l] show thesis .
qed

lemma serve_loop_transcript:
  assumes lib: "hmac_ok L" "zstd_ok L"
  shows "transcript H (sys_millis c) (sys_ticks c) es (members c) = (Some r, calls, outs, m) \<Longrightarrow> list_all covered es \<Longrightarrow>
    \<not> ws_active c \<Longrightarrow> list_all2 (carries L (session_key c)) es frs \<Longrightarrow> stream_of (reads c) = concat frs @ rest \<Longrightarrow> quiet (length es) c \<Longrightarrow>
    list_all2 (framed L (session_key c)) outs qs \<Longrightarrow> accepting (length (concat qs)) (writes c) \<Longrightarrow> length es \<le> n \<Longrightarrow>
    \<exists>c'. serve_loop n L P c = (r, calls, c') \<and> members c' = m \<and> leaves (concat qs) c c'"
proof (induction es arbitrary: c frs outs qs calls n)
  case (Cons env es)
  obtain x calls1 outs1 t1 m1 where a: "answer H (sys_millis c) (sys_ticks c) env (members c) = (x, calls1, outs1, t1, m1)" by (metis prod_cases5)
  from Cons.prems(4,5) obtain fr frs' where frs: "carries L (session_key c) env fr" "list_all2 (carries L (session_key c)) es frs'"
    "stream_of (reads c) = fr @ concat frs' @ rest"
    by (auto simp: list_all2_Cons1)
  have cov: "covered env" "list_all covered es" "quiet (Suc (length es)) c" using Cons.prems(2,6) by simp_all
  obtain n' where n: "n = Suc n'" "length es \<le> n'" using Cons.prems(9) by (cases n) simp_all
  note next_one = serve_next [OF lib frs(1) cov(1) Cons.prems(3) frs(3) cov(3) a]
  show ?case
  proof (cases x)
    case (Some y)
    with a Cons.prems(1) have "y = r" "calls1 = calls" "outs1 = outs" "m1 = m" by simp_all
    then obtain c1 c2 where "recv L c = (Ret env, c1)" "serve_one L P env c1 = (Some r, calls, c2)" "members c2 = m" "leaves (concat qs) c c2"
      using next_one [of qs] Cons.prems(7,8) Some by blast
    with n(1) show ?thesis by auto
  next
    case None
    obtain calls2 outs2 where b: "transcript H (sys_millis c) t1 es m1 = (Some r, calls2, outs2, m)" "calls = calls1 @ calls2" "outs = outs1 @ outs2"
      using Cons.prems(1) a None by (auto split: prod.splits)
    with Cons.prems(7) obtain q1 q2 where qs: "qs = q1 @ q2" "list_all2 (framed L (session_key c)) outs1 q1" "list_all2 (framed L (session_key c)) outs2 q2"
      by (auto simp: list_all2_append1)
    have room: "accepting (length (concat q1)) (writes c)" using Cons.prems(8) qs(1) by (auto intro: accepting_less)
    obtain c1 c2 where c2: "recv L c = (Ret env, c1)" "serve_one L P env c1 = (x, calls1, c2)" "members c2 = m1" "sys_ticks c2 = t1"
      "stream_of (reads c2) = concat frs' @ rest" "quiet (length es) c2" "leaves (concat q1) c c2"
      by (rule next_one [OF qs(2) room])
    have s: "ws_active c2 = ws_active c" "session_key c2 = session_key c" "sys_millis c2 = sys_millis c" "accepting (length (concat q2)) (writes c2)"
      using c2(7) Cons.prems(8) qs(1) by (simp_all add: leaves_def same_session_def)
    have "\<exists>c'. serve_loop n' L P c2 = (r, calls2, c') \<and> members c' = m \<and> leaves (concat q2) c2 c'"
      by (rule Cons.IH [OF _ cov(2)]) (use b(1) Cons.prems(3) frs(2) qs(3) c2 s n(2) in simp_all)
    with c2(1,2) None n(1) b(2) qs(1) leaves_trans [OF c2(7)] show ?thesis by auto
  qed
qed simp

text \<open>The end: \<open>on_shutdown\<close>, after which the view of the client is cleared.\<close>

lemma shut_down_performs:
  assumes "sc_shutdown H (members c) = (outs, x, m)" "\<not> ws_active c" "list_all2 (framed L (session_key c)) outs qs"
    "accepting (length (concat qs)) (writes c)"
  shows "\<exists>c'. shut_down P r calls c = (Some (case x of Inl e \<Rightarrow> Throw e | Inr _ \<Rightarrow> r), calls @ [OnShutdown], c') \<and>
    sent c' = sent c @ concat qs \<and> members c' = m \<and> \<not> ws_active c'"
proof -
  obtain c' where c': "pl_on_shutdown P c = (lift_result x, c')" "emits (concat qs) c c'" "members c' = m"
    by (rule performsD [OF shutdown assms])
  moreover have "members (c'\<lparr>client_view := False\<rparr>) = members c'" by (rule members) simp
  ultimately show ?thesis using assms(2) emits_session(2) [OF c'(2)] by (cases x) (auto simp: shut_down_def emits_def)
qed

lemma served_session:
  assumes lib: "hmac_ok L" "zstd_ok L" and c: "\<not> ws_active c1" "stream_of (reads c1) = concat frs @ rest" "quiet (length es) c1"
    and es: "list_all2 (carries L (session_key c1)) es frs" "list_all covered es"
    and i: "pl_on_init P c = (lift_result x, c1)" "x = Inr u"
    and s: "served_script H (sys_millis c1) (sys_ticks c1) es (members c1) = Some (r, calls, outs, m)"
    and q: "list_all2 (framed L (session_key c1)) outs qs" "accepting (length (concat qs)) (writes c1)" and n: "length es \<le> n"
  shows "\<exists>c'. serve_registered n L P c = (Some r, calls, c') \<and> sent c' = sent c1 @ concat qs \<and> members c' = m \<and> \<not> ws_active c'"
proof -
  obtain err calls2 outs2 m2 where tr: "transcript H (sys_millis c1) (sys_ticks c1) es (members c1) = (Some (Ended err), calls2, outs2, m2)"
    and cl: "closing H (case err of None \<Rightarrow> Ret () | Some e \<Rightarrow> Throw e) (OnInit # calls2) outs2 m2 = (r, calls, outs, m)"
    using s by (auto simp: served_script_def split: prod.splits option.splits loop_end.splits)
  let ?r = "case err of None \<Rightarrow> Ret () | Some e \<Rightarrow> Throw e"
  obtain outs3 z where z: "sc_shutdown H m2 = (outs3, z, m)" "outs = outs2 @ outs3" "calls = (OnInit # calls2) @ [OnShutdown]"
    "r = (case z of Inl e \<Rightarrow> Throw e | Inr _ \<Rightarrow> ?r)"
    using cl by (auto simp: closing_def split: sum.splits prod.splits)
  from q(1) z(2) obtain q2 q3 where qs: "qs = q2 @ q3" "list_all2 (framed L (session_key c1)) outs2 q2" "list_all2 (framed L (session_key c1)) outs3 q3"
    by (auto simp: list_all2_append1)
  have a: "accepting (length (concat q2)) (writes c1)" using q(2) qs(1) by (auto intro: accepting_less)
  obtain c2 where c2: "serve_loop n L P c1 = (Ended err, calls2, c2)" "members c2 = m2" "leaves (concat q2) c1 c2"
    using serve_loop_transcript [OF lib tr es(2) c(1) es(1) c(2,3) qs(2) a n] by blast
  have "\<exists>c'. shut_down P ?r (OnInit # calls2) c2 = (Some (case z of Inl e \<Rightarrow> Throw e | Inr _ \<Rightarrow> ?r), (OnInit # calls2) @ [OnShutdown], c') \<and>
    sent c' = sent c2 @ concat q3 \<and> members c' = m \<and> \<not> ws_active c'"
    by (rule shut_down_performs) (use z(1) c2(2,3) c(1) qs(1,3) q(2) in \<open>simp_all add: leaves_def same_session_def\<close>)
  with i c2 z qs(1) show ?thesis by (auto simp: serve_registered_def leaves_def)
qed

lemma serve_registered_session:
  assumes lib: "hmac_ok L" "zstd_ok L" and c: "\<not> ws_active c" "stream_of (reads c) = concat frs @ rest" "quiet (length es) c"
    and es: "list_all2 (carries L (session_key c)) es frs" "list_all covered es"
    and s: "session H (sys_millis c) (sys_ticks c) es (members c) = Some (r, calls, outs, m)"
    and q: "list_all2 (framed L (session_key c)) outs qs" "accepting (length (concat qs)) (writes c)" and n: "length es \<le> n"
  shows "\<exists>c'. serve_registered n L P c = (Some r, calls, c') \<and> sent c' = sent c @ concat qs \<and> members c' = m \<and> \<not> ws_active c'"
proof -
  obtain pre x m1 where i: "sc_init H (members c) = (pre, x, m1)" by (metis prod_cases3)
  from s i have "\<exists>later. outs = pre @ later"
    by (auto simp: session_def closing_def split: sum.splits prod.splits option.splits loop_end.splits)
  then obtain later where later: "outs = pre @ later" by blast
  obtain q1 q2 c1 where c1: "qs = q1 @ q2" "pl_on_init P c = (lift_result x, c1)" "emits (concat q1) c c1" "sys_ticks c1 = sys_ticks c"
      "members c1 = m1"
    and k: "\<not> ws_active c1" "list_all2 (framed L (session_key c1)) later q2" "accepting (length (concat q2)) (writes c1)"
    by (rule performs_split [OF init i c(1) q(1) [unfolded later] q(2)])
  show ?thesis
  proof (cases x)
    case (Inl e)
    obtain z where z: "sc_shutdown H m1 = (later, z, m)" "calls = [OnInit] @ [OnShutdown]" "r = (case z of Inl e \<Rightarrow> Throw e | Inr _ \<Rightarrow> Throw e)"
      using s i Inl later by (auto simp: session_def closing_def split: sum.splits prod.splits)
    have sd: "sc_shutdown H (members c1) = (later, z, m)" using z(1) c1(5) by simp
    from shut_down_performs [OF sd k, of "Throw e" "[OnInit]"] c1 z Inl show ?thesis
      by (auto simp: serve_registered_def emits_def)
  next
    case (Inr u)
    have f: "list_all2 (carries L (session_key c1)) es frs" "stream_of (reads c1) = concat frs @ rest" "quiet (length es) c1"
      "session H (sys_millis c1) (sys_ticks c1) es (members c) = Some (r, calls, outs, m)"
      using es(1) c(2,3) s c1(4) emits_session [OF c1(3)] emits_quiet [OF c1(3)] by simp_all
    have "\<exists>c'. serve_registered n L P c = (Some r, calls, c') \<and> sent c' = sent c1 @ concat q2 \<and> members c' = m \<and> \<not> ws_active c'"
      by (rule served_session [OF lib k(1) f(2,3,1) es(2) c1(2) _ _ k(2,3) n]) (use Inr c1(5) f(4) i later in \<open>auto simp: session_def\<close>)
    with c1(1,3) show ?thesis by (auto simp: emits_def)
  qed
qed

text \<open>The whole of \<open>serve\<close>, with the registration.\<close>

lemma serve_session:
  assumes lib: "hmac_ok L" "zstd_ok L" and c: "\<not> ws_active c" "stream_of (reads c) = fa @ concat frs @ rest" "quiet (Suc (length es)) c"
    and rq: "framed L (session_key c) (register_request P jwt_token c) q"
    and ack: "carries L (session_key c) ack fa" "en_payload ack = M_plugin_register_ack a" "ak_accepted a" "new_key L (pl_id P) a c key"
    and es: "list_all2 (carries L key) es frs" "list_all covered es"
    and s: "session H (sys_millis c) (sys_ticks c) es (members c) = Some (r, calls, outs, m)"
    and q: "list_all2 (framed L key) outs qs" "accepting (length (q @ concat qs)) (writes c)" and n: "length es \<le> n"
  shows "\<exists>c'. serve n L P jwt_token c = (Some r, calls, c') \<and> sent c' = sent c @ q @ concat qs \<and> members c' = m \<and> \<not> ws_active c'"
proof -
  let ?c = "c\<lparr>client_view := True\<rparr>"
  have rq': "\<not> ws_active ?c" "framed L (session_key ?c) (register_request P jwt_token ?c) q" "accepting (length q + length (concat qs)) (writes ?c)"
    "carries L (session_key ?c) ack fa" "stream_of (reads ?c) = fa @ concat frs @ rest" "quiet (Suc (length es)) ?c" "new_key L (pl_id P) a ?c key"
    using rq ack(1,4) c q(2) by (simp_all add: register_request_def new_key_def quiet_def)
  obtain c1 where c1: "register_full L (pl_id P) (pl_version P) (pl_manifest P) jwt_token ?c = (Ret a, c1)" "session_key c1 = key"
    "\<not> ws_active c1" "sent c1 = sent ?c @ q" "accepting (length (concat qs)) (writes c1)" "stream_of (reads c1) = concat frs @ rest"
    "quiet (length es) c1" "sys_millis c1 = sys_millis c" "sys_ticks c1 = sys_ticks c" "client.more c1 = client.more ?c"
    using register_answered [OF lib rq'(1-6) ack(2) rq'(7)] by auto
  have "hosted.more c1 = hosted.more c" using c1(10) by (cases c; cases c1) simp
  then have "members c1 = members c" by (rule members)
  then have "\<exists>c'. serve_registered n L P c1 = (Some r, calls, c') \<and> sent c' = sent c1 @ concat qs \<and> members c' = m \<and> \<not> ws_active c'"
    by (intro serve_registered_session [OF lib c1(3,6,7) _ es(2) _ _ c1(5) n]) (use es(1) s q(1) c1 in simp_all)
  with c1(1,4) ack(3) show ?thesis by (auto simp: serve_def)
qed

end

section \<open>Plugins that act on their own members\<close>

text \<open>
  A plugin whose callbacks are arbitrary functions of its own members: the fields of the class
  beside \<^verbatim>\<open>client_\<close>. What such a callback does is its result and the new members.
\<close>

definition on_members :: "('m \<Rightarrow> 'r result \<times> 'm) \<Rightarrow> 'm hosted_scheme \<Rightarrow> 'r outcome \<times> 'm hosted_scheme" where
  "on_members f c = (case f (hosted.more c) of (r, m) \<Rightarrow> (lift_result r, hosted.more_update (\<lambda>_. m) c))"

definition quietly :: "('m \<Rightarrow> 'r result \<times> 'm) \<Rightarrow> ('r, 'm) reaction" where
  "quietly f m = (case f m of (r, m) \<Rightarrow> ([], r, m))"

record 'm behaviour =
  bh_init :: "'m \<Rightarrow> unit result \<times> 'm"
  bh_event :: "Event \<Rightarrow> 'm \<Rightarrow> Envelope option result \<times> 'm"
  bh_message :: "Envelope \<Rightarrow> 'm \<Rightarrow> Envelope option result \<times> 'm"
  bh_shutdown :: "'m \<Rightarrow> unit result \<times> 'm"

definition member_plugin :: "string \<Rightarrow> string \<Rightarrow> PluginManifest \<Rightarrow> 'm behaviour \<Rightarrow> 'm hosted_scheme plugin" where
  "member_plugin pid version manifest B = \<lparr>pl_id = pid, pl_version = version, pl_manifest = manifest, pl_on_init = on_members (bh_init B),
     pl_on_message = (\<lambda>env. on_members (bh_message B env)), pl_on_event = (\<lambda>ev. on_members (bh_event B ev)),
     pl_on_shutdown = on_members (bh_shutdown B)\<rparr>"

definition member_script :: "'m behaviour \<Rightarrow> 'm script" where
  "member_script B = \<lparr>sc_init = quietly (bh_init B), sc_event = (\<lambda>ev. quietly (bh_event B ev)),
     sc_message = (\<lambda>env. quietly (bh_message B env)), sc_shutdown = quietly (bh_shutdown B)\<rparr>"

lemma performs_members: "performs L hosted.more (on_members f) (quietly f)"
  by (auto simp: performs_def on_members_def quietly_def emits_def same_session_def split: prod.splits)

interpretation own: scripted L "member_plugin pid version manifest B" "member_script B" hosted.more "\<lambda>_. True" for L pid version manifest B
  by unfold_locales (simp_all add: member_plugin_def member_script_def performs_members)

section \<open>A demonstration kernel\<close>

text \<open>
  A serialiser under which the payload \<open>[i]\<close> is the \<open>i\<close>th of given messages, and every envelope
  sent has the empty payload; and an acknowledgement.
\<close>

definition demo_kernel :: "Envelope list \<Rightarrow> sdklib" where
  "demo_kernel es = demo_codec (\<lambda>e. []) (\<lambda>p. Some (es ! unat (hd p)))"

definition demo_frame :: "bytes option \<Rightarrow> Envelope list \<Rightarrow> bytes \<Rightarrow> bytes" where
  "demo_frame key es p = projr (pack_frame_raw (demo_kernel es) ''kernel'' (wire_flags key 0) p key)"

definition demo_ack :: Envelope where
  "demo_ack = envelope (M_plugin_register_ack \<lparr>ak_accepted = True, ak_reject_reason = [], ak_granted_permissions = [], ak_session_nonce = []\<rparr>)"

lemma demo_ack_payload:
  "en_payload demo_ack = M_plugin_register_ack \<lparr>ak_accepted = True, ak_reject_reason = [], ak_granted_permissions = [], ak_session_nonce = []\<rparr>"
  by (simp add: demo_ack_def)

lemma demo_kernel_ok: "hmac_ok (demo_kernel es)" "zstd_ok (demo_kernel es)"
  by (simp_all add: demo_kernel_def)

lemma demo_frame_pack: "length p \<le> 1 \<Longrightarrow> pack_frame_raw (demo_kernel es) ''kernel'' (wire_flags key 0) p key = Inr (demo_frame key es p)"
  using demo_codec_pack [of p "\<lambda>e. []" "\<lambda>p. Some (es ! unat (hd p))" "''kernel''" "wire_flags key 0" key]
  by (auto simp: demo_frame_def demo_kernel_def MAX_PAYLOAD_SIZE_def)

lemma demo_frame_nonempty: "length p \<le> 1 \<Longrightarrow> demo_frame key es p \<noteq> []"
  by (rule pack_frame_raw_nonempty [OF demo_frame_pack])

lemma kernel_carries: "carries (demo_kernel es) key (es ! unat k) (demo_frame key es [k])"
  unfolding carries_def using demo_frame_pack [of "[k]" es key] by (intro exI [of _ "''kernel''"] exI [of _ "[k]"]) (simp add: demo_kernel_def)

lemma demo_stream:
  "carries (demo_kernel [e0, e1, e2, e3]) key e0 (demo_frame key [e0, e1, e2, e3] [0])"
  "list_all2 (carries (demo_kernel [e0, e1, e2, e3]) key) [e1, e2, e3]
     [demo_frame key [e0, e1, e2, e3] [1], demo_frame key [e0, e1, e2, e3] [2], demo_frame key [e0, e1, e2, e3] [3]]"
  using kernel_carries [of "[e0, e1, e2, e3]" key 0] kernel_carries [of "[e0, e1, e2, e3]" key 1]
    kernel_carries [of "[e0, e1, e2, e3]" key 2] kernel_carries [of "[e0, e1, e2, e3]" key 3] by simp_all

lemma demo_framed: "framed (demo_kernel es) key env (demo_frame key es [])"
  using demo_frame_pack [of "[]" es key] by (simp add: framed_def demo_kernel_def)

section \<open>Properties\<close>

text \<open>
  C9: \<open>serve\<close> holds the conversation the plugin's callbacks describe. Take a plugin whose callbacks
  are any functions of its own members, and a kernel that accepts the registration and sends any
  messages of which one ends the session, over a Unix socket in any segmentation of reads and
  writes. Then \<open>serve\<close> makes exactly the calls of \<open>session\<close>, ends the way it ends, leaves
  the members it leaves, and the bytes it has written are the registration followed by the frames of
  the envelopes of \<open>session\<close>, in order: a pong for every ping with the time it was answered, for
  every event the handler returned from the acknowledgement and then its reply, for an event the
  handler threw on nothing, for every other message the handler's reply.
\<close>

theorem plugin_session:
  assumes "hmac_ok L" "zstd_ok L" "\<not> ws_active c" "stream_of (reads c) = fa @ concat frs @ rest" "quiet (Suc (length es)) c"
    and "P = member_plugin pid version manifest B" "framed L (session_key c) (register_request P jwt_token c) q"
    and "carries L (session_key c) ack fa" "en_payload ack = M_plugin_register_ack a" "ak_accepted a" "new_key L pid a c key"
    and "list_all2 (carries L key) es frs"
    and "session (member_script B) (sys_millis c) (sys_ticks c) es (hosted.more c) = Some (r, calls, outs, m)"
    and "list_all2 (framed L key) outs qs" "accepting (length (q @ concat qs)) (writes c)" "length es \<le> n"
  shows "\<exists>c'. serve n L P jwt_token c = (Some r, calls, c') \<and> sent c' = sent c @ q @ concat qs \<and> hosted.more c' = m"
proof -
  have k: "new_key L (pl_id P) a c key" "list_all (\<lambda>_. True) es" using assms(6,11) by (simp_all add: member_plugin_def list_all_iff)
  from own.serve_session [OF assms(1-5) assms(7) [unfolded assms(6)] assms(8-10) k(1) [unfolded assms(6)] assms(12) k(2) assms(13-16)]
  show ?thesis unfolding assms(6) by blast
qed

theorem plugin_session_witness:
  "\<exists>(L :: sdklib) (c :: hosted) c' B ev q1 q2 q3.
     serve 3 L (member_plugin ''p'' ''1.0.0'' empty_manifest B) [] c = (Some (Ret ()), [OnInit, OnEvent ev, OnShutdown], c') \<and>
     framed L (Some [7]) (envelope (M_event_ack (ev_event_id ev))) q2 \<and> sent c' = q1 @ q2 @ q3"
proof -
  let ?B = "\<lparr>bh_init = (\<lambda>m. (Inr (), m)), bh_event = (\<lambda>ev m. (Inr None, m)), bh_message = (\<lambda>env m. (Inr None, m)),
      bh_shutdown = (\<lambda>m. (Inr (), m))\<rparr> :: unit behaviour"
  let ?P = "member_plugin ''p'' ''1.0.0'' empty_manifest ?B"
  let ?ev = "\<lparr>ev_event_id = ''e'', ev_event_type = [], ev_payload_json = [], ev_retry_count = 0\<rparr>"
  let ?es = "[envelope (M_event ?ev), envelope (M_ping 5), envelope (M_plugin_shutdown \<lparr>sd_reason = [], sd_grace_seconds = 0\<rparr>)]"
  let ?L = "demo_kernel (demo_ack # ?es)" let ?fr = "demo_frame (Some [7]) (demo_ack # ?es)"
  let ?c = "demo_hosted [RData (?fr [0] @ ?fr [1] @ ?fr [2] @ ?fr [3])] (replicate (3 * length (?fr [])) (WCount 1))"
  have c: "\<not> ws_active ?c" "stream_of (reads ?c) = ?fr [0] @ concat [?fr [1], ?fr [2], ?fr [3]] @ []" "quiet (Suc (length ?es)) ?c"
    using demo_frame_nonempty [of "[0]"]
    by (simp_all add: demo_hosted_def quiet_def calm_def ready_count_def FRAME_READ_TIMEOUT_MS_def)
  have k: "session_key ?c = Some [7]" "sent ?c = []" "secret ?c = []" by (simp_all add: demo_hosted_def)
  have es: "carries ?L (session_key ?c) demo_ack (?fr [0])" "list_all2 (carries ?L (Some [7])) ?es [?fr [1], ?fr [2], ?fr [3]]"
    unfolding k(1) by (rule demo_stream)+
  have "\<exists>c'. serve 3 ?L ?P [] ?c = (Some (Ret ()), [OnInit, OnEvent ?ev, OnShutdown], c') \<and>
      sent c' = sent ?c @ ?fr [] @ concat [?fr [], ?fr []] \<and> hosted.more c' = ()"
    by (rule plugin_session [OF demo_kernel_ok c refl _ es(1) demo_ack_payload _ _ es(2)])
      (use k demo_framed in \<open>simp_all add: new_key_def session_def served_script_def closing_def member_script_def quietly_def answer_def
         replies_def demo_hosted_def accepting_def\<close>, simp add: demo_framed)
  then show ?thesis using demo_framed k(2) by force
qed

end
