(* ===== verification/Vyn_Echo.thy ===== *)
theory Vyn_Echo
  imports Vyn_Transcript
begin

text \<open>
  The demonstration plugin of \<^verbatim>\<open>examples/echo_plugin.cpp\<close>, as an instance of \<open>plugin\<close>: plain, streaming
  and publishing actions. Its two members extend the state of the served client. What it prints on
  the console is left out.
\<close>

record echo = hosted +
  stream_action_id :: string
  stream_chunks :: "(u32, bytes) table"

definition ok_response :: "string \<Rightarrow> bytes \<Rightarrow> Envelope" where
  "ok_response aid d = envelope (M_action_response \<lparr>rs_action_id = aid, rs_status = ACTION_OK, rs_data_json = d, rs_error = []\<rparr>)"

definition error_response :: "string \<Rightarrow> string \<Rightarrow> Envelope" where
  "error_response aid m = envelope (M_action_response \<lparr>rs_action_id = aid, rs_status = ACTION_ERROR, rs_data_json = [], rs_error = m\<rparr>)"

definition response_chunk :: "string \<Rightarrow> u32 \<Rightarrow> bytes \<Rightarrow> Envelope" where
  "response_chunk aid sq d = envelope (M_action_response_chunk \<lparr>sc_action_id = aid, sc_seq = sq, sc_chunk = d\<rparr>)"

text \<open>Every exception of the SDK derives from \<^verbatim>\<open>std::exception\<close> and is caught here.\<close>

definition handle_publish_test :: "'l sdklib_scheme \<Rightarrow> ActionRequest \<Rightarrow> echo \<Rightarrow> Envelope option outcome \<times> echo" where
  "handle_publish_test L req s =
     (case publish_event L ''test_publish'' (rq_params_json req) 0 s of
        (Ret ack, s) \<Rightarrow> (Ret (Some (if ea_status ack = EVENT_PUBLISH_OK then ok_response (rq_action_id req) []
                                 else error_response (rq_action_id req) (ea_error ack))), s)
      | (Throw e, s) \<Rightarrow> (Ret (Some (error_response (rq_action_id req) (what e))), s)
      | (Pending, s) \<Rightarrow> (Pending, s))"

definition handle_action :: "'l sdklib_scheme \<Rightarrow> ActionRequest \<Rightarrow> echo \<Rightarrow> Envelope option outcome \<times> echo" where
  "handle_action L req s =
     (if rq_action req = ''stream_echo'' \<and> rq_streaming req then
        (Ret (Some (ok_response (rq_action_id req) [])), s\<lparr>stream_action_id := rq_action_id req, stream_chunks := []\<rparr>)
      else if rq_action req = ''publish_test'' then handle_publish_test L req s
      else if rq_action req = ''echo'' then (Ret (Some (ok_response (rq_action_id req) (rq_params_json req))), s)
      else (Ret (Some (envelope (M_action_response \<lparr>rs_action_id = rq_action_id req, rs_status = ACTION_NOT_FOUND,
              rs_data_json = [], rs_error = ''unknown action: '' @ rq_action req\<rparr>))), s))"

text \<open>The bytes of a \<^verbatim>\<open>std::map\<close>, in the order of its keys.\<close>

definition in_key_order :: "(u32, bytes) table \<Rightarrow> bytes" where
  "in_key_order m = concat (map snd (sort_key fst m))"

definition handle_request_chunk :: "'l sdklib_scheme \<Rightarrow> ActionRequestChunk \<Rightarrow> echo \<Rightarrow> Envelope option outcome \<times> echo" where
  "handle_request_chunk L chunk s =
     (if qc_action_id chunk \<noteq> stream_action_id s then (Ret None, s)
      else let s = s\<lparr>stream_chunks := tbl_put (qc_seq chunk) (qc_chunk chunk) (stream_chunks s)\<rparr> in
        if \<not> qc_final chunk then (Ret None, s)
        else let full = in_key_order (stream_chunks s); mid = length full div 2; aid = stream_action_id s in
          andthen (send L ''kernel'' (response_chunk aid 0 (take mid full)) s) (\<lambda>_ s.
          andthen (send L ''kernel'' (response_chunk aid 1 (drop mid full)) s) (\<lambda>_ s.
            (Ret (Some (ok_response (stream_action_id s) full)), s\<lparr>stream_chunks := [], stream_action_id := []\<rparr>))))"

definition echo_on_message :: "'l sdklib_scheme \<Rightarrow> Envelope \<Rightarrow> echo \<Rightarrow> Envelope option outcome \<times> echo" where
  "echo_on_message L env s = (case en_payload env of
      M_action_request req \<Rightarrow> handle_action L req s
    | M_action_request_chunk chunk \<Rightarrow> handle_request_chunk L chunk s
    | _ \<Rightarrow> (Ret None, s))"

definition echo_on_event :: "Event \<Rightarrow> echo \<Rightarrow> Envelope option outcome \<times> echo" where
  "echo_on_event evt s = (Ret None, s)"

definition echo_on_shutdown :: "echo \<Rightarrow> unit outcome \<times> echo" where
  "echo_on_shutdown s = (Ret (), s)"

definition echo_on_init :: "'l sdklib_scheme \<Rightarrow> echo \<Rightarrow> unit outcome \<times> echo" where
  "echo_on_init L s = subscribe L [''system.low_memory''] s"

definition echo_manifest :: PluginManifest where
  "echo_manifest = empty_manifest\<lparr>mf_permissions := [''PERMISSION_EVENT_PUBLISH''], mf_actions := [''echo'', ''stream_echo'', ''publish_test'']\<rparr>"

definition echo_plugin :: "'l sdklib_scheme \<Rightarrow> echo plugin" where
  "echo_plugin L = (base_plugin ''echo-plugin'' (echo_on_message L))
     \<lparr>pl_manifest := echo_manifest, pl_on_init := echo_on_init L, pl_on_event := echo_on_event, pl_on_shutdown := echo_on_shutdown\<rparr>"

text \<open>\<^verbatim>\<open>main\<close>: a fresh plugin object, run on the default socket.\<close>

definition echo_main ::
    "nat \<Rightarrow> 'l sdklib_scheme \<Rightarrow> os_env \<Rightarrow> echo \<Rightarrow> unit outcome option \<times> plugin_call list \<times> echo" where
  "echo_main n L E s = run n L (echo_plugin L) E (s\<lparr>client_view := False, stream_action_id := [], stream_chunks := []\<rparr>)"

section \<open>Streams\<close>

text \<open>The chunks of one stream, delivered one after the other; the last result counts.\<close>

fun feed_chunks :: "'l sdklib_scheme \<Rightarrow> ActionRequestChunk list \<Rightarrow> echo \<Rightarrow> Envelope option outcome \<times> echo" where
  "feed_chunks L [] s = (Ret None, s)"
| "feed_chunks L [c] s = echo_on_message L (envelope (M_action_request_chunk c)) s"
| "feed_chunks L (c # cs) s = andthen (echo_on_message L (envelope (M_action_request_chunk c)) s) (\<lambda>_ s. feed_chunks L cs s)"

lemma update_fresh: "k \<notin> fst ` set m \<Longrightarrow> AList.update k v m = m @ [(k, v)]"
  by (induction m) auto

lemma put_chunks:
  "distinct (map fst m @ map qc_seq cs) \<Longrightarrow>
   foldl (\<lambda>m c. tbl_put (qc_seq c) (qc_chunk c) m) m cs = m @ map (\<lambda>c. (qc_seq c, qc_chunk c)) cs"
proof (induction cs arbitrary: m)
  case (Cons c cs)
  then have "tbl_put (qc_seq c) (qc_chunk c) m = m @ [(qc_seq c, qc_chunk c)]"
    by (auto simp: tbl_put_def intro: update_fresh)
  with Cons show ?case by simp
qed simp

lemma feed_open:
  assumes "\<forall>c \<in> set cs. qc_action_id c = stream_action_id s \<and> \<not> qc_final c" "rest \<noteq> []"
  shows "feed_chunks L (cs @ rest) s =
    feed_chunks L rest (s\<lparr>stream_chunks := foldl (\<lambda>m c. tbl_put (qc_seq c) (qc_chunk c) m) (stream_chunks s) cs\<rparr>)"
  using assms
proof (induction cs arbitrary: s)
  case (Cons c cs)
  obtain d ds where d: "cs @ rest = d # ds" using Cons.prems(2) by (cases "cs @ rest") simp_all
  show ?case using Cons d by (simp add: echo_on_message_def handle_request_chunk_def Let_def)
qed simp

lemma in_key_order_chunks:
  assumes "distinct (map qc_seq cs)"
  shows "in_key_order (map (\<lambda>c. (qc_seq c, qc_chunk c)) cs) = concat (map qc_chunk (sort_key qc_seq cs))"
proof -
  let ?f = "\<lambda>c. (qc_seq c, qc_chunk c)"
  have "sort_key fst (map ?f cs) = map ?f (sort_key qc_seq cs)"
  proof (rule sort_key_inj_key_eq)
    show "inj_on fst (set (map ?f cs))" using assms by (auto simp: inj_on_def distinct_map)
    show "sorted (map fst (map ?f (sort_key qc_seq cs)))" by (simp add: comp_def)
  qed simp
  then show ?thesis by (simp add: in_key_order_def comp_def)
qed

lemma send_keeps_echo:
  assumes "send L target env s = (r, s')"
  shows "stream_action_id s' = stream_action_id s" "stream_chunks s' = stream_chunks s"
proof -
  have w: "world.more (snd (write_all fr s)) = world.more s" for fr by (rule write_all_more)
  have b: "net.more (snd (send_binary m s)) = net.more s" for m
    using ws_send_frame_only [of s OP_BINARY m] by (auto simp: send_binary_def writes_only_def)
  have "net.more s' = net.more s"
  proof (cases "ws_active s")
    case True
    then show ?thesis using assms b
      by (auto simp: send_def send_raw_def send_raw_with_flags_def run_result_def Let_def split: sum.splits if_splits) (metis snd_conv)+
  next
    case False
    then have "world.more s' = world.more s" using assms w
      by (auto simp: send_def send_raw_def send_raw_with_flags_def run_result_def Let_def split: sum.splits if_splits) (metis snd_conv)+
    then show ?thesis by (cases s; cases s') simp
  qed
  then show "stream_action_id s' = stream_action_id s" "stream_chunks s' = stream_chunks s" by (cases s; cases s'; simp)+
qed

section \<open>Input\<close>

lemma bytes_left_echo [simp]:
  "bytes_left (s\<lparr>stream_action_id := i\<rparr>) = bytes_left s" "bytes_left (s\<lparr>stream_chunks := m\<rparr>) = bytes_left s"
  by (simp_all add: bytes_left_def)

lemma handle_publish_test_input: "bytes_left (snd (handle_publish_test L req s)) \<le> bytes_left s"
  using inp.publish_event [OF order_refl, of L "''test_publish''" "rq_params_json req" 0 s]
  by (auto simp: handle_publish_test_def split: prod.splits outcome.splits)

lemma handle_request_chunk_input: "bytes_left (snd (handle_request_chunk L chunk s)) \<le> bytes_left s"
  unfolding handle_request_chunk_def Let_def
  by (auto intro!: andthen_bytes_left)

lemma echo_tame: "tame (echo_plugin L)"
  using handle_publish_test_input [of L] handle_request_chunk_input [of L]
  by (auto simp: tame_def echo_plugin_def base_plugin_def echo_on_event_def echo_on_message_def handle_action_def split: payload_case.splits)

section \<open>The script\<close>

text \<open>
  The echo plugin as a script over its two members. Publishing waits for the kernel's answer and is
  not part of it: \<open>covered\<close> excludes the action \<^verbatim>\<open>publish_test\<close>.
\<close>

type_synonym echo_members = "string \<times> (u32, bytes) table"

definition echo_members :: "echo \<Rightarrow> echo_members" where
  "echo_members s = (stream_action_id s, stream_chunks s)"

definition echo_covered :: "Envelope \<Rightarrow> bool" where
  "echo_covered env = (case en_payload env of M_action_request req \<Rightarrow> rq_action req \<noteq> ''publish_test'' | _ \<Rightarrow> True)"

definition request_reaction :: "ActionRequest \<Rightarrow> (Envelope option, echo_members) reaction" where
  "request_reaction req m =
     (let aid = rq_action_id req in
      if rq_action req = ''stream_echo'' \<and> rq_streaming req then ([], Inr (Some (ok_response aid [])), (aid, []))
      else if rq_action req = ''echo'' then ([], Inr (Some (ok_response aid (rq_params_json req))), m)
      else ([], Inr (Some (envelope (M_action_response \<lparr>rs_action_id = aid, rs_status = ACTION_NOT_FOUND, rs_data_json = [],
        rs_error = ''unknown action: '' @ rq_action req\<rparr>))), m))"

definition chunk_reaction :: "ActionRequestChunk \<Rightarrow> (Envelope option, echo_members) reaction" where
  "chunk_reaction chunk m = (case m of (sid, chunks) \<Rightarrow>
     if qc_action_id chunk \<noteq> sid then ([], Inr None, (sid, chunks))
     else let chunks = tbl_put (qc_seq chunk) (qc_chunk chunk) chunks; full = in_key_order chunks; mid = length full div 2 in
       if qc_final chunk then ([response_chunk sid 0 (take mid full), response_chunk sid 1 (drop mid full)],
         Inr (Some (ok_response sid full)), ([], []))
       else ([], Inr None, (sid, chunks)))"

definition echo_script :: "echo_members script" where
  "echo_script = \<lparr>sc_init = says [envelope (M_subscribe [''system.low_memory''])] (), sc_event = (\<lambda>ev. says [] None),
     sc_message = (\<lambda>env. case en_payload env of
        M_action_request req \<Rightarrow> request_reaction req
      | M_action_request_chunk chunk \<Rightarrow> chunk_reaction chunk
      | _ \<Rightarrow> says [] None),
     sc_shutdown = says [] ()\<rparr>"

lemma echo_members_more: "hosted.more s' = hosted.more s \<Longrightarrow> echo_members s' = echo_members s"
  by (cases s; cases s') (simp add: echo_members_def)

lemma echo_members_world: "world.more s' = world.more s \<Longrightarrow> echo_members s' = echo_members s"
  by (cases s; cases s') (simp add: echo_members_def)

lemma echo_members_send: "world.more s' = world.more s \<Longrightarrow> stream_action_id s' = stream_action_id s \<and> stream_chunks s' = stream_chunks s \<and> sys_ticks s' = sys_ticks s"
  by (cases s; cases s') simp

lemma emits_members [simp]:
  "emits q c (s\<lparr>stream_action_id := i\<rparr>) = emits q c s" "emits q c (s\<lparr>stream_chunks := m\<rparr>) = emits q c s"
  "emits q (c\<lparr>stream_action_id := i\<rparr>) s = emits q c s" "emits q (c\<lparr>stream_chunks := m\<rparr>) s = emits q c s"
  by (simp_all add: emits_def same_session_def)

lemma request_performs:
  "rq_action req \<noteq> ''publish_test'' \<Longrightarrow> performs L echo_members (handle_action L req) (request_reaction req)"
  by (auto simp: performs_def request_reaction_def handle_action_def echo_members_def Let_def)

lemma chunk_performs: "performs L echo_members (handle_request_chunk L chunk) (chunk_reaction chunk)"
  unfolding performs_def
proof (intro allI impI)
  fix s outs r m qs
  assume g: "chunk_reaction chunk (echo_members s) = (outs, r, m)" and ws: "\<not> ws_active s"
    and q: "list_all2 (framed L (session_key s)) outs qs" and a: "accepting (length (concat qs)) (writes s)"
  show "\<exists>s'. handle_request_chunk L chunk s = (lift_result r, s') \<and> emits (concat qs) s s' \<and> sys_ticks s' = sys_ticks s \<and> echo_members s' = m"
  proof (cases "qc_action_id chunk = stream_action_id s \<and> qc_final chunk")
    case False
    then show ?thesis using g q by (auto simp: chunk_reaction_def handle_request_chunk_def echo_members_def Let_def)
  next
    case True
    let ?s = "s\<lparr>stream_chunks := tbl_put (qc_seq chunk) (qc_chunk chunk) (stream_chunks s)\<rparr>"
    let ?full = "in_key_order (stream_chunks ?s)" let ?sid = "stream_action_id s" let ?mid = "length ?full div 2"
    have m: "r = Inr (Some (ok_response ?sid ?full))" "m = ([], [])"
      and o: "outs = [response_chunk ?sid 0 (take ?mid ?full), response_chunk ?sid 1 (drop ?mid ?full)]"
      using g True by (simp_all add: chunk_reaction_def echo_members_def Let_def)
    from q o obtain q0 q1 where qs: "qs = [q0, q1]" "framed L (session_key ?s) (response_chunk ?sid 0 (take ?mid ?full)) q0"
      "framed L (session_key s) (response_chunk ?sid 1 (drop ?mid ?full)) q1" by (auto simp: list_all2_Cons1)
    have w: "\<not> ws_active ?s" "accepting (length q0) (writes ?s)" "accepting (length (q0 @ q1)) (writes ?s)"
      using ws a qs(1) by (auto intro: accepting_less)
    obtain s1 where s1: "send L ''kernel'' (response_chunk ?sid 0 (take ?mid ?full)) ?s = (Ret (), s1)" "emits q0 ?s s1" "world.more s1 = world.more ?s"
      by (rule send_emits [OF w(1) qs(2) w(2)])
    have w1: "\<not> ws_active s1" "framed L (session_key s1) (response_chunk ?sid 1 (drop ?mid ?full)) q1" "accepting (length q1) (writes s1)"
      using w(1) qs(3) emits_session [OF s1(2)] emits_room [OF s1(2) w(3)] by simp_all
    obtain s2 where s2: "send L ''kernel'' (response_chunk ?sid 1 (drop ?mid ?full)) s1 = (Ret (), s2)" "emits q1 s1 s2" "world.more s2 = world.more s1"
      by (rule send_emits [OF w1])
    have e: "emits (q0 @ q1) s s2" using emits_trans [OF s1(2) s2(2)] by simp
    show ?thesis
      using True m qs(1) s1(1) s2(1) e echo_members_send [OF s1(3)] echo_members_send [OF s2(3)]
      by (auto simp: handle_request_chunk_def Let_def echo_members_def)
  qed
qed

interpretation ech: scripted L "echo_plugin L" echo_script echo_members echo_covered for L
proof unfold_locales
  have snd: "performs L echo_members (send L ''kernel'' env) (says [env] ())" for env
    by (rule send_performs [OF echo_members_world])
  show "echo_members s' = echo_members s" if "hosted.more s' = hosted.more s" for s s' using that by (rule echo_members_more)
  show "performs L echo_members (pl_on_init (echo_plugin L)) (sc_init echo_script)"
    using snd by (simp add: echo_plugin_def echo_on_init_def [abs_def] subscribe_def echo_script_def)
  show "performs L echo_members (pl_on_event (echo_plugin L) ev) (sc_event echo_script ev)" for ev
    using performs_Ret [of L echo_members] by (simp add: echo_plugin_def echo_script_def echo_on_event_def [abs_def])
  show "performs L echo_members (pl_on_shutdown (echo_plugin L)) (sc_shutdown echo_script)"
    using performs_Ret [of L echo_members] by (simp add: echo_plugin_def echo_script_def echo_on_shutdown_def [abs_def])
  show "performs L echo_members (pl_on_message (echo_plugin L) env) (sc_message echo_script env)" if "echo_covered env" for env
    using that performs_Ret [of L echo_members] request_performs chunk_performs
    by (auto simp: echo_plugin_def base_plugin_def echo_script_def echo_covered_def echo_on_message_def [abs_def] split: payload_case.splits)
qed

text \<open>The plugin with an open stream, over given scripts.\<close>

definition demo_echo :: "read_res list \<Rightarrow> write_res list \<Rightarrow> echo" where
  "demo_echo rs ws = \<lparr>reads = rs, polls = [], polled = [], writes = ws, sent = [], clock = (\<lambda>i. 0), ticks = 0, tls = False, ssl_reads = [],
     ssl_writes = [], read_buf = [], rng = (\<lambda>i j. 0), rand_ok = (\<lambda>i. True), draws = 0, ws_open = False, socket_path = [], fd = 3,
     ws_active = False, secret = [], device_id = [], session_key = Some [7], reassembly = [], next_stream_id = 1, g_action_seq = 0,
     sys_millis = (\<lambda>i. 0), sys_ticks = 0, socket_result = 3, connect_result = True, client_view = True,
     stream_action_id = ''a'', stream_chunks = []\<rparr>"

text \<open>The state in which \<open>run_with\<close> has connected a fresh plugin to the socket.\<close>

definition at_socket :: "string \<Rightarrow> os_env \<Rightarrow> echo \<Rightarrow> echo" where
  "at_socket path E s = (client_for_path path (resolve_jwt_secret E []) s)
     \<lparr>fd := socket_result s, client_view := False, stream_action_id := [], stream_chunks := []\<rparr>"

lemma at_socket_connect:
  assumes "length path < 108" "0 \<le> socket_result s" "connect_result s"
  shows "client_connect (client_for_path path (resolve_jwt_secret E []) (s\<lparr>client_view := False, stream_action_id := [], stream_chunks := []\<rparr>)) =
    (Ret (), at_socket path E s)"
  using assms by (simp add: at_socket_def client_connect_def client_close_def client_for_path_def Let_def)

section \<open>Properties\<close>

text \<open>
  A streamed request is answered with its bytes in order. When the chunks of the open stream
  arrive in any order of their sequence numbers, the final one last, and the final call returns,
  the reply carries the chunks' bytes in the order of the sequence numbers, and the plugin is
  ready for the next stream.
\<close>

lemma echo_stream_in_order:
  assumes "stream_chunks s = []" "distinct (map qc_seq (cs @ [fin]))" "qc_final fin"
    and "\<forall>c \<in> set (cs @ [fin]). qc_action_id c = stream_action_id s" "\<forall>c \<in> set cs. \<not> qc_final c"
    and "feed_chunks L (cs @ [fin]) s = (Ret reply, s')"
  shows "reply = Some (ok_response (stream_action_id s) (concat (map qc_chunk (sort_key qc_seq (cs @ [fin]))))) \<and>
    stream_action_id s' = [] \<and> stream_chunks s' = []"
proof -
  let ?m = "map (\<lambda>c. (qc_seq c, qc_chunk c)) (cs @ [fin])"
  let ?s = "s\<lparr>stream_chunks := map (\<lambda>c. (qc_seq c, qc_chunk c)) cs\<rparr>"
  have p: "foldl (\<lambda>m c. tbl_put (qc_seq c) (qc_chunk c) m) [] cs = map (\<lambda>c. (qc_seq c, qc_chunk c)) cs"
    using put_chunks [of "[]" cs] assms(2) by simp
  have put: "tbl_put (qc_seq fin) (qc_chunk fin) (map (\<lambda>c. (qc_seq c, qc_chunk c)) cs) = ?m"
    using assms(2) by (auto simp: tbl_put_def intro!: update_fresh)
  have "feed_chunks L [fin] ?s = (Ret reply, s')"
    using assms(1,4-6) feed_open [of cs s "[fin]" L] p by simp
  then have "handle_request_chunk L fin ?s = (Ret reply, s')" by (simp add: echo_on_message_def)
  then obtain s1 s2 where snt: "send L ''kernel'' (response_chunk (stream_action_id s) 0 (take (length (in_key_order ?m) div 2) (in_key_order ?m)))
        (s\<lparr>stream_chunks := ?m\<rparr>) = (Ret (), s1)"
      "send L ''kernel'' (response_chunk (stream_action_id s) 1 (drop (length (in_key_order ?m) div 2) (in_key_order ?m))) s1 = (Ret (), s2)"
      "reply = Some (ok_response (stream_action_id s2) (in_key_order ?m))" "s' = s2\<lparr>stream_chunks := [], stream_action_id := []\<rparr>"
    using assms(3,4) put by (auto simp: handle_request_chunk_def Let_def andthen_Ret)
  have "stream_action_id s2 = stream_action_id s"
    using send_keeps_echo(1) [OF snt(1)] send_keeps_echo(1) [OF snt(2)] by simp
  with snt(3,4) show ?thesis using in_key_order_chunks [OF assms(2)] by simp
qed

text \<open>
  C10: The example program holds its conversation. When \<open>main\<close> of the echo plugin connects to the
  default socket, and the kernel accepts the registration and sends any messages but
  \<^verbatim>\<open>publish_test\<close> requests, one of which ends the session, over any segmentation of reads and
  writes, then what the process has written is the registration, the subscription, and the frames
  of the answers the script gives, in order: the parameters of every echo request, the two halves
  and the whole of every stream in the order of its sequence numbers, an error for an unknown
  action, a pong for a ping, an acknowledgement for an event.
\<close>

theorem echo_main_session:
  assumes "hmac_ok L" "zstd_ok L" "default_socket_path E = (path, E')" "s = at_socket path E' s0"
    and "length path < 108" "0 \<le> socket_result s0" "connect_result s0"
    and "stream_of (reads s0) = fa @ concat frs @ rest" "quiet (Suc (length es)) s0"
    and "framed L None (register_request (echo_plugin L) (resolve_jwt_token E' []) s) q"
    and "carries L None ack fa" "en_payload ack = M_plugin_register_ack a" "ak_accepted a" "new_key L ''echo-plugin'' a s key"
    and "list_all2 (carries L key) es frs" "list_all echo_covered es"
    and "session echo_script (sys_millis s0) (sys_ticks s0) es ([], []) = Some (r, calls, outs, m)"
    and "list_all2 (framed L key) outs qs" "accepting (length (q @ concat qs)) (writes s0)" "length es \<le> n"
  shows "\<exists>s'. echo_main n L E s0 = (Some r, calls, s') \<and> sent s' = sent s0 @ q @ concat qs \<and> echo_members s' = m"
proof -
  have s: "\<not> ws_active s" "session_key s = None" "stream_of (reads s) = fa @ concat frs @ rest" "quiet (Suc (length es)) s" "writes s = writes s0"
    "sent s = sent s0" "sys_millis s = sys_millis s0" "sys_ticks s = sys_ticks s0" "echo_members s = ([], [])" "pl_id (echo_plugin L) = ''echo-plugin''"
    using assms(4,8,9) by (simp_all add: at_socket_def client_for_path_def quiet_def echo_members_def echo_plugin_def base_plugin_def)
  have "\<exists>s'. serve n L (echo_plugin L) (resolve_jwt_token E' []) s = (Some r, calls, s') \<and> sent s' = sent s @ q @ concat qs \<and>
      echo_members s' = m \<and> \<not> ws_active s'"
    by (rule ech.serve_session [OF assms(1,2) s(1,3,4)]) (use assms s in simp_all)
  then obtain s' where s': "serve n L (echo_plugin L) (resolve_jwt_token E' []) s = (Some r, calls, s')" "sent s' = sent s @ q @ concat qs"
    "echo_members s' = m" "\<not> ws_active s'" by blast
  have "echo_main n L E s0 = close_after (serve n L (echo_plugin L) (resolve_jwt_token E' []) s)"
    using assms(3-7) by (simp add: echo_main_def run_def run_with_def at_socket_connect serve_connected_def)
  moreover have "r \<noteq> Pending" using assms(17) by (rule session_not_pending)
  ultimately show ?thesis using s' s(6) by (simp add: close_after_def client_destroy_def client_close_def echo_members_def)
qed

theorem echo_main_session_witness:
  "\<exists>(L :: sdklib) (s0 :: echo) s' E calls q0 q1 q2 q3. echo_main 3 L E s0 = (Some (Ret ()), calls, s') \<and>
     framed L None (ok_response ''a1'' [1, 2, 3]) q2 \<and> sent s' = q0 @ q1 @ q2 @ q3"
proof -
  let ?req = "\<lparr>rq_action_id = ''a1'', rq_action = ''echo'', rq_params_json = [1, 2, 3], rq_timeout_ms = 0, rq_streaming = False, rq_caller_plugin_id = []\<rparr>"
  let ?es = "[envelope (M_action_request ?req), envelope (M_ping 5), envelope (M_plugin_shutdown \<lparr>sd_reason = [], sd_grace_seconds = 0\<rparr>)]"
  define L where "L = demo_kernel (demo_ack # ?es)"
  define fr where "fr = demo_frame None (demo_ack # ?es)"
  define s0 where "s0 = (demo_echo [RData (fr [0] @ fr [1] @ fr [2] @ fr [3])] (replicate (4 * length (fr [])) (WCount 1)))\<lparr>polls := replicate 20 PReady\<rparr>"
  let ?E = "\<lparr>env_vars = [''VYN_SOCKET_PATH'' \<mapsto> ''/s''], os_uid = 7, dirs = [], denied = (\<lambda>p. False)\<rparr>"
  have E: "default_socket_path ?E = (''/s'', ?E)" by (simp add: default_socket_path_def getenv_nonempty_def)
  have c: "stream_of (reads s0) = fr [0] @ concat [fr [1], fr [2], fr [3]] @ []" "quiet (Suc (length ?es)) s0"
    using demo_frame_nonempty [of "[0]"]
    by (simp_all add: s0_def fr_def demo_echo_def quiet_def calm_def ready_count_def FRAME_READ_TIMEOUT_MS_def)
  have st: "carries L None demo_ack (fr [0])" "list_all2 (carries L None) ?es [fr [1], fr [2], fr [3]]"
    unfolding L_def fr_def by (rule demo_stream)+
  have f: "framed L None env (fr [])" for env unfolding L_def fr_def by (rule demo_framed)
  have k: "length ''/s'' < 108" "0 \<le> socket_result s0" "connect_result s0" "sent s0 = []" "accepting (length (fr [] @ concat [fr [], fr [], fr []])) (writes s0)"
    by (simp_all add: s0_def demo_echo_def accepting_def)
  have key: "new_key L ''echo-plugin'' \<lparr>ak_accepted = True, ak_reject_reason = [], ak_granted_permissions = [], ak_session_nonce = []\<rparr> (at_socket ''/s'' ?E s0) None"
    by (simp add: new_key_def at_socket_def client_for_path_def)
  have cov: "list_all echo_covered ?es" by (simp add: echo_covered_def)
  have ses: "session echo_script (sys_millis s0) (sys_ticks s0) ?es ([], []) = Some (Ret (), [OnInit, OnMessage (envelope (M_action_request ?req)), OnShutdown],
      [envelope (M_subscribe [''system.low_memory'']), ok_response ''a1'' [1, 2, 3],
       envelope (M_pong \<lparr>pg_original_timestamp = 5, pg_server_timestamp = word_of_int (sys_millis s0 (sys_ticks s0))\<rparr>)], ([], []))"
    by (simp add: session_def served_script_def closing_def echo_script_def says_def answer_def request_reaction_def replies_def)
  obtain s' where "echo_main 3 L ?E s0 = (Some (Ret ()), [OnInit, OnMessage (envelope (M_action_request ?req)), OnShutdown], s')"
      "sent s' = sent s0 @ fr [] @ concat [fr [], fr [], fr []]"
    using echo_main_session [OF _ _ E refl k(1-3) c f st(1) demo_ack_payload _ key st(2) cov ses _ k(5), of 3] demo_kernel_ok f
    by (auto simp: L_def)
  with f k(4) show ?thesis by simp (metis append.left_neutral append.right_neutral concat.simps append.assoc)
qed

text \<open>
  C39: The example program ends. Whatever the environment and the kernel do, \<open>main\<close> of the echo
  plugin, given as many rounds as the connection delivers bytes, is over or waits for the kernel:
  no message, event, stream or publish request keeps it busy for ever.
\<close>

theorem echo_main_terminates:
  assumes "bytes_left s \<le> n"
  shows "\<exists>r calls s'. echo_main n L E s = (Some r, calls, s')"
proof -
  let ?s = "s\<lparr>client_view := False, stream_action_id := [], stream_chunks := []\<rparr>"
  have init: "bytes_left (snd (pl_on_init (echo_plugin L) t)) \<le> bytes_left t" for t :: echo
    by (simp add: echo_plugin_def base_plugin_def echo_on_init_def subscribe_def)
  show ?thesis unfolding echo_main_def
    by (rule run_ends [OF echo_tame init]) (use assms in \<open>simp add: bytes_left_def\<close>)
qed

theorem echo_main_terminates_witness:
  "let s = demo_echo [RData [1, 2], RIntr] [] in
   \<exists>r calls s'. echo_main 4 (demo_codec (\<lambda>e. []) (\<lambda>p. None)) \<lparr>env_vars = (\<lambda>v. None), os_uid = 0, dirs = [], denied = (\<lambda>p. False)\<rparr> s = (Some r, calls, s')"
  unfolding Let_def by (rule echo_main_terminates) (simp add: demo_echo_def bytes_left_def)

end
