(* ===== verification/Spec2Isabelle.thy ===== *)
theory Spec2Isabelle
  imports Vyn_Fuzz Vyn_Ws_Handshake Vyn_Client_Ws Vyn_Client_Type Vyn_Request Vyn_Plugin_Spec Vyn_Concurrent_Spec Vyn_Transcript Vyn_Echo
begin

text \<open>
  \<^bold>\<open>The Vynkor C++ SDK, verified.\<close>

  The SDK lets a plugin process talk to the Vynkor kernel. A message is a protobuf \<open>Envelope\<close>,
  carried in a frame (44-byte header, payload, optional 32-byte tag) over a Unix socket or inside a
  binary WebSocket message. This development models the library under \<^verbatim>\<open>src/src\<close> and
  \<^verbatim>\<open>src/include/vynkor\<close>, the echo example and the fuzz target, and proves what each layer promises to the one
  above it.

  \<^bold>\<open>Parts and theories.\<close> From the wire upwards:

  \<^item> \<open>Vyn_Prelude\<close>: bytes and machine words, big-endian fields, the exception classes of
    \<^verbatim>\<open>error.hpp\<close> (\<open>vyn_error\<close>, \<open>what\<close>), the result types, ordered tables for \<^verbatim>\<open>std::map\<close>.
    The locales \<open>fixed_codec\<close> (fixed-width integers on the wire) and \<open>table_store\<close> (find, put,
    erase, sweep) are interpreted on the definitions the model uses.
  \<^item> \<open>Vyn_Crc32\<close>: \<^verbatim>\<open>vynkor_crc32\<close> and its table from \<^verbatim>\<open>framing.cpp\<close>, proved equal to a bit-serial
    shift register; it detects every burst of up to 32 bits.
  \<^item> \<open>Vyn_Mac\<close>: \<^verbatim>\<open>mac.cpp\<close> (\<open>hkdf_extract\<close>, \<open>hkdf_expand\<close>, \<open>derive_session_key\<close>, \<open>compute_tag\<close>,
    \<open>verify_tag\<close>). OpenSSL's HMAC is a parameter.
  \<^item> \<open>Vyn_Frames\<close> and \<open>Vyn_Frame_Spec\<close>: the frame writers and \<open>parse_frame_bytes\<close> of
    \<^verbatim>\<open>framing.cpp\<close>, with compression by a parameter for zstd. The locale \<open>frame_codec\<close> states what a
    client of the codec relies on and is interpreted on both writers; round trips, soundness of the
    parser, rejection of corrupted payloads.
  \<^item> \<open>Vyn_Frame_IO\<close>: \<open>recv_exact\<close>, \<open>recv_exact_deadline\<close>, the \<open>read_frame\<close> family and
    \<open>write_all\<close> over a scripted file descriptor: delivery under every segmentation, the time budget
    of a frame (each \<^verbatim>\<open>poll\<close> waits until the deadline and no longer, \<open>waits_until\<close>), exact writes.
  \<^item> \<open>Vyn_Fuzz\<close>: arbitrary input. The reader over a descriptor agrees with the parser over a buffer
    on every byte string, and the target of \<^verbatim>\<open>fuzz/fuzz_framing.cpp\<close> returns for every input.
  \<^item> \<open>Vyn_Reassembly\<close> and \<open>Vyn_Reassembly_Spec\<close>: \<open>ReassemblyBuf\<close>, \<open>absorb_fragment\<close> and the
    fragment arithmetic of \<^verbatim>\<open>client.cpp\<close>: the invariant of the table, and reassembly of a stream
    interleaved with foreign traffic.
  \<^item> \<open>Vyn_Ws_Codec\<close>, \<open>Vyn_Ws_Connection\<close> and \<open>Vyn_Ws_Spec\<close>: \<^verbatim>\<open>ws.cpp\<close>: URLs, the RFC 6455 codec
    (proved against a specification of the other side), the opening handshake, reads and writes
    over TCP or TLS, message assembly with control frames, \<open>close\<close>. Messages are delivered whole over
    both kinds of stream. \<open>Vyn_Ws_Handshake\<close> runs \<open>ws_connect\<close> against a server: an open connection
    has seen a response to its own key that passes the checks of the code, such a response opens it,
    and no byte behind the response is lost. The checks accept every RFC 6455 response, and more: a
    refusal whose status line contains \<^verbatim>\<open> 101 \<close> (\<open>refusing_server_accepted\<close>).
  \<^item> \<open>Vyn_Env\<close>: \<^verbatim>\<open>env.cpp\<close> over a small file system: the socket path and the credentials.
  \<^item> \<open>Vyn_Envelope\<close>: the messages of \<^verbatim>\<open>vynkor_protocol.proto\<close> that the SDK reads or writes.
  \<^item> \<open>Vyn_Progress\<close>: the measure \<open>bytes_left\<close> of what a connection still delivers; every receive
    operation consumes some of it, which gives the termination of the loops above.
  \<^item> \<open>Vyn_Client\<close>: \<open>VynkorClient\<close>, every public operation: construction and moves, both
    transports, registration and the session key, sending and receiving with reassembly, requests
    to the kernel. \<open>Vyn_Client_Spec\<close> shows what a client sends is what its peer receives over a
    Unix socket, \<open>Vyn_Client_Ws\<close> the same over a WebSocket.
  \<^item> \<open>Vyn_Client_Ops\<close>: the locales \<open>client_steps\<close>, \<open>client_sender\<close> and \<open>client_object\<close>: what survives
    the elementary steps of a client survives every operation. Their interpretations are \<open>ses\<close> in
    \<open>Vyn_Session\<close> (sending and receiving keep the session), \<open>inp\<close> in \<open>Vyn_Input\<close> (no operation puts
    input back), \<open>key\<close> in \<open>Vyn_Client_Type\<close> (registration alone changes the key) and \<open>wfc\<close> there,
    which shows that every client object a program can hold, after any sequence of public
    operations (\<open>client_op\<close>), moves and exceptions, is well-formed.
  \<^item> \<open>Vyn_Actions\<close>, \<open>Vyn_Json\<close>, \<open>Vyn_Gate\<close> and \<open>Vyn_Gate_Spec\<close>: \<open>ActionResult\<close>,
    \<open>response_envelope\<close>, and \<open>ConfirmationGate\<close> of \<^verbatim>\<open>confirmation_gate.cpp\<close> with its JSON helpers:
    single use of a confirmation in every interleaving, the guards of the executor, and a
    refinement of an abstract map of outstanding requests.
  \<^item> \<open>Vyn_Request\<close>: a request is settled by the first message that concerns it, and on top of it the
    confirmation of an operation from end to end: \<open>send_confirmation_request\<close>, the gate,
    \<open>send_confirmation\<close>.
  \<^item> \<open>Vyn_Plugin\<close> and \<open>Vyn_Plugin_Spec\<close>: \<open>Plugin\<close> of \<^verbatim>\<open>plugin.hpp\<close>, with the callbacks of the
    plugin author as the fields of a record: the order of the callbacks and termination.
  \<^item> \<open>Vyn_Transcript\<close>: the abstract specification of a served plugin. A \<open>script\<close> gives each callback
    as a function of the plugin's members; \<open>session\<close> is the conversation it has, with no sockets,
    frames or keys. \<open>performs\<close> relates a piece of code to a reaction and composes along
    \<open>andthen\<close>; in the locale \<open>scripted\<close> the whole of \<open>serve\<close> is shown to refine \<open>session\<close>:
    the same calls, the same end, and on the wire exactly the frames of its envelopes. It is
    interpreted on the plugins that act on their own members (\<open>own\<close>) and on the echo plugin (\<open>ech\<close>).
  \<^item> \<open>Vyn_Concurrent\<close> and \<open>Vyn_Concurrent_Spec\<close>: \<open>run_concurrent_loop\<close> and \<open>serve_concurrent\<close> of
    \<^verbatim>\<open>concurrent.cpp\<close>. \<open>loop_step\<close> is the step relation of the loop thread and the handler threads;
    \<open>serve_step\<close> embeds it in the stages of \<open>serve_concurrent\<close> (registration, \<open>on_init\<close>, loop,
    \<open>on_shutdown\<close>), each step recording the call it makes. The locale \<open>response_queue\<close> is the contract
    of the channel. Replies are conserved, no wake-up is lost, queued replies can be sent until the
    loop leaves and never after, and for every way \<open>serve_concurrent\<close> can end, which calls the
    handler saw.
  \<^item> \<open>Vyn_Echo\<close>: \<^verbatim>\<open>examples/echo_plugin.cpp\<close> as an instance of the plugin record: \<^verbatim>\<open>main\<close> refines
    its script from connecting to closing, streams are answered in order, and it ends or waits for
    the kernel whatever it is sent.

  \<^bold>\<open>How effects are modelled.\<close> The operating system and OpenSSL are scripts in the state: the
  results of the successive \<^verbatim>\<open>read\<close>, \<^verbatim>\<open>poll\<close>, \<^verbatim>\<open>write\<close>, \<^verbatim>\<open>SSL_read\<close>, \<^verbatim>\<open>SSL_write\<close> calls and the
  readings of the clocks. A theorem for all scripts is a theorem for every behaviour of the peer and
  the kernel. What the code writes is recorded. The state record grows by extension, \<open>world\<close>
  (socket and clock), \<open>net\<close> (WebSocket connection), \<open>client\<close> (\<open>VynkorClient\<close>), \<open>hosted\<close>
  (\<open>Plugin\<close>), \<open>echo\<close>, so that an operation of a lower layer acts on the state of a higher one
  as it is. An operation ends in \<open>Ret\<close>, in \<open>Throw\<close> with the exception, or in \<open>Pending\<close> when it
  waits in a system call whose script is over. Integers have the width of the source where it
  matters: \<^verbatim>\<open>size_t\<close> sums of the fragmentation code, the \<^verbatim>\<open>int\<close> casts of timeouts, ports, CRC,
  header fields. Clock readings, deadlines and durations are unbounded integers of nanoseconds: the
  64 bits of a \<^verbatim>\<open>time_point\<close> last for 292 years, and a lifetime of the confirmation gate beyond
  that, which overflows in the source when it is converted from milliseconds (\<open>expired\<close>), is not
  represented. The cast of a key length to \<^verbatim>\<open>int\<close> for HMAC (\<open>hmac_sha256\<close>) is the identity.
  \<^verbatim>\<open>poll\<close> is assumed to return by its timeout; the model records the timeout of each call. A call on a descriptor that is closed or was never opened is
  one whose script gives an error.

  \<^bold>\<open>Bounds and fuel.\<close> Loops over a script are recursive functions with a termination proof; each
  iteration uses up an entry or a byte. Only the receive loop of \<open>serve\<close> takes fuel, because its
  callbacks are arbitrary: more fuel than \<open>bytes_left\<close> of the connection is enough for callbacks
  that do not add input (\<open>serve_ends\<close>).

  \<^bold>\<open>Parameters.\<close> HMAC-SHA256, SHA-1, base64, zstd and the protobuf serialiser are fields of the
  library records \<open>extlib\<close>, \<open>wslib\<close> and \<open>sdklib\<close>. Theorems that rely on them name what they
  rely on: a tag has 32 bytes (\<open>hmac_ok\<close>), decompression inverts compression (\<open>zstd_ok\<close>), parsing
  inverts serialisation (\<open>proto_roundtrip\<close>). The witnesses instantiate them by concrete functions.
  The handler of the concurrent loop and the executor of the gate are parameters too.

  \<^bold>\<open>Not modelled.\<close> Console output of the example; the test programs, which hold no logic of the
  SDK; build files; the generated protobuf code and the third-party libraries
  (parameters, see above); the memory model below the mutexes of the gate and the channel: an
  access under a mutex is one atomic step. The TLS handshake and name resolution are results of
  the script. Exhaustion of memory and of threads (\<^verbatim>\<open>std::bad_alloc\<close>, a \<^verbatim>\<open>std::thread\<close> that
  cannot be started) does not occur.
\<close>

end
